(* ===== verification/Rms_Prelude.thy ===== *)
theory Rms_Prelude
  imports Complex_Main "HOL-Library.Word"
begin

text \<open>
  Shared vocabulary of the development: the ways the C++ code can fail, the narrowing
  integer conversions it performs, its \<open>double\<close> values, and generic list lemmas.

  Integers of the code are \<open>int\<close> values that lie in the range of their C++ type; every
  conversion of the source that narrows goes through \<open>to_i32\<close> or a \<open>word\<close> type.
  A \<open>double\<close> is one of the three special values or a real number; rounding is not
  modelled, the special values are.
\<close>

section \<open>Failures\<close>

text \<open>
  \<open>Invalid_Argument\<close> and \<open>Out_Of_Range\<close> are the exceptions of \<open>std::stol\<close>,
  \<open>std::stoi\<close> and \<open>std::stod\<close>; \<open>Thrift_Exception\<close> is an exception of the RPC
  library; \<open>Exit\<close> is a call of \<open>exit\<close>. The others are undefined behaviour: a null
  or dangling pointer is dereferenced, a vector is read out of range, a variable is read
  before it was written, a signed operation overflows, a value is
  converted to a type that cannot hold it, a semaphore is released above its
  maximum. \<open>No_Return\<close> stands for a call that never returns.
\<close>

datatype cpp_error =
    Invalid_Argument
  | Out_Of_Range
  | Thrift_Exception
  | Exit int
  | Null_Deref
  | Dangling_Pointer
  | Out_Of_Bounds
  | Indeterminate_Value
  | Signed_Overflow
  | Bad_Conversion
  | Semaphore_Overflow
  | No_Return

type_synonym 'a res = "cpp_error + 'a"

definition rbind :: "'a res \<Rightarrow> ('a \<Rightarrow> 'b res) \<Rightarrow> 'b res" where
  "rbind m f = (case m of Inl e \<Rightarrow> Inl e | Inr x \<Rightarrow> f x)"

lemma rbind_simps [simp]:
  "rbind (Inl e) f = Inl e"
  "rbind (Inr x) f = f x"
  by (simp_all add: rbind_def)

lemma rbind_eq_Inr [simp]:
  "rbind m f = Inr y \<longleftrightarrow> (\<exists>x. m = Inr x \<and> f x = Inr y)"
  by (cases m) simp_all

lemma rbind_split:
  "P (rbind m f) \<longleftrightarrow> (\<forall>e. m = Inl e \<longrightarrow> P (Inl e)) \<and> (\<forall>x. m = Inr x \<longrightarrow> P (f x))"
  by (cases m) simp_all

text \<open>\<open>v[i]\<close> on a \<open>std::vector\<close>, undefined out of range.\<close>

definition vec_at :: "'a list \<Rightarrow> nat \<Rightarrow> 'a res" where
  "vec_at xs i = (if i < length xs then Inr (xs ! i) else Inl Out_Of_Bounds)"

lemma vec_at_in_range [simp]: "i < length xs \<Longrightarrow> vec_at xs i = Inr (xs ! i)"
  by (simp add: vec_at_def)

section \<open>Machine integers\<close>

definition in_i32 :: "int \<Rightarrow> bool" where
  "in_i32 x \<longleftrightarrow> - (2 ^ 31) \<le> x \<and> x < 2 ^ 31"

definition in_i64 :: "int \<Rightarrow> bool" where
  "in_i64 x \<longleftrightarrow> - (2 ^ 63) \<le> x \<and> x < 2 ^ 63"

text \<open>Conversion to \<open>int\<close>: the value modulo \<open>2 ^ 32\<close> in two's complement.\<close>

definition to_i32 :: "int \<Rightarrow> int" where
  "to_i32 x = sint (word_of_int x :: 32 word)"

lemma to_i32_range: "in_i32 (to_i32 x)"
  using sint_ge [of "word_of_int x :: 32 word"] sint_lt [of "word_of_int x :: 32 word"]
  by (simp add: to_i32_def in_i32_def)

lemma to_i32_id [simp]: "in_i32 x \<Longrightarrow> to_i32 x = x"
  by (simp add: to_i32_def in_i32_def sint_sbintrunc' signed_take_bit_int_eq_self)

lemma to_i32_idem [simp]: "to_i32 (to_i32 x) = to_i32 x"
  by (simp add: to_i32_range)

lemma to_i32_minus_one [simp]: "to_i32 (- 1) = - 1"
  by (simp add: in_i32_def)

text \<open>Conversion to a 16-bit field.\<close>

definition to_i16 :: "int \<Rightarrow> int" where
  "to_i16 x = sint (word_of_int x :: 16 word)"

lemma to_i16_id [simp]: "- (2 ^ 15) \<le> x \<Longrightarrow> x < 2 ^ 15 \<Longrightarrow> to_i16 x = x"
  by (simp add: to_i16_def sint_sbintrunc' signed_take_bit_int_eq_self)

text \<open>\<open>a - b\<close> on \<open>int64_t\<close> operands.\<close>

definition sub_i64 :: "int \<Rightarrow> int \<Rightarrow> int res" where
  "sub_i64 a b = (if in_i64 (a - b) then Inr (a - b) else Inl Signed_Overflow)"

lemma sub_i64_nonneg: "0 \<le> b \<Longrightarrow> b \<le> a \<Longrightarrow> in_i64 a \<Longrightarrow> sub_i64 a b = Inr (a - b)"
  by (auto simp: sub_i64_def in_i64_def)

section \<open>Values of type double\<close>

datatype dbl = Num real | PInf | NInf | NaN

instantiation dbl :: comm_monoid_add
begin

definition zero_dbl :: dbl where
  "zero_dbl = Num 0"

fun plus_dbl :: "dbl \<Rightarrow> dbl \<Rightarrow> dbl" where
  "plus_dbl (Num a) (Num b) = Num (a + b)"
| "plus_dbl NaN _ = NaN"
| "plus_dbl _ NaN = NaN"
| "plus_dbl PInf NInf = NaN"
| "plus_dbl NInf PInf = NaN"
| "plus_dbl PInf _ = PInf"
| "plus_dbl NInf _ = NInf"
| "plus_dbl _ y = y"

lemma dbl_plus_assoc: "(x + y) + z = x + (y + (z :: dbl))"
  by (cases x; cases y; cases z) simp_all

lemma dbl_plus_commute: "x + y = y + (x :: dbl)"
  by (cases x; cases y) simp_all

lemma dbl_zero_left: "0 + x = (x :: dbl)"
  by (cases x) (simp_all add: zero_dbl_def)

instance
  by intro_classes (rule dbl_plus_assoc dbl_plus_commute dbl_zero_left)+

end

text \<open>IEEE division: a zero divisor gives a special value.\<close>

fun dbl_div :: "dbl \<Rightarrow> dbl \<Rightarrow> dbl" where
  "dbl_div (Num a) (Num b) =
     (if b \<noteq> 0 then Num (a / b) else if a > 0 then PInf else if a < 0 then NInf else NaN)"
| "dbl_div NaN _ = NaN"
| "dbl_div _ NaN = NaN"
| "dbl_div (Num a) _ = Num 0"
| "dbl_div PInf (Num b) = (if b < 0 then NInf else PInf)"
| "dbl_div NInf (Num b) = (if b < 0 then PInf else NInf)"
| "dbl_div _ _ = NaN"

lemma sum_list_NaN: "NaN \<in> set xs \<Longrightarrow> sum_list xs = NaN"
proof (induction xs)
  case (Cons x xs)
  then show ?case by (cases x; cases "sum_list xs") auto
qed simp

lemma sum_list_Num: "sum_list (map Num rs) = Num (sum_list rs)"
  by (induction rs) (simp_all add: zero_dbl_def)

section \<open>Lists\<close>

text \<open>The last \<open>n\<close> elements, as a bounded queue keeps them.\<close>

definition take_last :: "nat \<Rightarrow> 'a list \<Rightarrow> 'a list" where
  "take_last n xs = drop (length xs - n) xs"

lemma take_last_short [simp]: "length xs \<le> n \<Longrightarrow> take_last n xs = xs"
  by (simp add: take_last_def)

lemma length_take_last [simp]: "length (take_last n xs) = min n (length xs)"
  by (simp add: take_last_def)

lemma take_last_append:
  "take_last n (take_last n xs @ ys) = take_last n (xs @ ys)"
  by (cases "length xs \<le> n") (simp_all add: take_last_def add.commute)

lemma filter_neq_id: "a \<notin> set xs \<Longrightarrow> filter (\<lambda>x. x \<noteq> a) xs = xs"
  by (induction xs) auto

end
