(* ===== verification/Keyed_Table.thy ===== *)
theory Keyed_Table
  imports Rms_Prelude
begin

text \<open>
  The interface of the tables the server keeps as vectors: entries are found by a key with
  a linear search; data for a known key refreshes the entry in place, data for a new key
  appends an entry. The storage devices, the network devices and the usage containers of a
  computer are three such tables.
\<close>

definition distinct_keys :: "('e \<Rightarrow> 'k) \<Rightarrow> 'e list \<Rightarrow> bool" where
  "distinct_keys key es \<longleftrightarrow> distinct (map key es)"

text \<open>The abstract value of a table: a partial map from keys to (first) entries.\<close>

definition table_map :: "('e \<Rightarrow> 'k) \<Rightarrow> 'e list \<Rightarrow> 'k \<rightharpoonup> 'e" where
  "table_map key es k = find (\<lambda>e. key e = k) es"

lemma table_map_Nil [simp]: "table_map key [] = Map.empty"
  by (simp add: table_map_def fun_eq_iff)

lemma table_map_Cons [simp]:
  "table_map key (e # es) = (table_map key es)(key e \<mapsto> e)"
  by (auto simp: table_map_def fun_eq_iff)

lemma dom_table_map: "dom (table_map key es) = key ` set es"
proof (induction es)
  case (Cons e es)
  have "dom (table_map key (e # es)) = insert (key e) (dom (table_map key es))" by simp
  then show ?case by (simp only: Cons.IH list.set image_insert)
qed simp

lemma table_map_mem: "table_map key es k = Some e \<Longrightarrow> e \<in> set es \<and> key e = k"
  by (auto simp: table_map_def find_Some_iff)

lemma table_map_of_mem:
  "distinct_keys key es \<Longrightarrow> e \<in> set es \<Longrightarrow> table_map key es (key e) = Some e"
  by (induction es) (auto simp: distinct_keys_def rev_image_eqI)

locale keyed_table =
  fixes key :: "'e \<Rightarrow> 'k"
    and dkey :: "'d \<Rightarrow> 'k"
    and refresh :: "'e \<Rightarrow> 'd \<Rightarrow> 'e"
    and fresh :: "'d \<Rightarrow> 'e"
    and add :: "'d \<Rightarrow> 'e list \<Rightarrow> 'e list"
  assumes key_refresh: "key e = dkey d \<Longrightarrow> key (refresh e d) = dkey d"
    and key_fresh: "key (fresh d) = dkey d"
    and add_Nil: "add d [] = [fresh d]"
    and add_Cons: "add d (e # es) = (if key e = dkey d then refresh e d # es else e # add d es)"
begin

lemmas add_rules = add_Nil add_Cons key_refresh key_fresh

lemma keys_add:
  "map key (add d es) = (if dkey d \<in> key ` set es then map key es else map key es @ [dkey d])"
  by (induction es) (auto simp: add_rules)

lemma set_keys_add: "key ` set (add d es) = insert (dkey d) (key ` set es)"
  using arg_cong [OF keys_add [of d es], of set] by (auto split: if_splits)

lemma distinct_keys_add: "distinct_keys key es \<Longrightarrow> distinct_keys key (add d es)"
  by (simp add: distinct_keys_def keys_add)

text \<open>The refinement: adding to the vector updates the abstract map at one key.\<close>

lemma table_map_add:
  "table_map key (add d es) =
     (table_map key es)(dkey d \<mapsto>
        (case table_map key es (dkey d) of None \<Rightarrow> fresh d | Some e \<Rightarrow> refresh e d))"
  by (induction es) (auto simp: add_rules fun_upd_twist)

lemma length_add:
  "length (add d es) = (if dkey d \<in> key ` set es then length es else Suc (length es))"
  using arg_cong [OF keys_add [of d es], of length] by (auto split: if_splits)

text \<open>Entries with another key keep their value and their relative order.\<close>

lemma others_add:
  "filter (\<lambda>e. key e \<noteq> dkey d) (add d es) = filter (\<lambda>e. key e \<noteq> dkey d) es"
  by (induction es) (auto simp: add_rules)

lemma add_mem: "e \<in> set (add d es) \<Longrightarrow>
    e \<in> set es \<or> e = fresh d \<or> (\<exists>e' \<in> set es. key e' = dkey d \<and> e = refresh e' d)"
  by (induction es) (auto simp: add_rules split: if_splits)

lemma set_keys_fold: "key ` set (fold add ds es) = key ` set es \<union> dkey ` set ds"
  by (induction ds arbitrary: es) (auto simp: set_keys_add)

lemma distinct_keys_fold: "distinct_keys key es \<Longrightarrow> distinct_keys key (fold add ds es)"
  by (induction ds arbitrary: es) (auto simp: distinct_keys_add)

lemma fold_others:
  "k \<notin> dkey ` set ds \<Longrightarrow> table_map key (fold add ds es) k = table_map key es k"
  by (induction ds arbitrary: es) (auto simp: table_map_add)

lemma fold_all:
  assumes "\<And>d. d \<in> set ds \<Longrightarrow> P (fresh d)"
    and "\<And>e d. d \<in> set ds \<Longrightarrow> P (refresh e d)"
    and "\<And>e. e \<in> set es \<Longrightarrow> P e"
  shows "e \<in> set (fold add ds es) \<Longrightarrow> P e"
  using assms
proof (induction ds arbitrary: es)
  case (Cons d ds)
  show ?case
  proof (rule Cons.IH [of "add d es"])
    show "e \<in> set (fold add ds (add d es))" using Cons.prems(1) by simp
    show "P e'" if "e' \<in> set (add d es)" for e'
      using add_mem [OF that] Cons.prems(2-4) by auto
  qed (use Cons.prems in auto)
qed simp

text \<open>What holds of every fresh and every refreshed entry holds of every reported key.\<close>

lemma fold_reported:
  assumes "\<And>d. d \<in> set ds \<Longrightarrow> P (fresh d)" "\<And>e d. d \<in> set ds \<Longrightarrow> P (refresh e d)"
    and "distinct_keys key es" "\<And>e. e \<in> set es \<Longrightarrow> key e \<in> K \<Longrightarrow> P e"
  shows "e \<in> set (fold add ds es) \<Longrightarrow> key e \<in> K \<union> dkey ` set ds \<Longrightarrow> P e"
  using assms
proof (induction ds arbitrary: es K)
  case (Cons d ds)
  show ?case
  proof (rule Cons.IH [of "add d es" "insert (dkey d) K"])
    show "e \<in> set (fold add ds (add d es))" "key e \<in> insert (dkey d) K \<union> dkey ` set ds"
      using Cons.prems(1,2) by auto
    show "distinct_keys key (add d es)" using Cons.prems(5) by (rule distinct_keys_add)
    fix e' assume e': "e' \<in> set (add d es)" "key e' \<in> insert (dkey d) K"
    have "table_map key (add d es) (key e') = Some e'"
      by (rule table_map_of_mem [OF \<open>distinct_keys key (add d es)\<close> e'(1)])
    then show "P e'"
      using e'(2) Cons.prems(3,4,6) table_map_mem [of key es "key e'" e']
      by (auto simp: table_map_add split: if_splits option.splits)
  qed (use Cons.prems in auto)
qed simp

text \<open>A key reported once is refreshed once, or added.\<close>

lemma fold_lookup:
  "distinct (map dkey ds) \<Longrightarrow> d \<in> set ds \<Longrightarrow>
     table_map key (fold add ds es) (dkey d) =
       Some (case table_map key es (dkey d) of None \<Rightarrow> fresh d | Some e \<Rightarrow> refresh e d)"
proof (induction ds arbitrary: es)
  case (Cons d' ds)
  show ?case
  proof (cases "d = d'")
    case True
    have "dkey d' \<notin> dkey ` set ds" using Cons.prems(1) by auto
    then show ?thesis unfolding True by (simp add: fold_others table_map_add)
  next
    case False
    with Cons.prems have d: "d \<in> set ds" by auto
    have "dkey d' \<notin> dkey ` set ds" using Cons.prems(1) by auto
    with d have "dkey d \<noteq> dkey d'" by (metis imageI)
    with d Cons.IH [of "add d' es"] Cons.prems(1) show ?thesis by (simp add: table_map_add)
  qed
qed simp

text \<open>Every entry reported once, in the order of the table: each is refreshed in place.\<close>

lemma add_behind: "dkey d \<notin> key ` set pre \<Longrightarrow> add d (pre @ es) = pre @ add d es"
  by (induction pre) (auto simp: add_rules)

lemma fold_behind:
  "map key es = map dkey ds \<Longrightarrow> distinct (map dkey ds) \<Longrightarrow> key ` set pre \<inter> dkey ` set ds = {} \<Longrightarrow>
     fold add ds (pre @ es) = pre @ map2 refresh es ds"
proof (induction ds arbitrary: es pre)
  case (Cons d ds)
  then obtain e es' where e: "es = e # es'" "key e = dkey d" "map key es' = map dkey ds" by auto
  have "add d (pre @ es) = (pre @ [refresh e d]) @ es'"
    using Cons.prems(3) e by (simp add: add_behind add_rules)
  with Cons.IH [of es' "pre @ [refresh e d]"] Cons.prems e show ?case by (auto simp: add_rules)
qed simp

lemma fold_refresh_all:
  "map key es = map dkey ds \<Longrightarrow> distinct (map dkey ds) \<Longrightarrow> fold add ds es = map2 refresh es ds"
  using fold_behind [of es ds "[]"] by simp

end

end
