(* ===== verification/Usage_Container.thy ===== *)
theory Usage_Container
  imports Keyed_Table
begin

text \<open>
  \<open>UsageContainer\<close> of \<open>rms_computer.h\<close>: a bounded queue of data points for one kind of
  usage and one identifier, with the average (or sum) that is stored at every tick, and the
  vector of containers a computer keeps, an instance of the keyed table.
\<close>

datatype UsageType = kCpu | kRam | kNetwork | kUsageSize

fun usage_code :: "UsageType \<Rightarrow> int" where
  "usage_code kCpu = 0"
| "usage_code kRam = 1"
| "usage_code kNetwork = 2"
| "usage_code kUsageSize = 3"

text \<open>The enum is ordered by its value.\<close>

instantiation UsageType :: linorder
begin

definition less_eq_UsageType :: "UsageType \<Rightarrow> UsageType \<Rightarrow> bool" where
  "less_eq_UsageType a b \<longleftrightarrow> usage_code a \<le> usage_code b"

definition less_UsageType :: "UsageType \<Rightarrow> UsageType \<Rightarrow> bool" where
  "less_UsageType a b \<longleftrightarrow> usage_code a < usage_code b"

instance
proof
  fix a b :: UsageType
  show "a \<le> b \<Longrightarrow> b \<le> a \<Longrightarrow> a = b"
    by (cases a; cases b) (simp_all add: less_eq_UsageType_def)
qed (auto simp: less_eq_UsageType_def less_UsageType_def)

end

lemma usage_code_inj: "usage_code a = usage_code b \<longleftrightarrow> a = b"
  by (cases a; cases b) simp_all

definition RMS_MAX_CONTAINER_DATA_POINTS :: nat where
  "RMS_MAX_CONTAINER_DATA_POINTS = 60"

record UsageContainer =
  data_points :: "dbl list"
  culminating :: bool
  usage_type :: UsageType
  usage_id :: int
  table_exist :: bool

definition new_container :: "UsageType \<Rightarrow> int \<Rightarrow> bool \<Rightarrow> UsageContainer" where
  "new_container type i cul =
     \<lparr>data_points = [], culminating = cul, usage_type = type, usage_id = i, table_exist = False\<rparr>"

text \<open>
  The sum is \<open>std::reduce\<close>, whose order is unspecified; addition here is commutative and
  associative, so the order does not matter.
\<close>

definition getData :: "UsageContainer \<Rightarrow> dbl" where
  "getData u =
     (let s = sum_list (data_points u)
      in if culminating u then s else dbl_div s (Num (real (length (data_points u)))))"

definition addPoint :: "dbl \<Rightarrow> UsageContainer \<Rightarrow> UsageContainer" where
  "addPoint p u =
     (let ps = (if length (data_points u) > RMS_MAX_CONTAINER_DATA_POINTS
                then tl (data_points u) else data_points u)
      in u\<lparr>data_points := ps @ [p]\<rparr>)"

lemma addPoint_frame [simp]:
  "culminating (addPoint p u) = culminating u"
  "usage_type (addPoint p u) = usage_type u"
  "usage_id (addPoint p u) = usage_id u"
  "table_exist (addPoint p u) = table_exist u"
  by (simp_all add: addPoint_def Let_def)

definition container_bounded :: "UsageContainer \<Rightarrow> bool" where
  "container_bounded u \<longleftrightarrow> length (data_points u) \<le> RMS_MAX_CONTAINER_DATA_POINTS + 1"

lemma container_bounded_new [simp]: "container_bounded (new_container t i b)"
  by (simp add: container_bounded_def new_container_def)

lemma container_bounded_addPoint: "container_bounded u \<Longrightarrow> container_bounded (addPoint p u)"
  by (auto simp: container_bounded_def addPoint_def Let_def)

lemma addPoint_window:
  "container_bounded u \<Longrightarrow>
     data_points (addPoint p u) = take_last (RMS_MAX_CONTAINER_DATA_POINTS + 1) (data_points u @ [p])"
proof (cases "RMS_MAX_CONTAINER_DATA_POINTS < length (data_points u)")
  case True
  assume "container_bounded u"
  with True have "length (data_points u) = Suc RMS_MAX_CONTAINER_DATA_POINTS"
    by (simp add: container_bounded_def)
  then show ?thesis by (simp add: addPoint_def take_last_def drop_Suc)
qed (simp add: addPoint_def)

lemma fold_addPoint_window:
  "container_bounded u \<Longrightarrow>
     data_points (fold addPoint ps u) = take_last (RMS_MAX_CONTAINER_DATA_POINTS + 1) (data_points u @ ps)"
proof (induction ps arbitrary: u)
  case Nil
  then show ?case by (simp add: container_bounded_def)
next
  case (Cons p ps)
  from Cons.IH [OF container_bounded_addPoint [OF Cons.prems]]
  show ?case by (simp add: addPoint_window [OF Cons.prems] take_last_append)
qed

section \<open>The vector of containers\<close>

type_synonym usage_point = "UsageType \<times> dbl \<times> int"

definition usage_key :: "UsageContainer \<Rightarrow> UsageType \<times> int" where
  "usage_key u = (usage_type u, usage_id u)"

definition point_key :: "usage_point \<Rightarrow> UsageType \<times> int" where
  "point_key d = (case d of (t, p, i) \<Rightarrow> (t, i))"

definition refresh_usage :: "UsageContainer \<Rightarrow> usage_point \<Rightarrow> UsageContainer" where
  "refresh_usage u d = addPoint (fst (snd d)) u"

definition fresh_usage :: "usage_point \<Rightarrow> UsageContainer" where
  "fresh_usage d = (case d of (t, p, i) \<Rightarrow> addPoint p (new_container t i False))"

fun add_usage :: "usage_point \<Rightarrow> UsageContainer list \<Rightarrow> UsageContainer list" where
  "add_usage (type, data_point, i) [] = [addPoint data_point (new_container type i False)]"
| "add_usage (type, data_point, i) (usage # us) =
     (if usage_type usage = type \<and> usage_id usage = i then addPoint data_point usage # us
      else usage # add_usage (type, data_point, i) us)"

interpretation usage_tab: keyed_table usage_key point_key refresh_usage fresh_usage add_usage
  by unfold_locales
    (auto simp: usage_key_def point_key_def refresh_usage_def fresh_usage_def new_container_def
      split: if_split_asm)

lemma container_bounded_add_usage:
  "\<forall>u \<in> set us. container_bounded u \<Longrightarrow> u \<in> set (add_usage d us) \<Longrightarrow> container_bounded u"
  using usage_tab.add_mem [of u d us]
  by (auto simp: refresh_usage_def fresh_usage_def container_bounded_addPoint split: prod.splits)

section \<open>Averages\<close>

text \<open>
  The value stored at a tick is an average: for a container whose points are numbers
  between \<open>a\<close> and \<open>b\<close>, and which is not empty, it is a number between \<open>a\<close> and \<open>b\<close>.
\<close>

theorem getData_average:
  assumes "\<not> culminating u" "data_points u = map Num rs" "rs \<noteq> []" "\<forall>r \<in> set rs. a \<le> r \<and> r \<le> b"
  shows "\<exists>m. getData u = Num m \<and> a \<le> m \<and> m \<le> b"
proof -
  have n: "0 < real (length rs)" using assms(3) by simp
  have "a * real (length rs) \<le> sum_list rs \<and> sum_list rs \<le> b * real (length rs)"
    using assms(4) by (induction rs) (auto simp: algebra_simps)
  with n have "a \<le> sum_list rs / real (length rs)" "sum_list rs / real (length rs) \<le> b"
    by (simp_all add: field_simps)
  moreover have "getData u = Num (sum_list rs / real (length rs))"
    using assms(1,2) n by (simp add: getData_def sum_list_Num)
  ultimately show ?thesis by blast
qed

theorem getData_average_witness:
  "\<exists>m. getData (addPoint (Num 40) (new_container kRam 0 False)) = Num m \<and> 0 \<le> m \<and> m \<le> 100"
  by (rule getData_average [of _ "[40]"])
    (simp_all add: addPoint_def new_container_def RMS_MAX_CONTAINER_DATA_POINTS_def)

end
