(* ===== verification/Rms_Thrift.thy ===== *)
theory Rms_Thrift
  imports Rms_Prelude
begin

text \<open>
  The data of the protocol between reporter and server, one record or datatype per struct
  or enum of \<open>common/thrift/RMS.thrift\<close>. A thrift union is generated as a C++ struct with
  every member and a set of flags, which the code reads without looking at the flags; it is
  a record here too. Integer fields are \<open>int\<close> values in the range of their thrift type.
\<close>

section \<open>Common data\<close>

record VersionData =
  vd_release :: int
  vd_major :: int
  vd_minor :: int

record RmsHeader =
  timestamp :: int
  data_count :: int

record CpuUsageData =
  core_count :: int
  cpu_usage :: "dbl list"

datatype Architecture = kX86_64 | kX86 | kArm | kArm64 | kUnknownArch

record CpuInfo =
  cpu_cores :: int
  cache_size :: int
  arch :: Architecture
  cpu_name :: string
  cpu_vendor_name :: string

record NetworkInfo =
  ni_interface_name :: string
  ni_is_ipv6 :: bool
  ni_ip :: string

record RamData =
  main_total :: int
  main_free :: int
  swap_total :: int
  swap_free :: int

record Script =
  script_filename :: string
  script_data :: string
  script_id :: int

record Command =
  cmd_command :: string
  cmd_id :: int

record ExecutorData =
  ed_id :: int
  ed_stdout :: string
  ed_stderr :: string
  ed_ts :: int

datatype ExecutorReturnType = kUnknownReturn | kSuccess | kError | kInternalError

fun return_type_code :: "ExecutorReturnType \<Rightarrow> int" where
  "return_type_code kUnknownReturn = 0"
| "return_type_code kSuccess = 1"
| "return_type_code kError = 2"
| "return_type_code kInternalError = 3"

record ExecutorResult =
  er_id :: int
  er_return_type :: ExecutorReturnType
  er_code :: int
  er_time_finished :: int

section \<open>Responses, from server to reporter\<close>

datatype RmsResponseTypes = kSendSystemInfo | kRunCommand | kRunScript

record RmsResponseValues =
  rsv_long :: int
  rsv_str :: string
  rsv_script :: Script
  rsv_command :: Command

record RmsResponseData =
  rs_data_type :: RmsResponseTypes
  rs_data :: RmsResponseValues

record RmsResponse =
  rs_header :: RmsHeader
  rs_items :: "RmsResponseData list"

section \<open>System information\<close>

record StorageInfo =
  si_dev :: string
  si_fs_type :: string
  si_free :: int
  si_total :: int
  si_mount_point :: string

record TemperatureInfo =
  temp_name :: string
  temp_path :: string

record SystemInfo =
  uptime :: int
  system_name :: string
  host_name :: string
  os_version :: VersionData
  client_version :: VersionData
  cpu_info :: CpuInfo
  sys_storage_info :: "StorageInfo list"
  sys_network_info :: "NetworkInfo list"
  sys_temp_info :: "TemperatureInfo list"

section \<open>Requests, from reporter to server\<close>

datatype RmsRequestTypes =
  kRamUsage | kCpuUsage | kSysInfo | kNetworkUsage | kExecutorResult | kPing | kUnknownRequest

record RmsRequestValues =
  rqv_ram_data :: RamData
  rqv_cpu_usage_data :: CpuUsageData
  rqv_executor_result :: ExecutorResult
  rqv_str :: string
  rqv_long :: int

record RmsRequestData =
  rq_data_type :: RmsRequestTypes
  rq_data :: RmsRequestValues

record RmsRequest =
  rq_header :: RmsHeader
  rq_items :: "RmsRequestData list"

section \<open>Default-constructed values\<close>

text \<open>The generated constructors zero the numbers, empty the strings and take the first enum value.\<close>

definition default_version :: VersionData where
  "default_version = \<lparr>vd_release = 0, vd_major = 0, vd_minor = 0\<rparr>"

definition default_cpu_info :: CpuInfo where
  "default_cpu_info =
     \<lparr>cpu_cores = 0, cache_size = 0, arch = kX86_64, cpu_name = [], cpu_vendor_name = []\<rparr>"

definition default_system_info :: SystemInfo where
  "default_system_info =
     \<lparr>uptime = 0, system_name = [], host_name = [], os_version = default_version,
      client_version = default_version, cpu_info = default_cpu_info,
      sys_storage_info = [], sys_network_info = [], sys_temp_info = []\<rparr>"

definition default_response_values :: RmsResponseValues where
  "default_response_values =
     \<lparr>rsv_long = 0, rsv_str = [],
      rsv_script = \<lparr>script_filename = [], script_data = [], script_id = 0\<rparr>,
      rsv_command = \<lparr>cmd_command = [], cmd_id = 0\<rparr>\<rparr>"

definition default_request_values :: RmsRequestValues where
  "default_request_values =
     \<lparr>rqv_ram_data = \<lparr>main_total = 0, main_free = 0, swap_total = 0, swap_free = 0\<rparr>,
      rqv_cpu_usage_data = \<lparr>core_count = 0, cpu_usage = []\<rparr>,
      rqv_executor_result =
        \<lparr>er_id = 0, er_return_type = kUnknownReturn, er_code = 0, er_time_finished = 0\<rparr>,
      rqv_str = [], rqv_long = 0\<rparr>"

end
