(* ===== verification/Cpp_Text.thy ===== *)
theory Cpp_Text
  imports Rms_Prelude "HOL-Library.Char_ord"
begin

text \<open>
  The parts of the C and C++ libraries through which the program reads and writes text:
  \<open>std::to_string\<close>, \<open>std::stol\<close> and \<open>std::stoi\<close>, the extraction operators and
  \<open>std::getline\<close> of an input stream, and the conversions of \<open>scanf\<close>, in the default
  locale. Round trips between printing and the three readers are proved once here.
\<close>

section \<open>Characters\<close>

definition is_space :: "char \<Rightarrow> bool" where
  "is_space c \<longleftrightarrow> c = CHR '' '' \<or> c = CHR 0x09 \<or> c = CHR 0x0A \<or> c = CHR 0x0B \<or> c = CHR 0x0C \<or> c = CHR 0x0D"

definition digit_val :: "char \<Rightarrow> nat" where
  "digit_val c = of_char c - 48"

definition is_digit :: "char \<Rightarrow> bool" where
  "is_digit c \<longleftrightarrow> 48 \<le> (of_char c :: nat) \<and> (of_char c :: nat) \<le> 57"

definition digit_char :: "nat \<Rightarrow> char" where
  "digit_char n = char_of (48 + n)"

lemma of_digit_char: "n < 10 \<Longrightarrow> of_char (digit_char n) = 48 + n"
  by (simp add: digit_char_def)

lemma digit_char_digit [simp]: "n < 10 \<Longrightarrow> is_digit (digit_char n)"
  by (simp add: is_digit_def of_digit_char)

lemma digit_char_val [simp]: "n < 10 \<Longrightarrow> digit_val (digit_char n) = n"
  by (simp add: digit_val_def of_digit_char)

lemma digit_not_special:
  assumes "is_digit c"
  shows "\<not> is_space c" "c \<noteq> CHR ''-''" "c \<noteq> CHR ''+''"
  using assms by (auto simp: is_digit_def is_space_def)

section \<open>Decimal integers\<close>

fun nat_string :: "nat \<Rightarrow> string" where
  "nat_string n = (if n < 10 then [digit_char n] else nat_string (n div 10) @ [digit_char (n mod 10)])"

declare nat_string.simps [simp del]

definition to_string :: "int \<Rightarrow> string" where
  "to_string n = (if n < 0 then CHR ''-'' # nat_string (nat (- n)) else nat_string (nat n))"

definition digits_value :: "string \<Rightarrow> nat" where
  "digits_value ds = foldl (\<lambda>a c. 10 * a + digit_val c) 0 ds"

lemma nat_string_digits: "\<forall>c \<in> set (nat_string n). is_digit c"
proof (induction n rule: nat_string.induct)
  case (1 n)
  then show ?case by (subst nat_string.simps) auto
qed

lemma nat_string_nonempty [simp]: "nat_string n \<noteq> []"
  by (subst nat_string.simps) simp

lemma digits_value_nat_string [simp]: "digits_value (nat_string n) = n"
proof (induction n rule: nat_string.induct)
  case (1 n)
  then show ?case
    by (subst nat_string.simps) (auto simp: digits_value_def)
qed

lemma to_string_chars: "c \<in> set (to_string n) \<Longrightarrow> is_digit c \<or> c = CHR ''-''"
  using nat_string_digits by (auto simp: to_string_def split: if_splits)

lemma to_string_no_space: "c \<in> set (to_string n) \<Longrightarrow> \<not> is_space c"
  using to_string_chars [of c n] digit_not_special by (auto simp: is_space_def)

lemma to_string_nonempty [simp]: "to_string n \<noteq> []"
  by (simp add: to_string_def)

section \<open>Reading integers\<close>

definition skip_ws :: "string \<Rightarrow> string" where
  "skip_ws s = dropWhile is_space s"

fun take_sign :: "string \<Rightarrow> bool \<times> string" where
  "take_sign [] = (False, [])"
| "take_sign (c # cs) =
     (if c = CHR ''-'' then (True, cs) else if c = CHR ''+'' then (False, cs) else (False, c # cs))"

text \<open>
  A decimal integer field: an optional sign and at least one digit. Without a digit there
  is no value, and a sign that was read stays consumed.
\<close>

definition int_field :: "string \<Rightarrow> int option \<times> string" where
  "int_field s =
     (let (neg, t) = take_sign s; ds = takeWhile is_digit t; r = dropWhile is_digit t
      in if ds = [] then (None, t)
         else (Some (if neg then - int (digits_value ds) else int (digits_value ds)), r))"

definition stops_digits :: "string \<Rightarrow> bool" where
  "stops_digits r \<longleftrightarrow> (case r of [] \<Rightarrow> True | c # _ \<Rightarrow> \<not> is_digit c)"

lemma stops_digits_simps [simp]:
  "stops_digits []"
  "stops_digits (c # r) \<longleftrightarrow> \<not> is_digit c"
  by (simp_all add: stops_digits_def)

lemma stops_digits_split:
  assumes "stops_digits r"
  shows "takeWhile is_digit r = []" "dropWhile is_digit r = r"
  using assms by (auto simp: stops_digits_def split: list.splits)

lemma int_field_to_string:
  assumes "stops_digits r"
  shows "int_field (to_string n @ r) = (Some n, r)"
proof -
  obtain c cs where c: "nat_string (nat n) = c # cs"
    by (cases "nat_string (nat n)") auto
  have "is_digit c" using nat_string_digits [of "nat n"] c by simp
  then have "take_sign (nat_string (nat n) @ r) = (False, nat_string (nat n) @ r)"
    using c digit_not_special by auto
  then show ?thesis
    using assms nat_string_digits
    by (simp add: int_field_def to_string_def Let_def stops_digits_split)
qed

lemma skip_ws_to_string [simp]: "skip_ws (to_string n @ r) = to_string n @ r"
  using to_string_no_space [of "hd (to_string n)" n]
  by (cases "to_string n") (auto simp: skip_ws_def)

text \<open>\<open>std::stol\<close> and \<open>std::stoi\<close>: characters after the number are ignored.\<close>

definition stol :: "string \<Rightarrow> int res" where
  "stol s = (case fst (int_field (skip_ws s)) of
     None \<Rightarrow> Inl Invalid_Argument
   | Some n \<Rightarrow> if in_i64 n then Inr n else Inl Out_Of_Range)"

definition stoi :: "string \<Rightarrow> int res" where
  "stoi s = (case fst (int_field (skip_ws s)) of
     None \<Rightarrow> Inl Invalid_Argument
   | Some n \<Rightarrow> if in_i32 n then Inr n else Inl Out_Of_Range)"

lemma stol_to_string [simp]: "in_i64 n \<Longrightarrow> stol (to_string n) = Inr n"
  using skip_ws_to_string [of n "[]"] int_field_to_string [of "[]" n] by (simp add: stol_def)

lemma stoi_to_string [simp]: "in_i32 n \<Longrightarrow> stoi (to_string n) = Inr n"
  using skip_ws_to_string [of n "[]"] int_field_to_string [of "[]" n] by (simp add: stoi_def)

lemma stol_Nil [simp]: "stol [] = Inl Invalid_Argument"
  by (simp add: stol_def skip_ws_def int_field_def)

lemma stoi_Nil [simp]: "stoi [] = Inl Invalid_Argument"
  by (simp add: stoi_def skip_ws_def int_field_def)

section \<open>Input streams\<close>

text \<open>
  A \<open>std::istream\<close> over text: what is unread and the two state bits. The extraction
  operators return \<open>None\<close> when the variable is left untouched (the sentry failed) and
  \<open>Some v\<close> when it is assigned, which an integer extraction also does on failure: \<open>0\<close>
  without a digit, the nearest bound on overflow.
\<close>

record istream =
  unread :: string
  eofbit :: bool
  failbit :: bool

definition open_stream :: "string \<Rightarrow> istream" where
  "open_stream s = \<lparr>unread = s, eofbit = False, failbit = False\<rparr>"

definition sentry :: "istream \<Rightarrow> istream" where
  "sentry st =
     (if eofbit st \<or> failbit st then st\<lparr>failbit := True\<rparr>
      else let t = skip_ws (unread st)
           in if t = [] then st\<lparr>unread := [], eofbit := True, failbit := True\<rparr>
              else st\<lparr>unread := t\<rparr>)"

definition i32_clamp :: "int \<Rightarrow> int" where
  "i32_clamp n = (if n < - (2 ^ 31) then - (2 ^ 31) else if n \<ge> 2 ^ 31 then 2 ^ 31 - 1 else n)"

definition extract_int :: "istream \<Rightarrow> int option \<times> istream" where
  "extract_int st =
     (let st1 = sentry st
      in if failbit st1 then (None, st1)
         else case int_field (unread st1) of
           (None, r) \<Rightarrow> (Some 0, st1\<lparr>unread := r, eofbit := (r = []), failbit := True\<rparr>)
         | (Some n, r) \<Rightarrow> (Some (i32_clamp n), st1\<lparr>unread := r, eofbit := (r = []), failbit := \<not> in_i32 n\<rparr>))"

definition extract_char :: "istream \<Rightarrow> char option \<times> istream" where
  "extract_char st =
     (let st1 = sentry st
      in if failbit st1 then (None, st1)
         else case unread st1 of
           [] \<Rightarrow> (None, st1)
         | c # r \<Rightarrow> (Some c, st1\<lparr>unread := r\<rparr>))"

definition extract_word :: "istream \<Rightarrow> string option \<times> istream" where
  "extract_word st =
     (let st1 = sentry st
      in if failbit st1 then (None, st1)
         else let w = takeWhile (\<lambda>c. \<not> is_space c) (unread st1);
                  r = dropWhile (\<lambda>c. \<not> is_space c) (unread st1)
              in (Some w, st1\<lparr>unread := r, eofbit := (r = [])\<rparr>))"

definition newline :: char where
  "newline = CHR 0x0A"

text \<open>\<open>std::getline\<close>: \<open>None\<close> leaves the string untouched, and the delimiter is dropped.\<close>

definition extract_line :: "istream \<Rightarrow> string option \<times> istream" where
  "extract_line st =
     (if eofbit st \<or> failbit st then (None, st\<lparr>failbit := True\<rparr>)
      else if unread st = [] then (Some [], st\<lparr>eofbit := True, failbit := True\<rparr>)
      else let l = takeWhile (\<lambda>c. c \<noteq> newline) (unread st);
               r = dropWhile (\<lambda>c. c \<noteq> newline) (unread st)
           in (Some l, st\<lparr>unread := tl r, eofbit := (r = [])\<rparr>))"

text \<open>The lines that the loop \<open>while (std::getline(in, line))\<close> sees.\<close>

function lines_of :: "string \<Rightarrow> string list" where
  "lines_of s = (if s = [] then [] else
     takeWhile (\<lambda>c. c \<noteq> newline) s # lines_of (tl (dropWhile (\<lambda>c. c \<noteq> newline) s)))"
  by pat_completeness auto
termination
proof (relation "measure length")
  fix s :: string
  assume "s \<noteq> []"
  then have "0 < length s" by simp
  moreover have "length (dropWhile (\<lambda>c. c \<noteq> newline) s) \<le> length s" by (rule length_dropWhile_le)
  ultimately have "length (dropWhile (\<lambda>c. c \<noteq> newline) s) - 1 < length s" by linarith
  then show "(tl (dropWhile (\<lambda>c. c \<noteq> newline) s), s) \<in> measure length" by simp
qed simp

declare lines_of.simps [simp del]

lemma lines_of_Nil [simp]: "lines_of [] = []"
  by (subst lines_of.simps) simp

lemma lines_of_line [simp]:
  assumes "newline \<notin> set l"
  shows "lines_of (l @ newline # r) = l # lines_of r"
proof -
  have "takeWhile (\<lambda>c. c \<noteq> newline) (l @ newline # r) = l"
    using assms by (induction l) auto
  moreover have "dropWhile (\<lambda>c. c \<noteq> newline) (l @ newline # r) = newline # r"
    using assms by (induction l) auto
  ultimately show ?thesis by (subst lines_of.simps) simp
qed

text \<open>One step of that loop on an open stream.\<close>

lemma extract_line_lines_of:
  assumes "s \<noteq> []"
  shows "fst (extract_line (open_stream s)) = Some (hd (lines_of s))"
    and "lines_of (unread (snd (extract_line (open_stream s)))) = tl (lines_of s)"
  using assms lines_of.simps [of s] by (simp_all add: extract_line_def open_stream_def Let_def)

section \<open>Conversions of scanf\<close>

text \<open>
  The directives the program uses: white space, a literal character, an integer of a given
  width, and a word; \<open>Skip_Int\<close> and \<open>Skip_Word\<close> are the forms with an assignment
  suppressing star. The result is the list of assigned values, the unread rest, and how
  the call ended.
\<close>

datatype directive = Blank | Lit char | Int_Field | Skip_Int | Word_Field | Skip_Word

datatype scan_value = SInt int | SWord string

datatype scan_end = Scan_Done | Match_Failure | Input_Failure

definition lits :: "string \<Rightarrow> directive list" where
  "lits s = List.map Lit s"

definition cons_value :: "scan_value \<Rightarrow> scan_value list \<times> string \<times> scan_end \<Rightarrow> scan_value list \<times> string \<times> scan_end" where
  "cons_value v r = (v # fst r, snd r)"

fun scanf :: "directive list \<Rightarrow> string \<Rightarrow> scan_value list \<times> string \<times> scan_end" where
  "scanf [] s = ([], s, Scan_Done)"
| "scanf (Blank # ds) s = scanf ds (skip_ws s)"
| "scanf (Lit c # ds) s = (case s of
     [] \<Rightarrow> ([], [], Input_Failure)
   | x # xs \<Rightarrow> if x = c then scanf ds xs else ([], s, Match_Failure))"
| "scanf (Int_Field # ds) s = (if skip_ws s = [] then ([], [], Input_Failure) else
     case int_field (skip_ws s) of
       (None, r) \<Rightarrow> ([], r, Match_Failure)
     | (Some n, r) \<Rightarrow> cons_value (SInt n) (scanf ds r))"
| "scanf (Skip_Int # ds) s = (if skip_ws s = [] then ([], [], Input_Failure) else
     case int_field (skip_ws s) of
       (None, r) \<Rightarrow> ([], r, Match_Failure)
     | (Some n, r) \<Rightarrow> scanf ds r)"
| "scanf (Word_Field # ds) s = (if skip_ws s = [] then ([], [], Input_Failure) else
     cons_value (SWord (takeWhile (\<lambda>c. \<not> is_space c) (skip_ws s)))
       (scanf ds (dropWhile (\<lambda>c. \<not> is_space c) (skip_ws s))))"
| "scanf (Skip_Word # ds) s = (if skip_ws s = [] then ([], [], Input_Failure) else
     scanf ds (dropWhile (\<lambda>c. \<not> is_space c) (skip_ws s)))"

text \<open>The call returns \<open>EOF\<close> when the input ends before any value was assigned.\<close>

definition scan_eof :: "scan_value list \<times> string \<times> scan_end \<Rightarrow> bool" where
  "scan_eof r \<longleftrightarrow> fst r = [] \<and> snd (snd r) = Input_Failure"

lemma lits_simps [simp]: "lits [] = []" "lits (c # cs) = Lit c # lits cs"
  by (simp_all add: lits_def)

lemma scanf_lits [simp]: "scanf (lits w @ ds) (w @ s) = scanf ds s"
  by (induction w) auto

lemma scanf_int [simp]:
  "stops_digits r \<Longrightarrow>
     scanf (Int_Field # ds) (to_string n @ r) = cons_value (SInt n) (scanf ds r)"
  by (simp add: int_field_to_string)

lemma scanf_skip_int [simp]:
  "stops_digits r \<Longrightarrow> scanf (Skip_Int # ds) (to_string n @ r) = scanf ds r"
  by (simp add: int_field_to_string)

lemma skip_ws_space [simp]: "is_space c \<Longrightarrow> skip_ws (c # s) = skip_ws s"
  by (simp add: skip_ws_def)

lemma skip_ws_word [simp]: "\<not> is_space c \<Longrightarrow> skip_ws (c # s) = c # s"
  by (simp add: skip_ws_def)

lemma skip_ws_Nil [simp]: "skip_ws [] = []"
  by (simp add: skip_ws_def)

end
