(* ===== verification/Rms_Database.thy ===== *)
theory Rms_Database
  imports Rms_Thrift Cpp_Text "HOL-Library.Sublist"
begin

text \<open>
  The database layer: the query templates of \<open>rms_database.h\<close>, the result of a query, the
  environment of the server code, and \<open>RmsDatabase::createTables\<close>. The formatting library
  (\<open>fmt\<close>), the generated enum printer, the clocks and the virtual \<open>executeQuery\<close> are the
  fields of the environment. The locale \<open>query_source\<close> is the contract between the
  database and its clients; the SQLite implementation interprets it.
\<close>

section \<open>Query templates\<close>

definition sq :: string where
  "sq = [CHR 0x27]"

definition RMS_DB_TYPE_FMT_STRING :: string where
  "RMS_DB_TYPE_FMT_STRING = sq @ ''{:s}'' @ sq"

definition RMS_DB_TYPE_FMT_INT :: string where
  "RMS_DB_TYPE_FMT_INT = ''{:d}''"

definition RMS_DB_TYPE_FMT_FLOAT :: string where
  "RMS_DB_TYPE_FMT_FLOAT = ''{:f}''"

definition RMS_DB_TYPE_FMT_VERSION :: string where
  "RMS_DB_TYPE_FMT_VERSION = sq @ ''{:d}.{:d}.{:d}'' @ sq"

definition RMS_DB_TYPE_FMT_DATE :: string where
  "RMS_DB_TYPE_FMT_DATE = sq @ ''{:d}-{:d}-{:d}'' @ sq"

definition RMS_DB_CREATE_COMPUTER_TABLE :: string where
  "RMS_DB_CREATE_COMPUTER_TABLE =
     ''CREATE TABLE computer_table('' @
     ''computer_id INTEGER NOT NULL,'' @
     ''system_name VARCHAR(256),'' @
     ''host_name VARCHAR(256),'' @
     ''os_version VARCHAR(64),'' @
     ''client_version VARCHAR(32),'' @
     ''cpu_name VARCHAR(256),'' @
     ''cpu_vendor VARCHAR(64),'' @
     ''cpu_core_count INT,'' @
     ''cpu_cache_size INT,'' @
     ''cpu_arch VARCHAR(10),'' @
     ''PRIMARY KEY (computer_id));''"

definition RMS_DB_INSERT_COMPUTER_TABLE :: string where
  "RMS_DB_INSERT_COMPUTER_TABLE =
     ''INSERT INTO computer_table('' @
     ''system_name, host_name, os_version,'' @
     ''client_version, cpu_name, cpu_vendor,'' @
     ''cpu_core_count, cpu_cache_size, cpu_arch)'' @
     ''values ( '' @ RMS_DB_TYPE_FMT_STRING @ '','' @ RMS_DB_TYPE_FMT_STRING @
     '','' @ RMS_DB_TYPE_FMT_VERSION @ '','' @ RMS_DB_TYPE_FMT_VERSION @
     '','' @ RMS_DB_TYPE_FMT_STRING @ '','' @ RMS_DB_TYPE_FMT_STRING @
     '','' @ RMS_DB_TYPE_FMT_INT @ '','' @ RMS_DB_TYPE_FMT_INT @ '','' @ RMS_DB_TYPE_FMT_STRING @
     '');''"

definition RMS_DB_UPDATE_COMPUTER_TABLE :: string where
  "RMS_DB_UPDATE_COMPUTER_TABLE =
     ''UPDATE computer_table'' @
     '' SET system_name= '' @ RMS_DB_TYPE_FMT_STRING @
     '', host_name='' @ RMS_DB_TYPE_FMT_STRING @
     '', os_version='' @ RMS_DB_TYPE_FMT_VERSION @
     '', client_version='' @ RMS_DB_TYPE_FMT_VERSION @
     '', cpu_name='' @ RMS_DB_TYPE_FMT_STRING @ '', cpu_vendor='' @ RMS_DB_TYPE_FMT_STRING @
     '', cpu_core_count='' @ RMS_DB_TYPE_FMT_INT @
     '', cpu_cache_size='' @ RMS_DB_TYPE_FMT_INT @ '', cpu_arch='' @ RMS_DB_TYPE_FMT_STRING @
     '' WHERE computer_id = '' @ RMS_DB_TYPE_FMT_INT @ '';''"

definition RMS_DB_FETCH_COMPUTER_BY_ID :: string where
  "RMS_DB_FETCH_COMPUTER_BY_ID =
     ''SELECT * FROM computer_table WHERE computer_id = '' @ RMS_DB_TYPE_FMT_INT"

definition RMS_DB_CREATE_STORAGE_TABLE :: string where
  "RMS_DB_CREATE_STORAGE_TABLE =
     ''CREATE TABLE storage_table('' @
     ''storage_info_id INTEGER NOT NULL,'' @
     ''computer_id INT NOT NULL,'' @
     ''dev_path VARCHAR(16),'' @
     ''fs_type VARCHAR(16),'' @
     ''mount_point VARCHAR(128),'' @
     ''free INT,'' @
     ''total INT,'' @
     ''connected INT,'' @
     ''PRIMARY KEY(storage_info_id),'' @
     ''FOREIGN KEY (computer_id) REFERENCES '' @
     ''computer_table(computer_id));''"

definition RMS_DB_FETCH_STORAGE_BY_COMPUTER_ID :: string where
  "RMS_DB_FETCH_STORAGE_BY_COMPUTER_ID =
     ''SELECT * FROM storage_table WHERE computer_id = '' @ RMS_DB_TYPE_FMT_INT @ '';''"

definition RMS_DB_INSERT_STORAGE_TABLE :: string where
  "RMS_DB_INSERT_STORAGE_TABLE =
     ''INSERT INTO storage_table (computer_id,'' @
     ''dev_path, fs_type, mount_point, free, total, connected) VALUES'' @
     ''('' @ RMS_DB_TYPE_FMT_INT @ '','' @ RMS_DB_TYPE_FMT_STRING @
     '','' @ RMS_DB_TYPE_FMT_STRING @ '','' @ RMS_DB_TYPE_FMT_STRING @
     '','' @ RMS_DB_TYPE_FMT_INT @ '','' @ RMS_DB_TYPE_FMT_INT @ '',1);''"

definition RMS_DB_UPDATE_STORAGE_TABLE :: string where
  "RMS_DB_UPDATE_STORAGE_TABLE =
     ''UPDATE storage_table SET free='' @ RMS_DB_TYPE_FMT_INT @
     '', total='' @ RMS_DB_TYPE_FMT_INT @ '', connected='' @ RMS_DB_TYPE_FMT_INT @
     '', mount_point='' @ RMS_DB_TYPE_FMT_STRING @ '', fs_type='' @ RMS_DB_TYPE_FMT_STRING @
     '' WHERE storage_info_id='' @ RMS_DB_TYPE_FMT_INT @ '';''"

definition RMS_DB_CREATE_NETWORK_INFO_TABLE :: string where
  "RMS_DB_CREATE_NETWORK_INFO_TABLE =
     ''CREATE TABLE network_info_table('' @
     ''network_info_id INTEGER NOT NULL,'' @
     ''computer_id INT NOT NULL,'' @
     ''connected INT,'' @
     ''PRIMARY KEY (network_info_id),'' @
     ''FOREIGN KEY (computer_id) REFERENCES '' @
     ''computer_table(computer_id));''"

definition RMS_DB_CREATE_NETWORK_IP_TABLE :: string where
  "RMS_DB_CREATE_NETWORK_IP_TABLE =
     ''CREATE TABLE network_ip_table('' @
     ''network_ip_id INTEGER NOT NULL,'' @
     ''network_info_id INT,'' @
     ''ipv6 INT,'' @
     ''ip VARCHAR(50),'' @
     ''PRIMARY KEY (network_ip_id),'' @
     ''FOREIGN KEY (network_info_id) REFERENCES '' @
     ''network_info_table(network_info_id));''"

definition RMS_DB_CREATE_USAGE_TABLE :: string where
  "RMS_DB_CREATE_USAGE_TABLE =
     ''CREATE TABLE usage_table('' @
     ''date DATE NOT NULL,'' @
     ''data_type INTEGER NOT NULL,'' @
     ''data_id INTEGER,'' @
     ''tick0 FLOAT,'' @
     ''tick1 FLOAT,'' @
     ''tick2 FLOAT,'' @
     ''tick3 FLOAT,'' @
     ''tick4 FLOAT,'' @
     ''tick5 FLOAT,'' @
     ''tick6 FLOAT,'' @
     ''tick7 FLOAT,'' @
     ''tick8 FLOAT,'' @
     ''tick9 FLOAT,'' @
     ''tick10 FLOAT,'' @
     ''tick11 FLOAT,'' @
     ''tick12 FLOAT,'' @
     ''tick13 FLOAT,'' @
     ''tick14 FLOAT,'' @
     ''tick15 FLOAT,'' @
     ''tick16 FLOAT,'' @
     ''tick17 FLOAT,'' @
     ''tick18 FLOAT,'' @
     ''tick19 FLOAT,'' @
     ''tick20 FLOAT,'' @
     ''tick21 FLOAT,'' @
     ''tick22 FLOAT,'' @
     ''tick23 FLOAT);''"

definition RMS_DB_INSERT_USAGE_TABLE :: string where
  "RMS_DB_INSERT_USAGE_TABLE =
     ''INSERT INTO usage_table ('' @
     ''date, data_type) VALUES '' @
     ''('' @ RMS_DB_TYPE_FMT_DATE @ '', '' @ RMS_DB_TYPE_FMT_INT @ '');''"

definition RMS_DB_INSERT_USAGE_TABLE_WITH_ID :: string where
  "RMS_DB_INSERT_USAGE_TABLE_WITH_ID =
     ''INSERT INTO usage_table ('' @
     ''date, data_type, data_id) VALUES '' @
     ''('' @ RMS_DB_TYPE_FMT_DATE @ '', '' @ RMS_DB_TYPE_FMT_INT @ '','' @ RMS_DB_TYPE_FMT_INT @
     '');''"

definition RMS_DB_UPDATE_USAGE_TABLE :: string where
  "RMS_DB_UPDATE_USAGE_TABLE =
     ''UPDATE usage_table SET tick{:d}='' @ RMS_DB_TYPE_FMT_FLOAT @
     '' WHERE date='' @ RMS_DB_TYPE_FMT_DATE @ ''and data_type='' @ RMS_DB_TYPE_FMT_INT @ '';''"

definition RMS_DB_UPDATE_USAGE_TABLE_WITH_ID :: string where
  "RMS_DB_UPDATE_USAGE_TABLE_WITH_ID =
     ''UPDATE usage_table SET tick{:d}='' @ RMS_DB_TYPE_FMT_FLOAT @
     '' WHERE date='' @ RMS_DB_TYPE_FMT_DATE @ '' and data_type='' @ RMS_DB_TYPE_FMT_INT @
     '' and data_id='' @ RMS_DB_TYPE_FMT_INT @ '';''"

definition RMS_DB_DOES_USAGE_ENTRY_EXIST :: string where
  "RMS_DB_DOES_USAGE_ENTRY_EXIST =
     ''SELECT COUNT(*) FROM usage_table WHERE'' @
     '' date='' @ RMS_DB_TYPE_FMT_DATE @ '' and data_type='' @ RMS_DB_TYPE_FMT_INT @ '';''"

definition RMS_DB_DOES_USAGE_ENTRY_EXIST_WITH_ID :: string where
  "RMS_DB_DOES_USAGE_ENTRY_EXIST_WITH_ID =
     ''SELECT COUNT(*) FROM usage_table WHERE'' @
     '' date='' @ RMS_DB_TYPE_FMT_DATE @ '' and data_type='' @ RMS_DB_TYPE_FMT_INT @
     '' and data_id='' @ RMS_DB_TYPE_FMT_INT @ '';''"

definition RMS_DB_CREATE_EXECUTOR_TABLE :: string where
  "RMS_DB_CREATE_EXECUTOR_TABLE =
     ''CREATE TABLE executor_table('' @
     ''executor_id INTEGER NOT NULL,'' @
     ''computer_id INT NOT NULL,'' @
     ''return_code INT,'' @
     ''return_type INT,'' @
     ''start_time INT NOT NULL,'' @
     ''end_time INT,'' @
     ''name VARCHAR(128) NOT NULL,'' @
     ''PRIMARY KEY (executor_id),'' @
     ''FOREIGN KEY (computer_id) REFERENCES '' @
     ''computer_table(computer_id));''"

definition RMS_DB_INSERT_EXECUTOR_TABLE :: string where
  "RMS_DB_INSERT_EXECUTOR_TABLE =
     ''INSERT INTO executor_table(computer_id, start_time, name)'' @
     ''values ( '' @ RMS_DB_TYPE_FMT_INT @ '','' @ RMS_DB_TYPE_FMT_INT @
     '','' @ RMS_DB_TYPE_FMT_STRING @ '');''"

definition RMS_DB_UPDATE_EXECUTOR_TABLE :: string where
  "RMS_DB_UPDATE_EXECUTOR_TABLE =
     ''UPDATE executor_table'' @
     '' SET end_time= '' @ RMS_DB_TYPE_FMT_INT @ '', return_code='' @ RMS_DB_TYPE_FMT_INT @
     '', return_type='' @ RMS_DB_TYPE_FMT_INT @
     '' WHERE executor_id = '' @ RMS_DB_TYPE_FMT_INT @ '';''"

section \<open>Results and environment\<close>

text \<open>
  \<open>RmsQueryResult\<close>: \<open>last_id\<close> is \<open>None\<close> until it is written, since the struct does not
  initialise it.
\<close>

record RmsQueryResult =
  success :: bool
  last_id :: "int option"
  column_names :: "string list"
  table_rows :: "string list list"

datatype fmt_arg = FInt int | FStr string | FDbl dbl

record tm =
  tm_year :: int
  tm_mon :: int
  tm_mday :: int
  tm_hour :: int

record 'w env =
  fmt_format :: "string \<Rightarrow> fmt_arg list \<Rightarrow> string"
  arch_to_string :: "Architecture \<Rightarrow> string"
  execute_query :: "string \<Rightarrow> bool \<Rightarrow> 'w \<Rightarrow> RmsQueryResult res \<times> 'w"
  time_now :: "'w \<Rightarrow> int \<times> 'w"
  local_time :: "int \<Rightarrow> tm"
  steady_now :: "'w \<Rightarrow> int \<times> 'w"

text \<open>A formatted query passes through \<open>c_str()\<close>: it ends at the first null byte.\<close>

definition c_str :: "string \<Rightarrow> string" where
  "c_str s = takeWhile (\<lambda>c. c \<noteq> CHR 0x00) s"

definition fmt_query :: "'w env \<Rightarrow> string \<Rightarrow> fmt_arg list \<Rightarrow> string" where
  "fmt_query env template args = c_str (fmt_format env template args)"

text \<open>
  Running a query on behalf of an object \<open>s\<close>: a failure of the call itself leaves the
  object as it was and ends the operation.
\<close>

definition run_query ::
  "'w env \<Rightarrow> string \<Rightarrow> bool \<Rightarrow> 's \<Rightarrow> 'w \<Rightarrow> (RmsQueryResult \<Rightarrow> 'w \<Rightarrow> 'a res \<times> 's \<times> 'w) \<Rightarrow> 'a res \<times> 's \<times> 'w"
where
  "run_query env q ret s w k = (case execute_query env q ret w of
     (Inl e, w') \<Rightarrow> (Inl e, s, w')
   | (Inr r, w') \<Rightarrow> k r w')"

lemma run_query_split:
  "P (run_query env q ret s w k) \<longleftrightarrow>
     (\<forall>e w'. execute_query env q ret w = (Inl e, w') \<longrightarrow> P (Inl e, s, w')) \<and>
     (\<forall>r w'. execute_query env q ret w = (Inr r, w') \<longrightarrow> P (k r w'))"
  by (auto simp: run_query_def split: prod.splits sum.splits)

lemma run_query_simps [simp]:
  "execute_query env q ret w = (Inl e, w') \<Longrightarrow> run_query env q ret s w k = (Inl e, s, w')"
  "execute_query env q ret w = (Inr r, w') \<Longrightarrow> run_query env q ret s w k = k r w'"
  by (simp_all add: run_query_def)

text \<open>An environment that also records the statements issued, with their results.\<close>

definition traced :: "'w env \<Rightarrow> ('w \<times> string list) env" where
  "traced env =
     \<lparr>fmt_format = fmt_format env,
      arch_to_string = arch_to_string env,
      execute_query = (\<lambda>q ret (w, l). (let (r, w') = execute_query env q ret w in (r, w', l @ [q]))),
      time_now = (\<lambda>(w, l). (let (t, w') = time_now env w in (t, w', l))),
      local_time = local_time env,
      steady_now = (\<lambda>(w, l). (let (t, w') = steady_now env w in (t, w', l)))\<rparr>"

lemma traced_simps [simp]:
  "fmt_format (traced env) = fmt_format env"
  "arch_to_string (traced env) = arch_to_string env"
  "local_time (traced env) = local_time env"
  "execute_query (traced env) q ret (w, l) =
     (fst (execute_query env q ret w), snd (execute_query env q ret w), l @ [q])"
  "time_now (traced env) (w, l) = (fst (time_now env w), snd (time_now env w), l)"
  "steady_now (traced env) (w, l) = (fst (steady_now env w), snd (steady_now env w), l)"
  by (simp_all add: traced_def split: prod.splits)

text \<open>A server started without a database: \<open>getDatabase()\<close> dereferences a null pointer.\<close>

definition null_database :: "'w env \<Rightarrow> 'w env" where
  "null_database env = env\<lparr>execute_query := (\<lambda>_ _ w. (Inl Null_Deref, w))\<rparr>"

lemma fmt_query_traced [simp]: "fmt_query (traced env) = fmt_query env"
  by (simp add: fmt_query_def fun_eq_iff)

section \<open>The contract of a database\<close>

text \<open>
  What the clients rely on when they index into a result: every row has a cell for every
  column, a query ends or never returns, a failed query has no rows, and a successful query that was asked for the insert
  id has one.
\<close>

definition rectangular :: "RmsQueryResult \<Rightarrow> bool" where
  "rectangular r \<longleftrightarrow> (\<forall>row \<in> set (table_rows r). length row = length (column_names r))"

locale query_source =
  fixes exec :: "string \<Rightarrow> bool \<Rightarrow> 'w \<Rightarrow> RmsQueryResult res \<times> 'w"
  assumes exec_rectangular: "exec q ret w = (Inr r, w') \<Longrightarrow> rectangular r"
    and exec_error: "exec q ret w = (Inl e, w') \<Longrightarrow> e = No_Return"
    and exec_failed: "exec q ret w = (Inr r, w') \<Longrightarrow> \<not> success r \<Longrightarrow> table_rows r = []"
    and exec_columns: "exec q ret w = (Inr r, w') \<Longrightarrow> table_rows r \<noteq> [] \<Longrightarrow> column_names r \<noteq> []"
    and exec_insert_id: "exec q True w = (Inr r, w') \<Longrightarrow> success r \<Longrightarrow> last_id r \<noteq> None"
begin

lemma exec_cell:
  assumes "exec q ret w = (Inr r, w')" "row \<in> set (table_rows r)" "i < length (column_names r)"
  shows "vec_at row i = Inr (row ! i)"
  using exec_rectangular [OF assms(1)] assms(2,3) by (simp add: rectangular_def)

lemma exec_inserted:
  assumes "exec q True w = (Inr r, w')" "success r"
  obtains i where "last_id r = Some i"
  using exec_insert_id [OF assms] by blast

end

section \<open>Creating the tables\<close>

text \<open>Statements in order, up to the first that fails.\<close>

fun run_statements :: "'w env \<Rightarrow> string list \<Rightarrow> 'w \<Rightarrow> bool res \<times> 'w" where
  "run_statements env [] w = (Inr True, w)"
| "run_statements env (q # qs) w = (case execute_query env q False w of
     (Inl e, w') \<Rightarrow> (Inl e, w')
   | (Inr r, w') \<Rightarrow> if success r then run_statements env qs w' else (Inr False, w'))"

definition create_statements :: "string list" where
  "create_statements =
     [RMS_DB_CREATE_COMPUTER_TABLE, RMS_DB_CREATE_STORAGE_TABLE, RMS_DB_CREATE_NETWORK_INFO_TABLE,
      RMS_DB_CREATE_NETWORK_IP_TABLE, RMS_DB_CREATE_USAGE_TABLE, RMS_DB_CREATE_EXECUTOR_TABLE]"

definition createTables :: "'w env \<Rightarrow> 'w \<Rightarrow> unit res \<times> 'w" where
  "createTables env w = (case run_statements env create_statements w of
     (Inl e, w') \<Rightarrow> (Inl e, w')
   | (Inr ok, w') \<Rightarrow> if ok then (Inr (), w') else (Inl (Exit 1), w'))"

lemma run_statements_trace:
  "run_statements (traced env) qs (w, l) = (r, w', l') \<Longrightarrow>
     \<exists>n \<le> length qs. l' = l @ take n qs \<and> (r = Inr True \<longrightarrow> n = length qs)"
proof (induction qs arbitrary: w l)
  case (Cons q qs)
  show ?case
  proof (cases "execute_query env q False w")
    case (Pair a w1)
    show ?thesis
    proof (cases a)
      case (Inl e)
      with Pair Cons.prems show ?thesis by (auto intro: exI [of _ "1::nat"])
    next
      case (Inr res)
      show ?thesis
      proof (cases "success res")
        case True
        with Pair Inr Cons.prems have "run_statements (traced env) qs (w1, l @ [q]) = (r, w', l')"
          by simp
        from Cons.IH [OF this] obtain n where "n \<le> length qs" "l' = (l @ [q]) @ take n qs"
          "r = Inr True \<longrightarrow> n = length qs" by blast
        then show ?thesis by (intro exI [of _ "Suc n"]) simp
      next
        case False
        with Pair Inr Cons.prems show ?thesis by (auto intro: exI [of _ "1::nat"])
      qed
    qed
  qed
qed auto

end
