(* ===== verification/Rms_Computer.thy ===== *)
theory Rms_Computer
  imports Usage_Container Rms_Database
begin

text \<open>
  \<open>RmsComputer\<close> (\<open>server/src/rms_computer.cpp\<close>, \<open>rms_computer.h\<close>): the live state of a
  client's computer and its synchronisation with the database. Operations take the
  environment, the object and the world, and return an outcome with the new object and
  world; an exception keeps the changes made before it was thrown.
\<close>

section \<open>State\<close>

record RmsStorageInfo =
  storage_info_id :: int
  dev_path :: string
  fs_type :: string
  mount_point :: string
  free :: "64 word"
  total :: "64 word"
  connected :: bool
  dirty :: bool

definition new_storage_info :: RmsStorageInfo where
  "new_storage_info =
     \<lparr>storage_info_id = - 1, dev_path = [], fs_type = [], mount_point = [], free = 0, total = 0,
      connected = False, dirty = False\<rparr>"

record RmsNetworkIPS =
  ipv6 :: bool
  ip :: string
  marked_for_delete :: bool

record RmsNetworkInfo =
  network_info_id :: int
  interface_name :: string
  ips :: "RmsNetworkIPS list"
  net_connected :: bool
  net_dirty :: bool

definition new_network_info :: RmsNetworkInfo where
  "new_network_info =
     \<lparr>network_info_id = - 1, interface_name = [], ips = [], net_connected = False, net_dirty = False\<rparr>"

record RmsComputer =
  computer_id :: int
  sys_info :: SystemInfo
  storage_info :: "RmsStorageInfo list"
  network_info :: "RmsNetworkInfo list"
  usage_info :: "UsageContainer list"
  sys_info_dirty :: bool

text \<open>The constructor takes an \<open>int\<close>: a 64-bit argument is narrowed by the caller's conversion.\<close>

definition new_computer :: "int \<Rightarrow> RmsComputer" where
  "new_computer i =
     \<lparr>computer_id = to_i32 i, sys_info = default_system_info, storage_info = [], network_info = [],
      usage_info = [], sys_info_dirty = False\<rparr>"

section \<open>Devices reported by the client\<close>

definition StorageInfoToRmsStorageInfo :: "RmsStorageInfo \<Rightarrow> StorageInfo \<Rightarrow> RmsStorageInfo" where
  "StorageInfoToRmsStorageInfo r s =
     r\<lparr>dirty := \<not> (si_dev s = dev_path r \<and> fs_type r = si_fs_type s \<and>
                   free r = word_of_int (si_free s) \<and> total r = word_of_int (si_total s) \<and>
                   mount_point r = si_mount_point s),
       dev_path := si_dev s, fs_type := si_fs_type s,
       free := word_of_int (si_free s), total := word_of_int (si_total s),
       mount_point := si_mount_point s, connected := True\<rparr>"

definition fresh_storage :: "StorageInfo \<Rightarrow> RmsStorageInfo" where
  "fresh_storage s = (StorageInfoToRmsStorageInfo new_storage_info s)\<lparr>dirty := True\<rparr>"

fun add_storage :: "StorageInfo \<Rightarrow> RmsStorageInfo list \<Rightarrow> RmsStorageInfo list" where
  "add_storage dev [] = [fresh_storage dev]"
| "add_storage dev (storage # rest) =
     (if dev_path storage = si_dev dev then StorageInfoToRmsStorageInfo storage dev # rest
      else storage # add_storage dev rest)"

definition addStorageDevice :: "StorageInfo \<Rightarrow> RmsComputer \<Rightarrow> RmsComputer" where
  "addStorageDevice dev c = c\<lparr>storage_info := add_storage dev (storage_info c)\<rparr>"

lemma dev_path_update [simp]: "dev_path (StorageInfoToRmsStorageInfo r s) = si_dev s"
  by (simp add: StorageInfoToRmsStorageInfo_def)

interpretation storage_tab:
  keyed_table dev_path si_dev StorageInfoToRmsStorageInfo fresh_storage add_storage
  by unfold_locales (simp_all add: fresh_storage_def)

definition NetworkDeviceToRmsNetworkDevice :: "RmsNetworkInfo \<Rightarrow> NetworkInfo \<Rightarrow> RmsNetworkInfo" where
  "NetworkDeviceToRmsNetworkDevice r n =
     (let r1 = r\<lparr>interface_name := ni_interface_name n, net_connected := True\<rparr>;
          rms_ip = \<lparr>ipv6 = ni_is_ipv6 n, ip = ni_ip n, marked_for_delete = False\<rparr>
      in if \<exists>i \<in> set (ips r1). ip i = ip rms_ip then r1 else r1\<lparr>ips := ips r1 @ [rms_ip]\<rparr>)"

definition fresh_network :: "NetworkInfo \<Rightarrow> RmsNetworkInfo" where
  "fresh_network n = NetworkDeviceToRmsNetworkDevice new_network_info n"

fun add_network :: "NetworkInfo \<Rightarrow> RmsNetworkInfo list \<Rightarrow> RmsNetworkInfo list" where
  "add_network dev [] = [fresh_network dev]"
| "add_network dev (network # rest) =
     (if interface_name network = ni_interface_name dev
      then NetworkDeviceToRmsNetworkDevice network dev # rest
      else network # add_network dev rest)"

definition addNetworkDevice :: "NetworkInfo \<Rightarrow> RmsComputer \<Rightarrow> RmsComputer" where
  "addNetworkDevice dev c = c\<lparr>network_info := add_network dev (network_info c)\<rparr>"

lemma interface_name_update [simp]:
  "interface_name (NetworkDeviceToRmsNetworkDevice r n) = ni_interface_name n"
  by (simp add: NetworkDeviceToRmsNetworkDevice_def Let_def)

interpretation network_tab:
  keyed_table interface_name ni_interface_name NetworkDeviceToRmsNetworkDevice fresh_network add_network
  by unfold_locales (simp_all add: fresh_network_def)

definition addUsageInfo :: "UsageType \<Rightarrow> dbl \<Rightarrow> int \<Rightarrow> RmsComputer \<Rightarrow> RmsComputer" where
  "addUsageInfo type data_point i c = c\<lparr>usage_info := add_usage (type, data_point, i) (usage_info c)\<rparr>"

definition isSysInfoDirty :: "SystemInfo \<Rightarrow> SystemInfo \<Rightarrow> bool" where
  "isSysInfoDirty lhs rhs \<longleftrightarrow>
     \<not> (host_name lhs = host_name rhs \<and> cpu_info lhs = cpu_info rhs \<and>
        system_name lhs = system_name rhs \<and> client_version lhs = client_version rhs \<and>
        os_version lhs = os_version rhs)"

definition setSysInfo :: "SystemInfo \<Rightarrow> RmsComputer \<Rightarrow> RmsComputer" where
  "setSysInfo info c =
     (let c1 = c\<lparr>sys_info_dirty := isSysInfoDirty (sys_info c) info, sys_info := info\<rparr>;
          c2 = fold addNetworkDevice (sys_network_info info) c1;
          c3 = fold addStorageDevice (sys_storage_info info) c2
      in c3\<lparr>sys_info := (sys_info c3)\<lparr>sys_network_info := [], sys_storage_info := []\<rparr>\<rparr>)"

section \<open>Writing to the database\<close>

definition version_args :: "VersionData \<Rightarrow> fmt_arg list" where
  "version_args v = [FInt (vd_major v), FInt (vd_minor v), FInt (vd_release v)]"

text \<open>The insert passes the major number of the client version twice.\<close>

definition insert_computer_query :: "'w env \<Rightarrow> SystemInfo \<Rightarrow> string" where
  "insert_computer_query env s =
     fmt_query env RMS_DB_INSERT_COMPUTER_TABLE
       [FStr (system_name s), FStr (host_name s), FInt (vd_major (os_version s)),
        FInt (vd_minor (os_version s)), FInt (vd_release (os_version s)),
        FInt (vd_major (client_version s)),
        FInt (vd_major (client_version s)),
        FInt (vd_release (client_version s)), FStr (cpu_name (cpu_info s)),
        FStr (cpu_vendor_name (cpu_info s)),
        FInt (cpu_cores (cpu_info s)), FInt (cache_size (cpu_info s)),
        FStr (arch_to_string env (arch (cpu_info s)))]"

definition insert_storage_query :: "'w env \<Rightarrow> int \<Rightarrow> RmsStorageInfo \<Rightarrow> string" where
  "insert_storage_query env cid dev =
     fmt_query env RMS_DB_INSERT_STORAGE_TABLE
       [FInt cid, FStr (dev_path dev), FStr (fs_type dev), FStr (mount_point dev),
        FInt (uint (free dev)), FInt (uint (total dev))]"

definition keep_dev :: "RmsStorageInfo \<Rightarrow> unit res \<times> RmsStorageInfo list \<times> 'w \<Rightarrow> unit res \<times> RmsStorageInfo list \<times> 'w" where
  "keep_dev dev r = (fst r, dev # fst (snd r), snd (snd r))"

fun insert_storage :: "'w env \<Rightarrow> int \<Rightarrow> RmsStorageInfo list \<Rightarrow> 'w \<Rightarrow> unit res \<times> RmsStorageInfo list \<times> 'w" where
  "insert_storage env cid [] w = (Inr (), [], w)"
| "insert_storage env cid (dev # devs) w =
     run_query env (insert_storage_query env cid dev) True (dev # devs) w (\<lambda>res w1.
       if success res then
         (case last_id res of
            None \<Rightarrow> (Inl Indeterminate_Value, dev # devs, w1)
          | Some i \<Rightarrow> keep_dev (dev\<lparr>storage_info_id := i, dirty := False\<rparr>) (insert_storage env cid devs w1))
       else keep_dev (dev\<lparr>dirty := True\<rparr>) (insert_storage env cid devs w1))"

definition addToDB :: "'w env \<Rightarrow> RmsComputer \<Rightarrow> 'w \<Rightarrow> bool res \<times> RmsComputer \<times> 'w" where
  "addToDB env c w =
     run_query env (insert_computer_query env (sys_info c)) True c w (\<lambda>res w1.
       if success res then
         (case last_id res of
            None \<Rightarrow> (Inl Indeterminate_Value, c, w1)
          | Some i \<Rightarrow>
              (let (r, devs, w2) = insert_storage env i (storage_info c) w1;
                   c1 = c\<lparr>computer_id := i, storage_info := devs\<rparr>
               in case r of Inl e \<Rightarrow> (Inl e, c1, w2) | Inr _ \<Rightarrow> (Inr (success res), c1, w2)))
       else (Inr False, c, w1))"

definition update_computer_query :: "'w env \<Rightarrow> SystemInfo \<Rightarrow> int \<Rightarrow> string" where
  "update_computer_query env s cid =
     fmt_query env RMS_DB_UPDATE_COMPUTER_TABLE
       ([FStr (system_name s), FStr (host_name s)] @ version_args (os_version s) @
        version_args (client_version s) @
        [FStr (cpu_name (cpu_info s)), FStr (cpu_vendor_name (cpu_info s)),
         FInt (cpu_cores (cpu_info s)), FInt (cache_size (cpu_info s)),
         FStr (arch_to_string env (arch (cpu_info s))), FInt cid])"

definition update_storage_query :: "'w env \<Rightarrow> RmsStorageInfo \<Rightarrow> string" where
  "update_storage_query env dev =
     fmt_query env RMS_DB_UPDATE_STORAGE_TABLE
       [FInt (uint (free dev)), FInt (uint (total dev)), FInt (of_bool (connected dev)),
        FStr (mount_point dev), FStr (fs_type dev), FInt (storage_info_id dev)]"

text \<open>The loop over dirty devices; \<open>ok\<close> is the \<open>success\<close> of the last query so far.\<close>

definition keep_upd :: "RmsStorageInfo \<Rightarrow> bool res \<times> RmsStorageInfo list \<times> 'w \<Rightarrow> bool res \<times> RmsStorageInfo list \<times> 'w" where
  "keep_upd dev r = (fst r, dev # fst (snd r), snd (snd r))"

fun update_storage :: "'w env \<Rightarrow> bool \<Rightarrow> RmsStorageInfo list \<Rightarrow> 'w \<Rightarrow> bool res \<times> RmsStorageInfo list \<times> 'w" where
  "update_storage env ok [] w = (Inr ok, [], w)"
| "update_storage env ok (dev # devs) w =
     (if \<not> dirty dev then keep_upd dev (update_storage env ok devs w)
      else run_query env (update_storage_query env dev) False (dev # devs) w (\<lambda>res w1.
        keep_upd (dev\<lparr>dirty := \<not> success res\<rparr>) (update_storage env (success res) devs w1)))"

definition update_devices :: "'w env \<Rightarrow> bool \<Rightarrow> RmsComputer \<Rightarrow> 'w \<Rightarrow> bool res \<times> RmsComputer \<times> 'w" where
  "update_devices env ok c w =
     (let (r, devs, w1) = update_storage env ok (storage_info c) w
      in (r, c\<lparr>storage_info := devs\<rparr>, w1))"

definition updateDB :: "'w env \<Rightarrow> RmsComputer \<Rightarrow> 'w \<Rightarrow> bool res \<times> RmsComputer \<times> 'w" where
  "updateDB env c w =
     (if computer_id c = - 1 then (Inr False, c, w)
      else if sys_info_dirty c then
        run_query env (update_computer_query env (sys_info c) (computer_id c)) False c w (\<lambda>res w1.
          update_devices env (success res)
            (if success res then c\<lparr>sys_info_dirty := False\<rparr> else c) w1)
      else update_devices env True c w)"

section \<open>Reading from the database\<close>

text \<open>
  \<open>stream >> major >> ch >> minor >> ch >> release\<close>: a number the stream never reached was
  not assigned, and copying it is undefined.
\<close>

definition parse_version :: "string \<Rightarrow> VersionData res" where
  "parse_version s =
     (let (major, st1) = extract_int (open_stream s);
          (ch1, st2) = extract_char st1;
          (minor, st3) = extract_int st2;
          (ch2, st4) = extract_char st3;
          (release, st5) = extract_int st4
      in case (major, minor, release) of
           (Some a, Some b, Some r) \<Rightarrow> Inr \<lparr>vd_release = r, vd_major = a, vd_minor = b\<rparr>
         | _ \<Rightarrow> Inl Indeterminate_Value)"

definition set_cpu :: "(CpuInfo \<Rightarrow> CpuInfo) \<Rightarrow> SystemInfo \<Rightarrow> SystemInfo" where
  "set_cpu f si = si\<lparr>cpu_info := f (cpu_info si)\<rparr>"

text \<open>One column of the computer row; the cell is only read when the name is known.\<close>

definition load_column :: "string \<Rightarrow> string res \<Rightarrow> SystemInfo \<Rightarrow> SystemInfo res" where
  "load_column name cell si =
     (if name = ''system_name'' then rbind cell (\<lambda>v. Inr (si\<lparr>system_name := v\<rparr>))
      else if name = ''host_name'' then rbind cell (\<lambda>v. Inr (si\<lparr>host_name := v\<rparr>))
      else if name = ''os_version'' then
        rbind cell (\<lambda>v. rbind (parse_version v) (\<lambda>ver. Inr (si\<lparr>os_version := ver\<rparr>)))
      else if name = ''client_version'' then
        rbind cell (\<lambda>v. rbind (parse_version v) (\<lambda>ver. Inr (si\<lparr>client_version := ver\<rparr>)))
      else if name = ''cpu_name'' then
        rbind cell (\<lambda>v. Inr (set_cpu (\<lambda>cp. cp\<lparr>cpu_name := v\<rparr>) si))
      else if name = ''cpu_vendor'' then
        rbind cell (\<lambda>v. Inr (set_cpu (\<lambda>cp. cp\<lparr>cpu_vendor_name := v\<rparr>) si))
      else if name = ''cpu_core_count'' then
        rbind cell (\<lambda>v. rbind (stol v) (\<lambda>n. Inr (set_cpu (\<lambda>cp. cp\<lparr>cpu_cores := to_i32 n\<rparr>) si)))
      else if name = ''cpu_cache_size'' then
        rbind cell (\<lambda>v. rbind (stol v) (\<lambda>n. Inr (set_cpu (\<lambda>cp. cp\<lparr>cache_size := to_i16 n\<rparr>) si)))
      else if name = ''cpu_arch'' then
        rbind cell (\<lambda>v. Inr (if v = ''kX86_64'' then set_cpu (\<lambda>cp. cp\<lparr>arch := kX86_64\<rparr>) si else si))
      else Inr si)"

fun load_columns :: "string list \<Rightarrow> string list \<Rightarrow> nat list \<Rightarrow> SystemInfo \<Rightarrow> unit res \<times> SystemInfo" where
  "load_columns names row [] si = (Inr (), si)"
| "load_columns names row (i # is) si =
     (case load_column (names ! i) (vec_at row i) si of
        Inl e \<Rightarrow> (Inl e, si)
      | Inr si' \<Rightarrow> load_columns names row is si')"

definition load_storage_column :: "string \<Rightarrow> string res \<Rightarrow> RmsStorageInfo \<Rightarrow> RmsStorageInfo res" where
  "load_storage_column name cell info =
     (if name = ''computer_id'' then Inr info
      else if name = ''storage_info_id'' then
        rbind cell (\<lambda>v. rbind (stoi v) (\<lambda>n. Inr (info\<lparr>storage_info_id := n\<rparr>)))
      else if name = ''total'' then
        rbind cell (\<lambda>v. rbind (stoi v) (\<lambda>n. Inr (info\<lparr>total := word_of_int n\<rparr>)))
      else if name = ''dev_path'' then rbind cell (\<lambda>v. Inr (info\<lparr>dev_path := v\<rparr>))
      else if name = ''fs_type'' then rbind cell (\<lambda>v. Inr (info\<lparr>fs_type := v\<rparr>))
      else if name = ''mount_point'' then rbind cell (\<lambda>v. Inr (info\<lparr>mount_point := v\<rparr>))
      else Inr info)"

fun load_storage_columns :: "string list \<Rightarrow> string list \<Rightarrow> nat list \<Rightarrow> RmsStorageInfo \<Rightarrow> RmsStorageInfo res" where
  "load_storage_columns names row [] info = Inr info"
| "load_storage_columns names row (i # is) info =
     rbind (load_storage_column (names ! i) (vec_at row i) info) (load_storage_columns names row is)"

fun load_storage_rows :: "string list \<Rightarrow> string list list \<Rightarrow> RmsStorageInfo list \<Rightarrow> unit res \<times> RmsStorageInfo list" where
  "load_storage_rows names [] devs = (Inr (), devs)"
| "load_storage_rows names (row # rows) devs =
     (case load_storage_columns names row [0..<length names] new_storage_info of
        Inl e \<Rightarrow> (Inl e, devs)
      | Inr info \<Rightarrow> load_storage_rows names rows (devs @ [info\<lparr>connected := False\<rparr>]))"

definition load_storage :: "'w env \<Rightarrow> RmsComputer \<Rightarrow> 'w \<Rightarrow> bool res \<times> RmsComputer \<times> 'w" where
  "load_storage env c w =
     run_query env (fmt_query env RMS_DB_FETCH_STORAGE_BY_COMPUTER_ID [FInt (computer_id c)]) False c w
       (\<lambda>res w1.
          if success res \<and> length (table_rows res) > 0 then
            (let (r, devs) = load_storage_rows (column_names res) (table_rows res) (storage_info c);
                 c1 = c\<lparr>storage_info := devs\<rparr>
             in case r of Inl e \<Rightarrow> (Inl e, c1, w1) | Inr _ \<Rightarrow> (Inr (success res), c1, w1))
          else (Inr (success res), c, w1))"

definition getFromDB :: "'w env \<Rightarrow> RmsComputer \<Rightarrow> 'w \<Rightarrow> bool res \<times> RmsComputer \<times> 'w" where
  "getFromDB env c w =
     (if computer_id c = - 1 then (Inr False, c, w)
      else run_query env (fmt_query env RMS_DB_FETCH_COMPUTER_BY_ID [FInt (computer_id c)]) False c w
        (\<lambda>res w1.
           if success res \<and> length (table_rows res) = 1 then
             (let (r, si) = load_columns (column_names res) (table_rows res ! 0)
                              [0..<length (column_names res)] (sys_info c);
                  c1 = c\<lparr>sys_info := si\<rparr>
              in case r of Inl e \<Rightarrow> (Inl e, c1, w1) | Inr _ \<Rightarrow> load_storage env c1 w1)
           else if success res then addToDB env c w1
           else (Inr False, c, w1)))"

section \<open>Pushing usage data\<close>

definition date_args :: "tm \<Rightarrow> fmt_arg list" where
  "date_args d = [FInt (tm_year d + 1900), FInt (tm_mon d + 1), FInt (tm_mday d)]"

definition usage_exists_query :: "'w env \<Rightarrow> tm \<Rightarrow> UsageContainer \<Rightarrow> string" where
  "usage_exists_query env d u =
     (if usage_id u = - 1
      then fmt_query env RMS_DB_DOES_USAGE_ENTRY_EXIST (date_args d @ [FInt (usage_code (usage_type u))])
      else fmt_query env RMS_DB_DOES_USAGE_ENTRY_EXIST_WITH_ID
             (date_args d @ [FInt (usage_code (usage_type u)), FInt (usage_id u)]))"

definition usage_insert_query :: "'w env \<Rightarrow> tm \<Rightarrow> UsageContainer \<Rightarrow> string" where
  "usage_insert_query env d u =
     (if usage_id u = - 1
      then fmt_query env RMS_DB_INSERT_USAGE_TABLE (date_args d @ [FInt (usage_code (usage_type u))])
      else fmt_query env RMS_DB_INSERT_USAGE_TABLE_WITH_ID
             (date_args d @ [FInt (usage_code (usage_type u)), FInt (usage_id u)]))"

definition usage_update_query :: "'w env \<Rightarrow> tm \<Rightarrow> int \<Rightarrow> UsageContainer \<Rightarrow> string" where
  "usage_update_query env d tick u =
     (if usage_id u = - 1
      then fmt_query env RMS_DB_UPDATE_USAGE_TABLE
             ([FInt tick, FDbl (getData u)] @ date_args d @ [FInt (usage_code (usage_type u))])
      else fmt_query env RMS_DB_UPDATE_USAGE_TABLE_WITH_ID
             ([FInt tick, FDbl (getData u)] @ date_args d @
              [FInt (usage_code (usage_type u)), FInt (usage_id u)]))"

text \<open>\<open>res.table_rows.size() == 0 || res.table_rows[0][0] == "0"\<close>\<close>

definition count_is_zero :: "RmsQueryResult \<Rightarrow> bool res" where
  "count_is_zero res =
     (if length (table_rows res) = 0 then Inr True
      else rbind (vec_at (table_rows res ! 0) 0) (\<lambda>v. Inr (v = ''0'')))"

definition ensure_usage_row :: "'w env \<Rightarrow> tm \<Rightarrow> int \<Rightarrow> UsageContainer \<Rightarrow> 'w \<Rightarrow> unit res \<times> 'w" where
  "ensure_usage_row env d tick u w =
     (if \<not> table_exist u \<or> tick = 0 then
        (case execute_query env (usage_exists_query env d u) False w of
           (Inl e, w1) \<Rightarrow> (Inl e, w1)
         | (Inr res, w1) \<Rightarrow>
             (case count_is_zero res of
                Inl e \<Rightarrow> (Inl e, w1)
              | Inr z \<Rightarrow>
                  if z then
                    (case execute_query env (usage_insert_query env d u) False w1 of
                       (Inl e, w2) \<Rightarrow> (Inl e, w2) | (Inr _, w2) \<Rightarrow> (Inr (), w2))
                  else (Inr (), w1)))
      else (Inr (), w))"

definition push_usage :: "'w env \<Rightarrow> tm \<Rightarrow> int \<Rightarrow> UsageContainer \<Rightarrow> 'w \<Rightarrow> unit res \<times> 'w" where
  "push_usage env d tick u w =
     (case ensure_usage_row env d tick u w of
        (Inl e, w1) \<Rightarrow> (Inl e, w1)
      | (Inr _, w1) \<Rightarrow>
          (case execute_query env (usage_update_query env d tick u) False w1 of
             (Inl e, w2) \<Rightarrow> (Inl e, w2) | (Inr _, w2) \<Rightarrow> (Inr (), w2)))"

fun push_usages :: "'w env \<Rightarrow> tm \<Rightarrow> int \<Rightarrow> UsageContainer list \<Rightarrow> 'w \<Rightarrow> unit res \<times> 'w" where
  "push_usages env d tick [] w = (Inr (), w)"
| "push_usages env d tick (u # us) w =
     (case push_usage env d tick u w of
        (Inl e, w1) \<Rightarrow> (Inl e, w1)
      | (Inr _, w1) \<Rightarrow> push_usages env d tick us w1)"

definition pushUsageToDB :: "'w env \<Rightarrow> int \<Rightarrow> RmsComputer \<Rightarrow> 'w \<Rightarrow> bool res \<times> 'w" where
  "pushUsageToDB env tick c w =
     (let (tt, w1) = time_now env w;
          (r, w2) = push_usages env (local_time env tt) tick (usage_info c) w1
      in case r of Inl e \<Rightarrow> (Inl e, w2) | Inr _ \<Rightarrow> (Inr True, w2))"

section \<open>Printing\<close>

text \<open>
  \<open>toString\<close>; \<open>show_version\<close> is the generated \<open>operator<<\<close> of \<open>VersionData\<close>. The
  used capacity is a subtraction of unsigned 64-bit numbers.
\<close>

definition endl :: string where
  "endl = [newline]"

definition storage_line :: "RmsStorageInfo \<Rightarrow> string" where
  "storage_line info =
     ''{'' @ ''name:'' @ dev_path info @ '', type:'' @ fs_type info @
     '', connected:'' @ to_string (of_bool (connected info)) @
     '', capacity: '' @ to_string (uint (total info - free info)) @ ''/'' @
     to_string (uint (total info)) @ ''}'' @ endl"

definition network_line :: "RmsNetworkInfo \<Rightarrow> string" where
  "network_line info =
     ''{'' @ ''name:'' @ interface_name info @
     '', connected:'' @ to_string (of_bool (net_connected info)) @ '', IPS:[ '' @
     concat (map (\<lambda>i. ip i @ '', '') (ips info)) @
     '']}'' @ endl"

definition toString :: "(VersionData \<Rightarrow> string) \<Rightarrow> RmsComputer \<Rightarrow> string" where
  "toString show_version c =
     ''Computer id:         '' @ to_string (computer_id c) @ endl @
     ''Computer uptime      '' @ to_string (uptime (sys_info c)) @ endl @
     ''Computer sys_name:   '' @ system_name (sys_info c) @ endl @
     ''Computer host_name:  '' @ host_name (sys_info c) @ endl @
     ''Computer os_version:     '' @ show_version (os_version (sys_info c)) @ endl @
     ''Computer client_version:     '' @ show_version (client_version (sys_info c)) @ endl @
     ''Computer cpu_core:   '' @ to_string (cpu_cores (cpu_info (sys_info c))) @ endl @
     ''Computer cpu_vendor: '' @ cpu_vendor_name (cpu_info (sys_info c)) @ endl @
     ''Computer Storage Devices'' @ endl @
     concat (map storage_line (storage_info c)) @
     ''Computer Network Devices'' @ endl @
     concat (map network_line (network_info c))"

section \<open>Facts about reported devices\<close>

lemma fold_addNetworkDevice:
  "fold addNetworkDevice ds c = c\<lparr>network_info := fold add_network ds (network_info c)\<rparr>"
  by (induction ds arbitrary: c) (simp_all add: addNetworkDevice_def)

lemma fold_addStorageDevice:
  "fold addStorageDevice ds c = c\<lparr>storage_info := fold add_storage ds (storage_info c)\<rparr>"
  by (induction ds arbitrary: c) (simp_all add: addStorageDevice_def)

lemma setSysInfo_simps [simp]:
  "computer_id (setSysInfo s c) = computer_id c"
  "storage_info (setSysInfo s c) = fold add_storage (sys_storage_info s) (storage_info c)"
  "network_info (setSysInfo s c) = fold add_network (sys_network_info s) (network_info c)"
  "usage_info (setSysInfo s c) = usage_info c"
  "sys_info (setSysInfo s c) = s\<lparr>sys_network_info := [], sys_storage_info := []\<rparr>"
  "sys_info_dirty (setSysInfo s c) = isSysInfoDirty (sys_info c) s"
  by (simp_all add: setSysInfo_def Let_def fold_addNetworkDevice fold_addStorageDevice)

definition tables_ok :: "RmsComputer \<Rightarrow> bool" where
  "tables_ok c \<longleftrightarrow> distinct_keys dev_path (storage_info c) \<and>
     distinct_keys interface_name (network_info c) \<and>
     distinct_keys usage_key (usage_info c) \<and> (\<forall>u \<in> set (usage_info c). container_bounded u)"

lemma tables_ok_new [simp]: "tables_ok (new_computer i)"
  by (simp add: tables_ok_def new_computer_def distinct_keys_def)

lemma tables_ok_setSysInfo: "tables_ok c \<Longrightarrow> tables_ok (setSysInfo s c)"
  by (simp add: tables_ok_def storage_tab.distinct_keys_fold network_tab.distinct_keys_fold)

lemma tables_ok_addUsageInfo: "tables_ok c \<Longrightarrow> tables_ok (addUsageInfo t p i c)"
  using container_bounded_add_usage
  by (auto simp: tables_ok_def addUsageInfo_def usage_tab.distinct_keys_add)

lemma addUsageInfo_frame [simp]:
  "computer_id (addUsageInfo t p i c) = computer_id c"
  "sys_info (addUsageInfo t p i c) = sys_info c"
  "storage_info (addUsageInfo t p i c) = storage_info c"
  "network_info (addUsageInfo t p i c) = network_info c"
  by (simp_all add: addUsageInfo_def)

lemma refresh_storage_fields [simp]:
  "connected (StorageInfoToRmsStorageInfo r s)"
  "fs_type (StorageInfoToRmsStorageInfo r s) = si_fs_type s"
  "mount_point (StorageInfoToRmsStorageInfo r s) = si_mount_point s"
  "free (StorageInfoToRmsStorageInfo r s) = word_of_int (si_free s)"
  "total (StorageInfoToRmsStorageInfo r s) = word_of_int (si_total s)"
  "storage_info_id (StorageInfoToRmsStorageInfo r s) = storage_info_id r"
  by (simp_all add: StorageInfoToRmsStorageInfo_def)

lemma fresh_storage_fields [simp]:
  "connected (fresh_storage s)" "dirty (fresh_storage s)" "dev_path (fresh_storage s) = si_dev s"
  "fs_type (fresh_storage s) = si_fs_type s" "mount_point (fresh_storage s) = si_mount_point s"
  "free (fresh_storage s) = word_of_int (si_free s)" "total (fresh_storage s) = word_of_int (si_total s)"
  "storage_info_id (fresh_storage s) = - 1"
  by (simp_all add: fresh_storage_def new_storage_info_def)

lemma storage_ids_fresh:
  "d \<in> set (fold add_storage ds []) \<Longrightarrow> storage_info_id d = - 1"
proof -
  have fresh: "\<forall>d \<in> set es. storage_info_id d = - 1 \<Longrightarrow> \<forall>d \<in> set (fold add_storage ds es). storage_info_id d = - 1" for es
  proof (induction ds arbitrary: es)
    case (Cons x ds)
    have "\<forall>d \<in> set (add_storage x es). storage_info_id d = - 1"
      using Cons.prems storage_tab.add_mem [of _ x es] by fastforce
    with Cons.IH show ?case by simp
  qed simp
  show "d \<in> set (fold add_storage ds []) \<Longrightarrow> storage_info_id d = - 1"
    using fresh [of "[]"] by simp
qed

text \<open>What a storage entry says about a device the client reported.\<close>

definition reflects :: "RmsStorageInfo \<Rightarrow> StorageInfo \<Rightarrow> bool" where
  "reflects r s \<longleftrightarrow> dev_path r = si_dev s \<and> fs_type r = si_fs_type s \<and> mount_point r = si_mount_point s \<and>
     free r = word_of_int (si_free s) \<and> total r = word_of_int (si_total s) \<and> connected r"

lemma reflects_simps [simp]:
  "reflects (fresh_storage s) s" "reflects (StorageInfoToRmsStorageInfo r s) s"
  by (simp_all add: reflects_def)

lemma refresh_reflects: "reflects r s \<Longrightarrow> dirty (StorageInfoToRmsStorageInfo r s) = False"
  by (simp add: reflects_def StorageInfoToRmsStorageInfo_def)

lemma reported_device:
  assumes "distinct (map si_dev (sys_storage_info s))" "d \<in> set (sys_storage_info s)"
  shows "\<exists>r. table_map dev_path (storage_info (setSysInfo s c)) (si_dev d) = Some r \<and> reflects r d \<and>
        (case table_map dev_path (storage_info c) (si_dev d) of
           None \<Rightarrow> storage_info_id r = - 1 \<and> dirty r
         | Some r0 \<Rightarrow> storage_info_id r = storage_info_id r0 \<and> dirty r = (\<not> reflects (r0\<lparr>connected := True\<rparr>) d))"
  using storage_tab.fold_lookup [OF assms, of "storage_info c"]
  by (auto split: option.splits simp: StorageInfoToRmsStorageInfo_def reflects_def)

text \<open>
  C16. Setting the system information keeps the device tables free of duplicates, and when
  the client reports each device once, the entry of every reported device reflects the
  report (connected, same capacity, file system and mount point), an entry that existed
  keeps its database id, and devices that were not reported are untouched.
\<close>

theorem setSysInfo_devices:
  assumes "tables_ok c" "distinct (map si_dev (sys_storage_info s))"
  shows "tables_ok (setSysInfo s c) \<and>
    (\<forall>d \<in> set (sys_storage_info s). \<exists>r. table_map dev_path (storage_info (setSysInfo s c)) (si_dev d) = Some r \<and>
        reflects r d \<and>
        (case table_map dev_path (storage_info c) (si_dev d) of
           None \<Rightarrow> storage_info_id r = - 1 \<and> dirty r
         | Some r0 \<Rightarrow> storage_info_id r = storage_info_id r0 \<and> dirty r = (\<not> reflects (r0\<lparr>connected := True\<rparr>) d))) \<and>
    (\<forall>k. k \<notin> si_dev ` set (sys_storage_info s) \<longrightarrow>
        table_map dev_path (storage_info (setSysInfo s c)) k = table_map dev_path (storage_info c) k)"
  by (simp add: tables_ok_setSysInfo assms(1) storage_tab.fold_others)
    (use reported_device [OF assms(2), of _ c] in simp)

text \<open>Sample data for the witnesses.\<close>

definition sample_disk :: StorageInfo where
  "sample_disk = \<lparr>si_dev = ''/dev/sda'', si_fs_type = ''ext4'', si_free = 20, si_total = 100, si_mount_point = ''/''\<rparr>"

definition sample_info :: SystemInfo where
  "sample_info = default_system_info\<lparr>system_name := ''Linux'', host_name := ''box'',
     client_version := \<lparr>vd_release = 3, vd_major = 1, vd_minor = 2\<rparr>, sys_storage_info := [sample_disk]\<rparr>"

theorem setSysInfo_devices_witness:
  "\<exists>r. table_map dev_path (storage_info (setSysInfo sample_info (new_computer 5))) ''/dev/sda'' = Some r \<and>
     reflects r sample_disk \<and> storage_info_id r = - 1 \<and> dirty r"
  using setSysInfo_devices [of "new_computer 5" sample_info]
  by (simp add: sample_info_def sample_disk_def new_computer_def)

text \<open>
  A report that repeats the previous one clears every dirty flag it covers, whether or
  not the previous values reached the database: after an update of the database that
  failed, the next identical report makes the object clean, and the update is not retried.
\<close>

theorem setSysInfo_twice_clean:
  assumes "tables_ok c" "distinct (map si_dev (sys_storage_info s))"
  shows "\<not> sys_info_dirty (setSysInfo s (setSysInfo s c)) \<and>
    (\<forall>d \<in> set (sys_storage_info s). \<exists>r.
       table_map dev_path (storage_info (setSysInfo s (setSysInfo s c))) (si_dev d) = Some r \<and>
       reflects r d \<and> \<not> dirty r)"
proof (intro conjI ballI)
  show "\<not> sys_info_dirty (setSysInfo s (setSysInfo s c))"
    by (simp add: isSysInfoDirty_def)
  fix d assume d: "d \<in> set (sys_storage_info s)"
  define once where "once = storage_info (setSysInfo s c)"
  obtain r where r: "table_map dev_path once (si_dev d) = Some r" "reflects r d"
    using reported_device [OF assms(2) d, of c] unfolding once_def by blast
  have "table_map dev_path (fold add_storage (sys_storage_info s) once) (si_dev d) =
      Some (StorageInfoToRmsStorageInfo r d)"
    using storage_tab.fold_lookup [OF assms(2) d, of once] r(1) by simp
  then show "\<exists>r. table_map dev_path (storage_info (setSysInfo s (setSysInfo s c))) (si_dev d) = Some r \<and>
      reflects r d \<and> \<not> dirty r"
    using refresh_reflects [OF r(2)] by (simp add: once_def)
qed

theorem setSysInfo_twice_clean_witness:
  "\<not> sys_info_dirty (setSysInfo sample_info (setSysInfo sample_info (new_computer 5)))"
  using setSysInfo_twice_clean [of "new_computer 5" sample_info]
  by (simp add: sample_info_def sample_disk_def)

section \<open>Facts about the database operations\<close>

definition all_succeed :: "'w env \<Rightarrow> bool" where
  "all_succeed env \<longleftrightarrow> (\<forall>q ret w. \<exists>r w'. execute_query env q ret w = (Inr r, w') \<and> success r)"

lemma all_succeedE:
  assumes "all_succeed env"
  obtains r w' where "execute_query env q ret w = (Inr r, w')" "success r"
  using assms unfolding all_succeed_def by blast

lemma update_storage_succeeds:
  assumes "all_succeed env"
  shows "\<exists>w'. update_storage (traced env) True devs (w, l) =
      (Inr True, map (\<lambda>d. d\<lparr>dirty := False\<rparr>) devs,
       (w', l @ map (update_storage_query env) (filter dirty devs)))"
proof (induction devs arbitrary: w l)
  case (Cons d devs)
  have q: "update_storage_query (traced env) = update_storage_query env"
    by (simp add: update_storage_query_def fun_eq_iff)
  show ?case
  proof (cases "dirty d")
    case True
    obtain r w1 where e: "execute_query env (update_storage_query env d) False w = (Inr r, w1)" "success r"
      using assms by (rule all_succeedE)
    from Cons.IH [of w1 "l @ [update_storage_query env d]"] e True q show ?thesis
      by (auto simp: keep_upd_def run_query_def)
  next
    case False
    then have "d\<lparr>dirty := False\<rparr> = d" by (cases d) simp
    with False Cons.IH [of w l] show ?thesis by (auto simp: keep_upd_def)
  qed
qed simp

definition updateDB_statements :: "'w env \<Rightarrow> RmsComputer \<Rightarrow> string list" where
  "updateDB_statements env c =
     (if sys_info_dirty c then [update_computer_query env (sys_info c) (computer_id c)] else []) @
     map (update_storage_query env) (filter dirty (storage_info c))"

lemma updateDB_trace:
  assumes "all_succeed env" "computer_id c \<noteq> - 1"
  shows "\<exists>w'. updateDB (traced env) c (w, l) =
      (Inr True, c\<lparr>sys_info_dirty := False, storage_info := map (\<lambda>d. d\<lparr>dirty := False\<rparr>) (storage_info c)\<rparr>,
       (w', l @ updateDB_statements env c))"
proof (cases "sys_info_dirty c")
  case True
  have q: "update_computer_query (traced env) = update_computer_query env"
    by (simp add: update_computer_query_def fun_eq_iff)
  obtain r w1 where e: "execute_query env (update_computer_query env (sys_info c) (computer_id c)) False w = (Inr r, w1)"
      "success r"
    using assms(1) by (rule all_succeedE)
  obtain w2 where "update_storage (traced env) True (storage_info c) (w1, l @ [update_computer_query env (sys_info c) (computer_id c)]) =
      (Inr True, map (\<lambda>d. d\<lparr>dirty := False\<rparr>) (storage_info c),
       (w2, (l @ [update_computer_query env (sys_info c) (computer_id c)]) @
            map (update_storage_query env) (filter dirty (storage_info c))))"
    using update_storage_succeeds [OF assms(1)] by blast
  with True assms(2) e q show ?thesis
    by (simp add: updateDB_def update_devices_def updateDB_statements_def run_query_def)
next
  case False
  then have "c\<lparr>sys_info_dirty := False\<rparr> = c" by (cases c) simp
  moreover obtain w2 where "update_storage (traced env) True (storage_info c) (w, l) =
      (Inr True, map (\<lambda>d. d\<lparr>dirty := False\<rparr>) (storage_info c),
       (w2, l @ map (update_storage_query env) (filter dirty (storage_info c))))"
    using update_storage_succeeds [OF assms(1)] by blast
  ultimately show ?thesis using False assms(2)
    by (cases c) (simp add: updateDB_def update_devices_def updateDB_statements_def)
qed

text \<open>
  C17. When every query succeeds, \<open>updateDB\<close> on a provisioned computer issues exactly one
  UPDATE for the computer if its information is dirty and one for every dirty device, in
  this order, returns true, and leaves nothing dirty and everything else unchanged. In
  particular a clean computer issues no statement.
\<close>

theorem updateDB_cleans:
  assumes "all_succeed env" "computer_id c \<noteq> - 1"
  shows "\<exists>w'. updateDB (traced env) c (w, l) =
      (Inr True, c\<lparr>sys_info_dirty := False, storage_info := map (\<lambda>d. d\<lparr>dirty := False\<rparr>) (storage_info c)\<rparr>,
       (w', l @ updateDB_statements env c))"
  using assms by (rule updateDB_trace)

definition sample_result :: RmsQueryResult where
  "sample_result = \<lparr>success = True, last_id = Some 7, column_names = [], table_rows = []\<rparr>"

definition sample_env :: "nat env" where
  "sample_env = \<lparr>fmt_format = (\<lambda>t args. t), arch_to_string = (\<lambda>_. ''kX86_64''),
     execute_query = (\<lambda>q ret n. (Inr sample_result, Suc n)),
     time_now = (\<lambda>n. (0, n)),
     local_time = (\<lambda>_. \<lparr>tm_year = 122, tm_mon = 0, tm_mday = 1, tm_hour = 5\<rparr>),
     steady_now = (\<lambda>n. (0, n))\<rparr>"

lemma sample_env_succeeds: "all_succeed sample_env"
  by (simp add: all_succeed_def sample_env_def sample_result_def)

theorem updateDB_cleans_witness:
  "\<exists>w'. updateDB (traced sample_env) (new_computer 5) (0, []) = (Inr True, new_computer 5, (w', []))"
  using updateDB_cleans [OF sample_env_succeeds, of "new_computer 5" 0 "[]"]
  by (simp add: new_computer_def updateDB_statements_def in_i32_def)

text \<open>
  The INSERT of a new computer does not depend on the minor number of the client
  version: the statement is built from the major number twice, so two clients that differ
  only in that number are stored identically.
\<close>

theorem insert_ignores_client_minor:
  "insert_computer_query env (s\<lparr>client_version := (client_version s)\<lparr>vd_minor := m\<rparr>\<rparr>) =
   insert_computer_query env s"
  by (simp add: insert_computer_query_def)

section \<open>Round trip of the computer row\<close>

text \<open>The text that the template \<open>RMS_DB_TYPE_FMT_VERSION\<close> stores for a version.\<close>

definition version_text :: "VersionData \<Rightarrow> string" where
  "version_text v = to_string (vd_major v) @ ''.'' @ to_string (vd_minor v) @ ''.'' @ to_string (vd_release v)"

definition version_in_range :: "VersionData \<Rightarrow> bool" where
  "version_in_range v \<longleftrightarrow> in_i32 (vd_major v) \<and> in_i32 (vd_minor v) \<and> in_i32 (vd_release v)"

lemma extract_int_to_string:
  assumes "in_i32 n" "stops_digits r" "\<not> eofbit st" "\<not> failbit st" "unread st = to_string n @ r"
  shows "extract_int st = (Some n, st\<lparr>unread := r, eofbit := (r = [])\<rparr>)"
proof -
  have "i32_clamp n = n" using assms(1) by (auto simp: i32_clamp_def in_i32_def)
  moreover have "sentry st = st" using assms(3-5) by (simp add: sentry_def Let_def)
  moreover have "failbit (st\<lparr>unread := r, eofbit := (r = []), failbit := False\<rparr>) = False" by simp
  ultimately show ?thesis
    using assms by (cases st) (simp add: extract_int_def int_field_to_string Let_def)
qed

lemma extract_char_char:
  assumes "\<not> is_space c" "\<not> eofbit st" "\<not> failbit st" "unread st = c # r"
  shows "extract_char st = (Some c, st\<lparr>unread := r\<rparr>)"
  using assms by (cases st) (simp add: extract_char_def sentry_def Let_def)

lemma parse_version_text:
  assumes "version_in_range v"
  shows "parse_version (version_text v) = Inr v"
proof -
  let ?a = "to_string (vd_major v)" and ?b = "to_string (vd_minor v)" and ?c = "to_string (vd_release v)"
  have dot: "\<not> is_digit (CHR ''.'')" "\<not> is_space (CHR ''.'')"
    by (simp_all add: is_digit_def is_space_def)
  have r: "in_i32 (vd_major v)" "in_i32 (vd_minor v)" "in_i32 (vd_release v)"
    using assms by (simp_all add: version_in_range_def)
  define st where "st t e = \<lparr>unread = t, eofbit = e, failbit = False\<rparr>" for t e
  have 1: "extract_int (open_stream (version_text v)) = (Some (vd_major v), st (''.'' @ ?b @ ''.'' @ ?c) False)"
    using extract_int_to_string [OF r(1), of "''.'' @ ?b @ ''.'' @ ?c" "open_stream (version_text v)"] dot
    by (simp add: st_def open_stream_def version_text_def)
  have 2: "extract_char (st (''.'' @ ?b @ ''.'' @ ?c) False) = (Some (CHR ''.''), st (?b @ ''.'' @ ?c) False)"
    using extract_char_char [OF dot(2), of "st (''.'' @ ?b @ ''.'' @ ?c) False" "?b @ ''.'' @ ?c"]
    by (simp add: st_def)
  have 3: "extract_int (st (?b @ ''.'' @ ?c) False) = (Some (vd_minor v), st (''.'' @ ?c) False)"
    using extract_int_to_string [OF r(2), of "''.'' @ ?c" "st (?b @ ''.'' @ ?c) False"] dot by (simp add: st_def)
  have 4: "extract_char (st (''.'' @ ?c) False) = (Some (CHR ''.''), st ?c False)"
    using extract_char_char [OF dot(2), of "st (''.'' @ ?c) False" ?c] by (simp add: st_def)
  have 5: "extract_int (st ?c False) = (Some (vd_release v), st [] True)"
    using extract_int_to_string [OF r(3), of "[]" "st ?c False"] by (simp add: st_def)
  show ?thesis using 1 2 3 4 5 by (simp add: parse_version_def)
qed

text \<open>The columns of \<open>computer_table\<close> and the row that holds \<open>s\<close> for computer \<open>cid\<close>.\<close>

definition computer_columns :: "string list" where
  "computer_columns =
     [''computer_id'', ''system_name'', ''host_name'', ''os_version'', ''client_version'', ''cpu_name'',
      ''cpu_vendor'', ''cpu_core_count'', ''cpu_cache_size'', ''cpu_arch'']"

definition computer_row :: "(Architecture \<Rightarrow> string) \<Rightarrow> int \<Rightarrow> SystemInfo \<Rightarrow> string list" where
  "computer_row show_arch cid s =
     [to_string cid, system_name s, host_name s, version_text (os_version s), version_text (client_version s),
      cpu_name (cpu_info s), cpu_vendor_name (cpu_info s), to_string (cpu_cores (cpu_info s)),
      to_string (cache_size (cpu_info s)), show_arch (arch (cpu_info s))]"

definition info_in_range :: "SystemInfo \<Rightarrow> bool" where
  "info_in_range s \<longleftrightarrow> version_in_range (os_version s) \<and> version_in_range (client_version s) \<and>
     in_i32 (cpu_cores (cpu_info s)) \<and> - (2 ^ 15) \<le> cache_size (cpu_info s) \<and> cache_size (cpu_info s) < 2 ^ 15"

lemma load_columns_row:
  assumes "info_in_range s"
  shows "load_columns computer_columns (computer_row show_arch cid s) [0..<length computer_columns] si =
    (Inr (), si\<lparr>system_name := system_name s, host_name := host_name s, os_version := os_version s,
        client_version := client_version s,
        cpu_info := (cpu_info s)\<lparr>arch :=
          (if show_arch (arch (cpu_info s)) = ''kX86_64'' then kX86_64 else arch (cpu_info si))\<rparr>\<rparr>)"
proof -
  have idx: "[0..<length computer_columns] = [0, 1, 2, 3, 4, 5, 6, 7, 8, 9]"
    by (simp add: computer_columns_def upt_rec)
  have "in_i64 (cpu_cores (cpu_info s))" "in_i64 (cache_size (cpu_info s))"
    using assms by (auto simp: info_in_range_def in_i32_def in_i64_def)
  with assms show ?thesis
    unfolding idx
    by (cases "cpu_info s") (simp add: computer_columns_def computer_row_def load_column_def set_cpu_def
        info_in_range_def parse_version_text)
qed

text \<open>
  The row that the UPDATE of a computer stores loads back the compared fields of its
  system information: on an x86-64 machine a reconnecting client that reports the same
  information is not dirty; for every other architecture the column is not read back, and
  the information is dirty at every reconnect.
\<close>

theorem reload_row_dirty_iff:
  assumes "info_in_range s" "\<And>a. show_arch a = ''kX86_64'' \<longleftrightarrow> a = kX86_64"
  shows "\<exists>loaded. load_columns computer_columns (computer_row show_arch cid s) [0..<length computer_columns]
           (sys_info (new_computer cid)) = (Inr (), loaded) \<and>
         isSysInfoDirty loaded s = (arch (cpu_info s) \<noteq> kX86_64)"
  unfolding load_columns_row [OF assms(1)]
  by (cases "cpu_info s")
    (auto simp: isSysInfoDirty_def assms(2) new_computer_def default_system_info_def default_cpu_info_def)

definition sample_show_arch :: "Architecture \<Rightarrow> string" where
  "sample_show_arch a = (case a of kX86_64 \<Rightarrow> ''kX86_64'' | kX86 \<Rightarrow> ''kX86'' | kArm \<Rightarrow> ''kArm''
     | kArm64 \<Rightarrow> ''kArm64'' | kUnknownArch \<Rightarrow> ''kUnknown'')"

lemma sample_show_arch: "sample_show_arch a = ''kX86_64'' \<longleftrightarrow> a = kX86_64"
  by (cases a) (simp_all add: sample_show_arch_def)

theorem reload_row_dirty_iff_witness:
  "\<exists>loaded. load_columns computer_columns (computer_row sample_show_arch 5 sample_info)
       [0..<length computer_columns] (sys_info (new_computer 5)) = (Inr (), loaded) \<and>
     \<not> isSysInfoDirty loaded sample_info"
  using reload_row_dirty_iff [of sample_info sample_show_arch 5] sample_show_arch
  by (simp add: info_in_range_def version_in_range_def sample_info_def default_system_info_def
      default_version_def default_cpu_info_def in_i32_def)

section \<open>Provisioning\<close>

definition inserts_succeed :: "'w env \<Rightarrow> bool" where
  "inserts_succeed env \<longleftrightarrow>
     (\<forall>q w. \<exists>r w' i. execute_query env q True w = (Inr r, w') \<and> success r \<and> last_id r = Some i)"

definition stored_with :: "RmsStorageInfo \<Rightarrow> int \<Rightarrow> RmsStorageInfo" where
  "stored_with d i = d\<lparr>storage_info_id := i, dirty := False\<rparr>"

lemma insert_storage_query_traced [simp]: "insert_storage_query (traced env) = insert_storage_query env"
  by (simp add: insert_storage_query_def fun_eq_iff)

lemma insert_computer_query_traced [simp]: "insert_computer_query (traced env) = insert_computer_query env"
  by (simp add: insert_computer_query_def fun_eq_iff)

lemma insert_storage_succeeds:
  assumes "inserts_succeed env"
  shows "\<exists>w' ids. length ids = length devs \<and>
    insert_storage (traced env) cid devs (w, l) =
      (Inr (), map2 stored_with devs ids, (w', l @ map (insert_storage_query env cid) devs))"
proof (induction devs arbitrary: w l)
  case (Cons d devs)
  obtain r w1 i where e: "execute_query env (insert_storage_query env cid d) True w = (Inr r, w1)"
      "success r" "last_id r = Some i"
    using assms unfolding inserts_succeed_def by blast
  obtain w2 ids where ih: "length ids = length devs"
      "insert_storage (traced env) cid devs (w1, l @ [insert_storage_query env cid d]) =
        (Inr (), map2 stored_with devs ids,
         (w2, (l @ [insert_storage_query env cid d]) @ map (insert_storage_query env cid) devs))"
    using Cons.IH [of w1 "l @ [insert_storage_query env cid d]"] by blast
  show ?case
    by (rule exI [of _ w2], rule exI [of _ "i # ids"])
      (use e ih in \<open>simp add: run_query_def keep_dev_def stored_with_def\<close>)
qed simp

lemma addToDB_trace:
  assumes "inserts_succeed env"
  shows "\<exists>i ids w'. length ids = length (storage_info c) \<and>
    addToDB (traced env) c (w, l) =
      (Inr True, c\<lparr>computer_id := i, storage_info := map2 stored_with (storage_info c) ids\<rparr>,
       (w', l @ insert_computer_query env (sys_info c) # map (insert_storage_query env i) (storage_info c)))"
proof -
  obtain r w1 i where e: "execute_query env (insert_computer_query env (sys_info c)) True w = (Inr r, w1)"
      "success r" "last_id r = Some i"
    using assms unfolding inserts_succeed_def by blast
  obtain w2 ids where "length ids = length (storage_info c)"
      "insert_storage (traced env) i (storage_info c) (w1, l @ [insert_computer_query env (sys_info c)]) =
        (Inr (), map2 stored_with (storage_info c) ids,
         (w2, (l @ [insert_computer_query env (sys_info c)]) @ map (insert_storage_query env i) (storage_info c)))"
    using insert_storage_succeeds [OF assms] by blast
  with e show ?thesis
    by (intro exI [of _ i] exI [of _ ids] exI [of _ w2]) (simp add: addToDB_def run_query_def)
qed

text \<open>
  When the inserts succeed, \<open>addToDB\<close> stores the computer with one INSERT and each of its
  devices with one INSERT under the new computer id, in order, and takes over the ids that
  the database returned. It does so whatever id the computer had before: the guard that
  the header comment promises for a provisioned computer does not exist.
\<close>

theorem addToDB_provisions:
  assumes "inserts_succeed env"
  shows "\<exists>i ids w'. length ids = length (storage_info c) \<and>
    addToDB (traced env) c (w, l) =
      (Inr True, c\<lparr>computer_id := i, storage_info := map2 stored_with (storage_info c) ids\<rparr>,
       (w', l @ insert_computer_query env (sys_info c) # map (insert_storage_query env i) (storage_info c)))"
  using assms by (rule addToDB_trace)

lemma sample_env_inserts: "inserts_succeed sample_env"
  by (simp add: inserts_succeed_def sample_env_def sample_result_def)

theorem addToDB_provisions_witness:
  "\<exists>i w'. fst (addToDB (traced sample_env) (new_computer 5) (0, [])) = Inr True \<and>
     addToDB (traced sample_env) (new_computer 5) (0, []) =
       (Inr True, (new_computer 5)\<lparr>computer_id := i\<rparr>,
        (w', [insert_computer_query sample_env default_system_info]))"
  using addToDB_provisions [OF sample_env_inserts, of "new_computer 5" 0 "[]"]
  by (auto simp: new_computer_def)

text \<open>When the INSERT of the computer fails, nothing changes and no device is stored.\<close>

lemma addToDB_fails:
  assumes "execute_query env (insert_computer_query env (sys_info c)) True w = (Inr r, w')" "\<not> success r"
  shows "addToDB (traced env) c (w, l) = (Inr False, c, (w', l @ [insert_computer_query env (sys_info c)]))"
  using assms by (simp add: addToDB_def run_query_def)

text \<open>
  A device that appears on a computer which is already provisioned is never inserted:
  the report adds it with the database id \<open>- 1\<close>, every statement that \<open>updateDB\<close> issues is
  an UPDATE, the one for the new device addresses row \<open>- 1\<close>, and afterwards the device
  counts as clean, so no later call stores it either.
\<close>

theorem new_device_never_inserted:
  assumes "all_succeed env" "tables_ok c" "computer_id c \<noteq> - 1"
    and "distinct (map si_dev (sys_storage_info s))" "d \<in> set (sys_storage_info s)"
    and "table_map dev_path (storage_info c) (si_dev d) = None"
  shows "\<exists>c' w' stmts r. updateDB (traced env) (setSysInfo s c) (w, l) = (Inr True, c', (w', l @ stmts)) \<and>
    (\<forall>q \<in> set stmts. (\<exists>si cid. q = update_computer_query env si cid) \<or> (\<exists>dev. q = update_storage_query env dev)) \<and>
    r \<in> set (storage_info (setSysInfo s c)) \<and> reflects r d \<and> storage_info_id r = - 1 \<and>
    update_storage_query env r \<in> set stmts \<and> r\<lparr>dirty := False\<rparr> \<in> set (storage_info c')"
proof -
  let ?c = "setSysInfo s c"
  obtain w' where upd: "updateDB (traced env) ?c (w, l) =
      (Inr True, ?c\<lparr>sys_info_dirty := False, storage_info := map (\<lambda>d. d\<lparr>dirty := False\<rparr>) (storage_info ?c)\<rparr>,
       (w', l @ updateDB_statements env ?c))"
    using updateDB_trace [OF assms(1), of ?c w l] assms(3) by auto
  obtain r where r: "table_map dev_path (storage_info ?c) (si_dev d) = Some r" "reflects r d"
      "storage_info_id r = - 1" "dirty r"
    using reported_device [OF assms(4,5), of c] assms(6) by auto
  have mem: "r \<in> set (storage_info ?c)" using table_map_mem [OF r(1)] by simp
  then have "update_storage_query env r \<in> set (updateDB_statements env ?c)"
    using r(4) by (auto simp: updateDB_statements_def)
  moreover have "\<forall>q \<in> set (updateDB_statements env ?c).
      (\<exists>si cid. q = update_computer_query env si cid) \<or> (\<exists>dev. q = update_storage_query env dev)"
    by (auto simp: updateDB_statements_def)
  ultimately show ?thesis using upd mem r(2,3) by auto
qed

theorem new_device_never_inserted_witness:
  "\<exists>c' w' stmts. updateDB (traced sample_env) (setSysInfo sample_info (new_computer 5)) (0, []) =
      (Inr True, c', (w', stmts)) \<and> (\<exists>dev. update_storage_query sample_env dev \<in> set stmts)"
proof -
  have "computer_id (new_computer 5) \<noteq> - 1" by (simp add: new_computer_def in_i32_def)
  then show ?thesis
    using new_device_never_inserted [OF sample_env_succeeds tables_ok_new, of 5 sample_info sample_disk 0 "[]"]
    by (auto simp: sample_info_def new_computer_def)
qed

section \<open>Safety under the database contract\<close>

definition load_errors :: "cpp_error set" where
  "load_errors = {Invalid_Argument, Out_Of_Range, Indeterminate_Value}"

lemma stol_errors: "stol v = Inl e \<Longrightarrow> e \<in> load_errors"
  by (auto simp: stol_def load_errors_def split: option.splits if_splits)

lemma stoi_errors: "stoi v = Inl e \<Longrightarrow> e \<in> load_errors"
  by (auto simp: stoi_def load_errors_def split: option.splits if_splits)

lemma parse_version_errors: "parse_version v = Inl e \<Longrightarrow> e \<in> load_errors"
  by (auto simp: parse_version_def load_errors_def split: option.splits prod.splits)

lemma rbind_eq_Inl: "rbind m f = Inl e \<longleftrightarrow> m = Inl e \<or> (\<exists>x. m = Inr x \<and> f x = Inl e)"
  by (cases m) simp_all

lemma load_column_errors: "load_column name (Inr v) si = Inl e \<Longrightarrow> e \<in> load_errors"
  by (auto simp: load_column_def rbind_eq_Inl stol_errors parse_version_errors split: if_splits)

lemma load_storage_column_errors: "load_storage_column name (Inr v) info = Inl e \<Longrightarrow> e \<in> load_errors"
  by (auto simp: load_storage_column_def rbind_eq_Inl stoi_errors split: if_splits)

lemma load_columns_errors:
  "\<forall>i \<in> set is. i < length row \<Longrightarrow> fst (load_columns names row is si) = Inl e \<Longrightarrow> e \<in> load_errors"
  by (induction "is" arbitrary: si) (auto dest: load_column_errors split: sum.splits)

lemma load_storage_columns_errors:
  "\<forall>i \<in> set is. i < length row \<Longrightarrow> load_storage_columns names row is info = Inl e \<Longrightarrow> e \<in> load_errors"
  by (induction "is" arbitrary: info) (auto simp: rbind_eq_Inl dest: load_storage_column_errors)

lemma load_storage_row_errors:
  "length row = length names \<Longrightarrow> load_storage_columns names row [0..<length names] info = Inl e \<Longrightarrow>
     e \<in> load_errors"
  by (rule load_storage_columns_errors) auto

lemma load_columns_row_errors:
  "length row = length names \<Longrightarrow> load_columns names row [0..<length names] si = (Inl e, si') \<Longrightarrow>
     e \<in> load_errors"
  using load_columns_errors [of "[0..<length names]" row names si e] by simp

lemma load_storage_rows_errors:
  "\<forall>row \<in> set rows. length row = length names \<Longrightarrow> load_storage_rows names rows devs = (Inl e, devs') \<Longrightarrow>
     e \<in> load_errors"
  by (induction rows arbitrary: devs) (auto dest: load_storage_row_errors split: sum.splits)

context query_source
begin

lemma insert_storage_safe:
  "execute_query env = exec \<Longrightarrow> fst (insert_storage env cid devs w) = Inl e \<Longrightarrow> e = No_Return"
proof (induction devs arbitrary: w)
  case (Cons d devs)
  then show ?case
    using exec_error exec_insert_id
    by (fastforce simp: run_query_def keep_dev_def split: prod.splits sum.splits if_splits option.splits)
qed simp

lemma addToDB_safe:
  assumes "execute_query env = exec" "fst (addToDB env c w) = Inl e"
  shows "e = No_Return"
proof -
  obtain a w1 where e: "exec (insert_computer_query env (sys_info c)) True w = (a, w1)" by fastforce
  show ?thesis
  proof (cases a)
    case (Inl x)
    with assms e exec_error [of _ _ _ x w1] show ?thesis by (simp add: addToDB_def run_query_def)
  next
    case (Inr r)
    show ?thesis
    proof (cases "success r")
      case True
      with exec_insert_id e Inr obtain i where i: "last_id r = Some i" by blast
      obtain x devs w2 where ins: "insert_storage env i (storage_info c) w1 = (x, devs, w2)"
        by (cases "insert_storage env i (storage_info c) w1")
      from assms e Inr True i ins have "fst (insert_storage env i (storage_info c) w1) = Inl e"
        by (cases x) (simp_all add: addToDB_def run_query_def)
      with assms(1) show ?thesis by (rule insert_storage_safe)
    next
      case False
      with assms e Inr show ?thesis by (simp add: addToDB_def run_query_def)
    qed
  qed
qed

lemma load_storage_safe:
  assumes "execute_query env = exec" "fst (load_storage env c w) = Inl e"
  shows "e = No_Return \<or> e \<in> load_errors"
proof -
  obtain a w1 where e: "exec (fmt_query env RMS_DB_FETCH_STORAGE_BY_COMPUTER_ID [FInt (computer_id c)]) False w = (a, w1)"
    by fastforce
  show ?thesis
  proof (cases a)
    case (Inl x)
    with assms e exec_error [of _ _ _ x w1] show ?thesis by (simp add: load_storage_def run_query_def)
  next
    case (Inr r)
    with e have "rectangular r" using exec_rectangular by blast
    then have rows: "\<forall>row \<in> set (table_rows r). length row = length (column_names r)"
      by (simp add: rectangular_def)
    obtain x devs where l: "load_storage_rows (column_names r) (table_rows r) (storage_info c) = (x, devs)"
      by fastforce
    show ?thesis
      using assms e Inr l load_storage_rows_errors [OF rows]
      by (cases x) (auto simp: load_storage_def run_query_def split: if_splits)
  qed
qed

lemma getFromDB_row_safe:
  assumes "execute_query env = exec" "fst (getFromDB env c w) = Inl e" "computer_id c \<noteq> - 1"
    and "exec (fmt_query env RMS_DB_FETCH_COMPUTER_BY_ID [FInt (computer_id c)]) False w = (Inr r, w1)"
    and "success r" "length (table_rows r) = 1"
  shows "e = No_Return \<or> e \<in> load_errors"
proof -
  have "rectangular r" using assms(4) exec_rectangular by blast
  with assms(5,6) have "length (table_rows r ! 0) = length (column_names r)" by (auto simp: rectangular_def)
  note cols = load_columns_row_errors [OF this]
  obtain x si where l: "load_columns (column_names r) (table_rows r ! 0) [0..<length (column_names r)] (sys_info c) = (x, si)"
    by fastforce
  have step: "getFromDB env c w = (case x of Inl e \<Rightarrow> (Inl e, c\<lparr>sys_info := si\<rparr>, w1)
      | Inr _ \<Rightarrow> load_storage env (c\<lparr>sys_info := si\<rparr>) w1)"
    using assms(1,3-6) l by (simp add: getFromDB_def run_query_def Let_def)
  show ?thesis
  proof (cases x)
    case (Inl e')
    with step assms(2) l cols show ?thesis by simp
  next
    case (Inr u)
    with step assms(2) have "fst (load_storage env (c\<lparr>sys_info := si\<rparr>) w1) = Inl e" by simp
    with assms(1) show ?thesis by (rule load_storage_safe)
  qed
qed

lemma getFromDB_safe:
  assumes "execute_query env = exec" "fst (getFromDB env c w) = Inl e"
  shows "e = No_Return \<or> e \<in> load_errors"
proof (cases "computer_id c = - 1")
  case False
  obtain a w1 where e: "exec (fmt_query env RMS_DB_FETCH_COMPUTER_BY_ID [FInt (computer_id c)]) False w = (a, w1)"
    by fastforce
  show ?thesis
  proof (cases a)
    case (Inl x)
    with assms e False exec_error [of _ _ _ x w1] show ?thesis by (simp add: getFromDB_def run_query_def)
  next
    case (Inr r)
    show ?thesis
    proof (cases "success r \<and> length (table_rows r) = 1")
      case True
      with assms e Inr False show ?thesis by (intro getFromDB_row_safe [of env c w e r w1]) simp_all
    next
      case n: False
      show ?thesis
      proof (cases "success r")
        case True
        with n False e Inr assms have "fst (addToDB env c w1) = Inl e"
          by (auto simp: getFromDB_def run_query_def)
        with assms(1) show ?thesis using addToDB_safe by blast
      next
        case False
        with n \<open>computer_id c \<noteq> - 1\<close> e Inr assms show ?thesis
          by (simp add: getFromDB_def run_query_def)
      qed
    qed
  qed
qed (use assms in \<open>simp add: getFromDB_def\<close>)

lemma push_usages_safe:
  "execute_query env = exec \<Longrightarrow> fst (push_usages env d tick us w) = Inl e \<Longrightarrow> e = No_Return"
proof (induction us arbitrary: w)
  case (Cons u us)
  have ens: "e' = No_Return" if ens: "ensure_usage_row env d tick u w = (Inl e', w')" for e' w'
  proof -
    obtain a w1 where x: "exec (usage_exists_query env d u) False w = (a, w1)" by fastforce
    show ?thesis
    proof (cases a)
      case (Inl x')
      with x ens Cons.prems(1) exec_error [of _ _ _ x' w1] show ?thesis
        by (auto simp: ensure_usage_row_def split: if_splits)
    next
      case (Inr r)
      have "\<exists>z. count_is_zero r = Inr z"
        using x Inr exec_rectangular [of "usage_exists_query env d u" False w r w1]
          exec_columns [of "usage_exists_query env d u" False w r w1]
        by (cases "table_rows r") (auto simp: count_is_zero_def rectangular_def vec_at_def)
      then obtain z where z: "count_is_zero r = Inr z" ..
      obtain b w2 where y: "exec (usage_insert_query env d u) False w1 = (b, w2)" by fastforce
      show ?thesis
        using x Inr ens Cons.prems(1) z y exec_error [of _ _ _ e' w2]
        by (auto simp: ensure_usage_row_def split: if_splits sum.splits)
    qed
  qed
  obtain a w1 where e1: "ensure_usage_row env d tick u w = (a, w1)" by fastforce
  show ?case
  proof (cases a)
    case (Inl x)
    with ens [of x w1] e1 Cons.prems show ?thesis by (simp add: push_usage_def)
  next
    case (Inr y)
    obtain b w2 where e2: "exec (usage_update_query env d tick u) False w1 = (b, w2)" by fastforce
    show ?thesis
      using e1 Inr e2 Cons.prems Cons.IH [of w2] exec_error [of _ _ _ e w2]
      by (cases b) (auto simp: push_usage_def)
  qed
qed simp

lemma pushUsageToDB_safe:
  assumes "execute_query env = exec" "fst (pushUsageToDB env tick c w) = Inl e"
  shows "e = No_Return"
proof -
  obtain t w1 where t: "time_now env w = (t, w1)" by fastforce
  obtain x w2 where p: "push_usages env (local_time env t) tick (usage_info c) w1 = (x, w2)" by fastforce
  with assms(2) t have "x = Inl e" by (cases x) (simp_all add: pushUsageToDB_def)
  with p push_usages_safe [OF assms(1), of "local_time env t" tick "usage_info c" w1 e] show ?thesis by simp
qed

end

section \<open>The statements of a usage push\<close>

text \<open>Queries succeed, and every existence query finds no row (\<open>z\<close>) or one (not \<open>z\<close>).\<close>

definition counts_as :: "'w env \<Rightarrow> bool \<Rightarrow> bool" where
  "counts_as env z \<longleftrightarrow>
     (\<forall>q w. \<exists>r w'. execute_query env q False w = (Inr r, w') \<and> count_is_zero r = Inr z)"

definition usage_statements :: "'w env \<Rightarrow> tm \<Rightarrow> int \<Rightarrow> bool \<Rightarrow> UsageContainer \<Rightarrow> string list" where
  "usage_statements env d tick z u =
     (if \<not> table_exist u \<or> tick = 0
      then usage_exists_query env d u # (if z then [usage_insert_query env d u] else []) else []) @
     [usage_update_query env d tick u]"

lemma usage_queries_traced [simp]:
  "usage_exists_query (traced env) = usage_exists_query env"
  "usage_insert_query (traced env) = usage_insert_query env"
  "usage_update_query (traced env) = usage_update_query env"
  by (simp_all add: usage_exists_query_def usage_insert_query_def usage_update_query_def fun_eq_iff)

lemma counts_asE:
  assumes "counts_as env z"
  obtains r w' where "execute_query env q False w = (Inr r, w')" "count_is_zero r = Inr z"
  using assms unfolding counts_as_def by blast

lemma push_usage_trace:
  assumes "counts_as env z"
  shows "\<exists>w'. push_usage (traced env) d tick u (w, l) = (Inr (), w', l @ usage_statements env d tick z u)"
proof -
  obtain r1 w1 where e1: "execute_query env (usage_exists_query env d u) False w = (Inr r1, w1)" "count_is_zero r1 = Inr z"
    using assms by (rule counts_asE)
  obtain r2 w2 where e2: "execute_query env (usage_insert_query env d u) False w1 = (Inr r2, w2)"
    using assms by (rule counts_asE)
  obtain r3 w3 where e3: "execute_query env (usage_update_query env d tick u) False w = (Inr r3, w3)"
    using assms by (rule counts_asE)
  obtain r4 w4 where e4: "execute_query env (usage_update_query env d tick u) False w1 = (Inr r4, w4)"
    using assms by (rule counts_asE)
  obtain r5 w5 where e5: "execute_query env (usage_update_query env d tick u) False w2 = (Inr r5, w5)"
    using assms by (rule counts_asE)
  show ?thesis
    using e1 e2 e3 e4 e5 by (cases z) (simp_all add: push_usage_def ensure_usage_row_def usage_statements_def)
qed

lemma push_usages_trace:
  assumes "counts_as env z"
  shows "\<exists>w'. push_usages (traced env) d tick us (w, l) =
    (Inr (), w', l @ concat (map (usage_statements env d tick z) us))"
proof (induction us arbitrary: w l)
  case (Cons u us)
  obtain w1 where p: "push_usage (traced env) d tick u (w, l) = (Inr (), w1, l @ usage_statements env d tick z u)"
    using push_usage_trace [OF assms] by blast
  obtain w2 where "push_usages (traced env) d tick us (w1, l @ usage_statements env d tick z u) =
      (Inr (), w2, (l @ usage_statements env d tick z u) @ concat (map (usage_statements env d tick z) us))"
    using Cons.IH by blast
  with p show ?case by simp
qed simp


lemma sample_env_counts: "counts_as sample_env True"
  by (simp add: counts_as_def sample_env_def sample_result_def count_is_zero_def)


end
