(* ===== verification/Rms_Sqlite.thy ===== *)
theory Rms_Sqlite
  imports Rms_Computer
begin

text \<open>
  \<open>RmsSqliteDatabase\<close> (\<open>server/src/database/rms_sqlite_database.cpp\<close>): the implementation of
  \<open>executeQuery\<close> over the C interface of SQLite, which is a record of functions here. A
  statement handle is a value that \<open>step\<close> advances. The row loop may run for as long as the
  library returns rows, so it is a partial function; a call that never returns is the outcome
  \<open>No_Return\<close>. The implementation interprets the database contract for every such library.
\<close>

definition SQLITE_OK :: int where
  "SQLITE_OK = 0"

definition SQLITE_ROW :: int where
  "SQLITE_ROW = 100"

record ('w, 'stmt) sqlite_api =
  sqlite3_open :: "string \<Rightarrow> 'w \<Rightarrow> int \<times> 'w"
  sqlite3_close :: "'w \<Rightarrow> 'w"
  sqlite3_prepare_v2 :: "string \<Rightarrow> 'w \<Rightarrow> int \<times> 'stmt \<times> 'w"
  sqlite3_column_count :: "'stmt \<Rightarrow> nat"
  sqlite3_column_name :: "'stmt \<Rightarrow> nat \<Rightarrow> string"
  sqlite3_step :: "'stmt \<Rightarrow> 'w \<Rightarrow> int \<times> 'stmt \<times> 'w"
  sqlite3_column_text :: "'stmt \<Rightarrow> nat \<Rightarrow> string option"
  sqlite3_last_insert_rowid :: "'w \<Rightarrow> int"
  sqlite3_finalize :: "'stmt \<Rightarrow> 'w \<Rightarrow> 'w"

section \<open>Executing a query\<close>

definition row_of :: "('w, 'stmt) sqlite_api \<Rightarrow> nat \<Rightarrow> 'stmt \<Rightarrow> string list" where
  "row_of api column_count st =
     map (\<lambda>i. case sqlite3_column_text api st i of None \<Rightarrow> [] | Some text \<Rightarrow> text) [0..<column_count]"

partial_function (option) fetch_rows ::
  "('w, 'stmt) sqlite_api \<Rightarrow> nat \<Rightarrow> int \<Rightarrow> 'stmt \<Rightarrow> 'w \<Rightarrow> string list list \<Rightarrow> (string list list \<times> 'stmt \<times> 'w) option"
where
  "fetch_rows api n rc st w rows =
     (if rc = SQLITE_ROW then
        (case sqlite3_step api st w of
           (rc', st', w') \<Rightarrow> fetch_rows api n rc' st' w' (rows @ [row_of api n st]))
      else Some (rows, st, w))"

definition insert_id :: "('w, 'stmt) sqlite_api \<Rightarrow> bool \<Rightarrow> 'w \<Rightarrow> int option" where
  "insert_id api return_insert_id w =
     (if return_insert_id then Some (to_i32 (sqlite3_last_insert_rowid api w)) else None)"

definition executeQuery :: "('w, 'stmt) sqlite_api \<Rightarrow> string \<Rightarrow> bool \<Rightarrow> 'w \<Rightarrow> RmsQueryResult res \<times> 'w" where
  "executeQuery api query return_insert_id w =
     (let (rc, st, w1) = sqlite3_prepare_v2 api query w
      in if rc \<noteq> SQLITE_OK then
           (Inr \<lparr>success = False, last_id = None, column_names = [], table_rows = []\<rparr>, w1)
         else
           (let n = sqlite3_column_count api st; (rc1, st1, w2) = sqlite3_step api st w1
            in if n = 0 then
                 (Inr \<lparr>success = True, last_id = insert_id api return_insert_id w2,
                       column_names = [], table_rows = []\<rparr>,
                  sqlite3_finalize api st1 w2)
               else
                 (case fetch_rows api n rc1 st1 w2 [] of
                    None \<Rightarrow> (Inl No_Return, w2)
                  | Some (rows, st2, w3) \<Rightarrow>
                      (Inr \<lparr>success = True, last_id = insert_id api return_insert_id w3,
                            column_names = map (sqlite3_column_name api st) [0..<n], table_rows = rows\<rparr>,
                       sqlite3_finalize api st2 w3))))"

section \<open>What the row loop computes\<close>

text \<open>The rows a cursor yields, as a relation: the specification of the loop.\<close>

inductive cursor_rows ::
  "('w, 'stmt) sqlite_api \<Rightarrow> nat \<Rightarrow> int \<Rightarrow> 'stmt \<Rightarrow> 'w \<Rightarrow> string list list \<Rightarrow> 'stmt \<Rightarrow> 'w \<Rightarrow> bool"
  for api n
where
  cursor_end: "rc \<noteq> SQLITE_ROW \<Longrightarrow> cursor_rows api n rc st w [] st w"
| cursor_row: "sqlite3_step api st w = (rc', st', w') \<Longrightarrow> cursor_rows api n rc' st' w' rows st'' w'' \<Longrightarrow>
    cursor_rows api n SQLITE_ROW st w (row_of api n st # rows) st'' w''"

inductive_simps cursor_rows_row: "cursor_rows api n SQLITE_ROW st w rows st' w'"
inductive_cases cursor_rows_NilE: "cursor_rows api n rc st w [] st' w'"

lemma fetch_rows_complete:
  "cursor_rows api n rc st w rows st' w' \<Longrightarrow> fetch_rows api n rc st w acc = Some (acc @ rows, st', w')"
  by (induction arbitrary: acc rule: cursor_rows.induct) (simp_all add: fetch_rows.simps)

lemma fetch_rows_sound:
  assumes "fetch_rows api n rc st w acc = Some res"
  shows "\<exists>rows st' w'. res = (acc @ rows, st', w') \<and> cursor_rows api n rc st w rows st' w'"
proof (rule fetch_rows.raw_induct [where P = "\<lambda>api n rc st w acc res.
    \<exists>rows st' w'. res = (acc @ rows, st', w') \<and> cursor_rows api n rc st w rows st' w'", OF _ assms])
  fix f api n rc st w acc res
  assume IH: "\<And>api n rc st w acc res. f api n rc st w acc = Some res \<Longrightarrow>
      \<exists>rows st' w'. res = (acc @ rows, st', w') \<and> cursor_rows api n rc st w rows st' w'"
    and eq: "(if rc = SQLITE_ROW then case sqlite3_step api st w of
        (rc', st', w') \<Rightarrow> f api n rc' st' w' (acc @ [row_of api n st]) else Some (acc, st, w)) = Some res"
  show "\<exists>rows st' w'. res = (acc @ rows, st', w') \<and> cursor_rows api n rc st w rows st' w'"
  proof (cases "rc = SQLITE_ROW")
    case True
    obtain rc' st1 w1 where s: "sqlite3_step api st w = (rc', st1, w1)" by (metis prod_cases3)
    with True eq have "f api n rc' st1 w1 (acc @ [row_of api n st]) = Some res" by simp
    from IH [OF this] obtain rows st' w' where
      "res = ((acc @ [row_of api n st]) @ rows, st', w')" "cursor_rows api n rc' st1 w1 rows st' w'" by blast
    with s True show ?thesis by (auto intro: cursor_row)
  next
    case False
    with eq show ?thesis by (auto intro: cursor_end)
  qed
qed

lemma cursor_rows_length:
  "cursor_rows api n rc st w rows st' w' \<Longrightarrow> row \<in> set rows \<Longrightarrow> length row = n"
  by (induction rule: cursor_rows.induct) (auto simp: row_of_def)

text \<open>A library whose cursors end: a measure that every further row decreases.\<close>

definition cursors_end :: "('w, 'stmt) sqlite_api \<Rightarrow> ('stmt \<Rightarrow> nat) \<Rightarrow> bool" where
  "cursors_end api m \<longleftrightarrow>
     (\<forall>st w st' w'. sqlite3_step api st w = (SQLITE_ROW, st', w') \<longrightarrow> m st' < m st)"

lemma cursor_rows_total:
  assumes "cursors_end api m"
  shows "\<exists>rows st' w'. cursor_rows api n rc st w rows st' w'"
proof (induction "m st" arbitrary: rc st w rule: less_induct)
  case less
  show ?case
  proof (cases "rc = SQLITE_ROW")
    case True
    obtain rc1 st1 w1 where s: "sqlite3_step api st w = (rc1, st1, w1)" by (metis prod_cases3)
    have "\<exists>rows st' w'. cursor_rows api n rc1 st1 w1 rows st' w'"
    proof (cases "rc1 = SQLITE_ROW")
      case True
      with s assms have "m st1 < m st" unfolding cursors_end_def by blast
      then show ?thesis by (rule less)
    qed (auto intro: cursor_end)
    with s True show ?thesis by (blast intro: cursor_row)
  qed (auto intro: cursor_end)
qed

section \<open>The contract\<close>

lemma executeQuery_cases:
  assumes "executeQuery api q ret w = (x, w')"
  obtains (prepare_failed) rc st where "sqlite3_prepare_v2 api q w = (rc, st, w')" "rc \<noteq> SQLITE_OK"
      "x = Inr \<lparr>success = False, last_id = None, column_names = [], table_rows = []\<rparr>"
    | (no_columns) st w1 rc1 st1 w2 where "sqlite3_prepare_v2 api q w = (SQLITE_OK, st, w1)"
      "sqlite3_column_count api st = 0" "sqlite3_step api st w1 = (rc1, st1, w2)"
      "x = Inr \<lparr>success = True, last_id = insert_id api ret w2, column_names = [], table_rows = []\<rparr>"
    | (rows) st w1 rc1 st1 w2 rows st2 w3 where "sqlite3_prepare_v2 api q w = (SQLITE_OK, st, w1)"
      "sqlite3_column_count api st > 0" "sqlite3_step api st w1 = (rc1, st1, w2)"
      "cursor_rows api (sqlite3_column_count api st) rc1 st1 w2 rows st2 w3"
      "x = Inr \<lparr>success = True, last_id = insert_id api ret w3,
            column_names = map (sqlite3_column_name api st) [0..<sqlite3_column_count api st], table_rows = rows\<rparr>"
    | (diverges) st w1 rc1 st1 where "sqlite3_prepare_v2 api q w = (SQLITE_OK, st, w1)"
      "sqlite3_step api st w1 = (rc1, st1, w')"
      "fetch_rows api (sqlite3_column_count api st) rc1 st1 w' [] = None" "x = Inl No_Return"
proof -
  obtain rc st w1 where p: "sqlite3_prepare_v2 api q w = (rc, st, w1)" by (metis prod_cases3)
  obtain rc1 st1 w2 where s: "sqlite3_step api st w1 = (rc1, st1, w2)" by (metis prod_cases3)
  show ?thesis
  proof (cases "rc = SQLITE_OK")
    case False
    with assms p prepare_failed show ?thesis by (simp add: executeQuery_def)
  next
    case ok: True
    show ?thesis
    proof (cases "sqlite3_column_count api st = 0")
      case True
      with assms p s ok no_columns show ?thesis by (simp add: executeQuery_def)
    next
      case False
      show ?thesis
      proof (cases "fetch_rows api (sqlite3_column_count api st) rc1 st1 w2 []")
        case None
        with assms p s ok False diverges show ?thesis by (simp add: executeQuery_def Let_def)
      next
        case (Some res)
        from fetch_rows_sound [OF Some] obtain rs st2 w3 where r: "res = (rs, st2, w3)"
          "cursor_rows api (sqlite3_column_count api st) rc1 st1 w2 rs st2 w3" by auto
        from assms p s ok False Some r(1) have "x = Inr \<lparr>success = True, last_id = insert_id api ret w3,
            column_names = map (sqlite3_column_name api st) [0..<sqlite3_column_count api st], table_rows = rs\<rparr>"
          by (simp add: executeQuery_def Let_def)
        with rows [of st w1 rc1 st1 w2 rs st2 w3] p s ok False r(2) show ?thesis by simp
      qed
    qed
  qed
qed

interpretation sqlite: query_source "executeQuery api" for api :: "('w, 'stmt) sqlite_api"
proof
  fix q ret w r and w' :: 'w
  assume e: "executeQuery api q ret w = (Inr r, w')"
  show "rectangular r"
    using e by (rule executeQuery_cases) (auto simp: rectangular_def dest: cursor_rows_length)
  show "\<not> success r \<Longrightarrow> table_rows r = []"
    using e by (rule executeQuery_cases) auto
  show "table_rows r \<noteq> [] \<Longrightarrow> column_names r \<noteq> []"
    using e by (rule executeQuery_cases) auto
next
  fix q ret w e and w' :: 'w
  assume "executeQuery api q ret w = (Inl e, w')"
  then show "e = No_Return" by (rule executeQuery_cases) auto
next
  fix q w r and w' :: 'w
  assume "executeQuery api q True w = (Inr r, w')"
  then show "success r \<Longrightarrow> last_id r \<noteq> None"
    by (rule executeQuery_cases) (auto simp: insert_id_def)
qed

section \<open>Opening the database\<close>

definition sqlite_env :: "('w, 'stmt) sqlite_api \<Rightarrow> 'w env \<Rightarrow> 'w env" where
  "sqlite_env api env = env\<lparr>execute_query := executeQuery api\<rparr>"

lemma sqlite_env_query [simp]: "execute_query (sqlite_env api env) = executeQuery api"
  by (simp add: sqlite_env_def)

text \<open>The constructor; \<open>file_exists\<close> is \<open>std::filesystem::exists\<close>.\<close>

definition RmsSqliteDatabase ::
  "('w, 'stmt) sqlite_api \<Rightarrow> 'w env \<Rightarrow> (string \<Rightarrow> 'w \<Rightarrow> bool) \<Rightarrow> string \<Rightarrow> 'w \<Rightarrow> unit res \<times> 'w"
where
  "RmsSqliteDatabase api env file_exists filename w =
     (let createTable = (\<not> file_exists filename w); (rc, w1) = sqlite3_open api (c_str filename) w
      in if rc \<noteq> SQLITE_OK then (Inl (Exit 1), sqlite3_close api w1)
         else if createTable then createTables (sqlite_env api env) w1 else (Inr (), w1))"

section \<open>Properties\<close>

text \<open>A small library for the witnesses: a statement is its current and its remaining rows.\<close>

definition sample_api :: "(nat, string list \<times> string list list) sqlite_api" where
  "sample_api = \<lparr>sqlite3_open = (\<lambda>_ w. (0, w)), sqlite3_close = (\<lambda>w. w),
     sqlite3_prepare_v2 = (\<lambda>q w. (0, ([], if q = ''SELECT'' then [[''5'', ''box''], [''6'', ''host'']] else []), w)),
     sqlite3_column_count = (\<lambda>st. if snd st = [] then 0 else 2),
     sqlite3_column_name = (\<lambda>st i. [''id'', ''name''] ! i),
     sqlite3_step = (\<lambda>st w. case snd st of [] \<Rightarrow> (19, ([], []), Suc w) | r # rs \<Rightarrow> (100, (r, rs), Suc w)),
     sqlite3_column_text = (\<lambda>st i. Some (fst st ! i)),
     sqlite3_last_insert_rowid = (\<lambda>w. 7),
     sqlite3_finalize = (\<lambda>st w. w)\<rparr>"

lemma sample_api_simps [simp]:
  "sqlite3_open sample_api f n = (0, n)"
  "sqlite3_prepare_v2 sample_api q n =
     (SQLITE_OK, ([], if q = ''SELECT'' then [[''5'', ''box''], [''6'', ''host'']] else []), n)"
  "sqlite3_column_count sample_api st = (if snd st = [] then 0 else 2)"
  "sqlite3_column_name sample_api st i = [''id'', ''name''] ! i"
  "sqlite3_step sample_api (r, []) n = (19, ([], []), Suc n)"
  "sqlite3_step sample_api (r, x # xs) n = (SQLITE_ROW, (x, xs), Suc n)"
  by (simp_all add: sample_api_def SQLITE_OK_def SQLITE_ROW_def)

lemma sample_api_ends: "cursors_end sample_api (\<lambda>st. length (snd st))"
  by (auto simp: cursors_end_def sample_api_def SQLITE_ROW_def split: list.splits)

text \<open>
  What a cursor holds, without the loop: its state after a number of calls of \<open>step\<close>, and the
  cells, \<open>None\<close> for SQL NULL, that it shows until it no longer answers with a row.
\<close>

definition cursor_at :: "('w, 'stmt) sqlite_api \<Rightarrow> nat \<Rightarrow> int \<times> 'stmt \<times> 'w \<Rightarrow> int \<times> 'stmt \<times> 'w" where
  "cursor_at api k = (\<lambda>(rc, st, w). sqlite3_step api st w) ^^ k"

definition cursor_data :: "('w, 'stmt) sqlite_api \<Rightarrow> nat \<Rightarrow> int \<times> 'stmt \<times> 'w \<Rightarrow> string option list list \<Rightarrow> bool" where
  "cursor_data api n c data \<longleftrightarrow>
     (\<forall>k < length data. fst (cursor_at api k c) = SQLITE_ROW \<and> length (data ! k) = n \<and>
        (\<forall>i < n. sqlite3_column_text api (fst (snd (cursor_at api k c))) i = data ! k ! i)) \<and>
     fst (cursor_at api (length data) c) \<noteq> SQLITE_ROW"

definition cell_text :: "string option \<Rightarrow> string" where
  "cell_text c = (if c = None then '''' else the c)"

lemma cursor_at_simps [simp]:
  "cursor_at api 0 c = c" "cursor_at api (Suc k) (rc, st, w) = cursor_at api k (sqlite3_step api st w)"
  by (simp_all add: cursor_at_def funpow_Suc_right del: funpow.simps(2))

lemma cursor_data_Nil: "cursor_data api n (rc, st, w) [] \<longleftrightarrow> rc \<noteq> SQLITE_ROW"
  by (simp add: cursor_data_def)

lemma cursor_data_Cons:
  "cursor_data api n (rc, st, w) (cells # data) \<longleftrightarrow>
     rc = SQLITE_ROW \<and> length cells = n \<and> (\<forall>i < n. sqlite3_column_text api st i = cells ! i) \<and>
     cursor_data api n (sqlite3_step api st w) data"
  unfolding cursor_data_def by (auto simp: less_Suc_eq_0_disj)

lemma row_of_cells:
  "length cells = n \<Longrightarrow> \<forall>i < n. sqlite3_column_text api st i = cells ! i \<Longrightarrow> row_of api n st = map cell_text cells"
  by (rule nth_equalityI) (simp_all add: row_of_def cell_text_def split: option.split)

lemma fetch_rows_data:
  "cursor_data api n (rc, st, w) data \<Longrightarrow>
     fetch_rows api n rc st w acc = Some (acc @ map (map cell_text) data, snd (cursor_at api (length data) (rc, st, w)))"
proof (induction data arbitrary: rc st w acc)
  case Nil
  then show ?case by (simp add: cursor_data_Nil fetch_rows.simps)
next
  case (Cons cells data)
  obtain rc1 st1 w1 where s: "sqlite3_step api st w = (rc1, st1, w1)" by (metis prod_cases3)
  with Cons.prems have c: "rc = SQLITE_ROW" "row_of api n st = map cell_text cells" "cursor_data api n (rc1, st1, w1) data"
    by (simp_all add: cursor_data_Cons row_of_cells)
  from Cons.IH [OF c(3)] c(1,2) s show ?case by (subst fetch_rows.simps) simp
qed

lemma cursor_data_total:
  assumes "cursors_end api m"
  shows "\<exists>data. cursor_data api n (rc, st, w) data"
proof (induction "m st" arbitrary: rc st w rule: less_induct)
  case less
  show ?case
  proof (cases "rc = SQLITE_ROW")
    case False
    then show ?thesis by (intro exI [of _ "[]"]) (simp add: cursor_data_Nil)
  next
    case True
    obtain rc1 st1 w1 where s: "sqlite3_step api st w = (rc1, st1, w1)" by (metis prod_cases3)
    have "\<exists>data. cursor_data api n (rc1, st1, w1) data"
    proof (cases "rc1 = SQLITE_ROW")
      case True
      with s assms have "m st1 < m st" unfolding cursors_end_def by blast
      then show ?thesis by (rule less)
    next
      case False
      then show ?thesis by (intro exI [of _ "[]"]) (simp add: cursor_data_Nil)
    qed
    then obtain data where "cursor_data api n (rc1, st1, w1) data" ..
    with True s have "cursor_data api n (rc, st, w) (map (sqlite3_column_text api st) [0..<n] # data)"
      by (simp add: cursor_data_Cons)
    then show ?thesis ..
  qed
qed

text \<open>
  C22. When the library's cursors end, a query whose statement prepares and has columns
  returns. Its cursor holds a table of cells, and for that table the result is
  successful, has the statement's column names in order and one row for each row of the
  table, in order, with the text of every cell and an empty string for every SQL NULL; the
  id is the last one the library gave, if it was asked for, and the statement is finalized
  after the last step.
\<close>

theorem executeQuery_rows:
  assumes "cursors_end api m" "sqlite3_prepare_v2 api q w = (SQLITE_OK, st, w1)"
    and "0 < sqlite3_column_count api st" "length names = sqlite3_column_count api st"
    and "\<forall>i < length names. sqlite3_column_name api st i = names ! i"
  shows "(\<exists>data. cursor_data api (length names) (sqlite3_step api st w1) data) \<and>
    (\<forall>data rc st2 w2. cursor_data api (length names) (sqlite3_step api st w1) data \<and>
        cursor_at api (length data) (sqlite3_step api st w1) = (rc, st2, w2) \<longrightarrow>
      executeQuery api q ret w =
        (Inr \<lparr>success = True, last_id = (if ret then Some (to_i32 (sqlite3_last_insert_rowid api w2)) else None),
              column_names = names, table_rows = map (map (\<lambda>cell. if cell = None then '''' else the cell)) data\<rparr>,
         sqlite3_finalize api st2 w2))"
proof -
  obtain rc1 st1 w2 where s: "sqlite3_step api st w1 = (rc1, st1, w2)" by (metis prod_cases3)
  have names: "map (sqlite3_column_name api st) [0..<sqlite3_column_count api st] = names"
    using assms(4,5) by (intro nth_equalityI) simp_all
  have "executeQuery api q ret w =
      (Inr \<lparr>success = True, last_id = (if ret then Some (to_i32 (sqlite3_last_insert_rowid api w3)) else None),
            column_names = names, table_rows = map (map (\<lambda>cell. if cell = None then '''' else the cell)) data\<rparr>,
       sqlite3_finalize api st2 w3)"
    if "cursor_data api (length names) (rc1, st1, w2) data" "cursor_at api (length data) (rc1, st1, w2) = (rc, st2, w3)"
    for data rc st2 w3
    using fetch_rows_data [OF that(1), of "[]"] that(2) assms(2-4) s names
    by (simp add: executeQuery_def insert_id_def cell_text_def [abs_def])
  with s cursor_data_total [OF assms(1)] show ?thesis by simp
qed

text \<open>A table with a NULL.\<close>

definition null_api :: "(nat, string option list \<times> string option list list) sqlite_api" where
  "null_api = \<lparr>sqlite3_open = (\<lambda>_ w. (0, w)), sqlite3_close = (\<lambda>w. w),
     sqlite3_prepare_v2 = (\<lambda>q w. (0, ([], [[Some ''5'', None], [Some ''6'', Some ''host'']]), w)),
     sqlite3_column_count = (\<lambda>_. 2), sqlite3_column_name = (\<lambda>st i. [''id'', ''name''] ! i),
     sqlite3_step = (\<lambda>st w. case snd st of [] \<Rightarrow> (101, ([], []), Suc w) | r # rs \<Rightarrow> (100, (r, rs), Suc w)),
     sqlite3_column_text = (\<lambda>st i. fst st ! i), sqlite3_last_insert_rowid = (\<lambda>w. 7),
     sqlite3_finalize = (\<lambda>st w. w)\<rparr>"

theorem executeQuery_rows_witness:
  "executeQuery null_api ''SELECT'' False 0 =
     (Inr \<lparr>success = True, last_id = None, column_names = [''id'', ''name''],
           table_rows = [[''5'', ''''], [''6'', ''host'']]\<rparr>, 3)"
proof -
  let ?st = "([], [[Some ''5'', None], [Some ''6'', Some ''host'']])"
  have ends: "cursors_end null_api (\<lambda>st. length (snd st))"
    by (auto simp: cursors_end_def null_api_def SQLITE_ROW_def split: list.splits)
  have prep: "sqlite3_prepare_v2 null_api ''SELECT'' 0 = (SQLITE_OK, ?st, 0)" by (simp add: null_api_def SQLITE_OK_def)
  have cols: "0 < sqlite3_column_count null_api ?st" "length [''id'', ''name''] = sqlite3_column_count null_api ?st"
    "\<forall>i < length [''id'', ''name'']. sqlite3_column_name null_api ?st i = [''id'', ''name''] ! i"
    by (simp_all add: null_api_def)
  have "cursor_data null_api (length [''id'', ''name'']) (sqlite3_step null_api ?st 0) [[Some ''5'', None], [Some ''6'', Some ''host'']]"
    by (simp add: null_api_def cursor_data_Cons cursor_data_Nil SQLITE_ROW_def less_Suc_eq)
  moreover have "cursor_at null_api 2 (sqlite3_step null_api ?st 0) = (101, ([], []), 3)"
    by (simp add: null_api_def numeral_2_eq_2)
  ultimately show ?thesis
    using executeQuery_rows [OF ends prep cols, THEN conjunct2, rule_format, of "[[Some ''5'', None], [Some ''6'', Some ''host'']]" 101 "([], [])" 3 False]
    by (simp add: null_api_def)
qed

lemma executeQuery_returns:
  assumes "cursors_end api m"
  shows "fst (executeQuery api q ret w) \<noteq> Inl e"
proof
  assume "fst (executeQuery api q ret w) = Inl e"
  then obtain w' where "executeQuery api q ret w = (Inl e, w')" by (metis prod.collapse)
  then show False
  proof (rule executeQuery_cases)
    fix st w1 rc1 st1
    assume "fetch_rows api (sqlite3_column_count api st) rc1 st1 w' [] = None"
    then show False using cursor_rows_total [OF assms] fetch_rows_complete by (metis option.distinct(1))
  qed simp_all
qed

lemma run_query_Inl:
  assumes "\<And>q ret w e. fst (execute_query env q ret w) \<noteq> Inl e"
  obtains r w' where "execute_query env q ret w = (Inr r, w')"
  using assms by (metis prod.collapse sum.exhaust_sel)

lemma no_error_insert_storage:
  assumes "\<And>q ret w e. fst (execute_query env q ret w) \<noteq> Inl e"
    and "fst (insert_storage env cid devs w) = Inl e"
  shows "e = Indeterminate_Value"
  using assms(2)
proof (induction devs arbitrary: w)
  case (Cons d devs)
  obtain r w1 where "execute_query env (insert_storage_query env cid d) True w = (Inr r, w1)"
    by (rule run_query_Inl [OF assms(1)])
  with Cons show ?case by (auto simp: keep_dev_def split: if_splits option.splits)
qed simp

lemma no_error_addToDB:
  assumes "\<And>q ret w e. fst (execute_query env q ret w) \<noteq> Inl e" "fst (addToDB env c w) = Inl e"
  shows "e = Indeterminate_Value"
proof -
  obtain r w1 where r: "execute_query env (insert_computer_query env (sys_info c)) True w = (Inr r, w1)"
    by (rule run_query_Inl [OF assms(1)])
  show ?thesis
  proof (cases "\<exists>i. success r \<and> last_id r = Some i")
    case True
    then obtain i where i: "success r" "last_id r = Some i" by blast
    obtain x devs w2 where ins: "insert_storage env i (storage_info c) w1 = (x, devs, w2)" by (metis prod_cases3)
    with assms(2) r i have "x = Inl e" by (cases x) (simp_all add: addToDB_def)
    with ins no_error_insert_storage [OF assms(1), of i "storage_info c" w1 e] show ?thesis by simp
  next
    case False
    with assms(2) r show ?thesis by (auto simp: addToDB_def split: if_splits option.splits)
  qed
qed

lemma no_error_push_usages:
  assumes "\<And>q ret w e. fst (execute_query env q ret w) \<noteq> Inl e"
    and "fst (push_usages env d tick us w) = Inl e"
  shows "e = Out_Of_Bounds"
  using assms(2)
proof (induction us arbitrary: w)
  case (Cons u us)
  obtain r1 w1 where r1: "execute_query env (usage_exists_query env d u) False w = (Inr r1, w1)"
    by (rule run_query_Inl [OF assms(1)])
  obtain r2 w2 where r2: "execute_query env (usage_insert_query env d u) False w1 = (Inr r2, w2)"
    by (rule run_query_Inl [OF assms(1)])
  have c: "count_is_zero r1 = Inl e' \<Longrightarrow> e' = Out_Of_Bounds" for e'
    by (auto simp: count_is_zero_def vec_at_def split: if_splits)
  obtain x w3 where x: "ensure_usage_row env d tick u w = (x, w3)" by fastforce
  obtain r4 w4 where r4: "execute_query env (usage_update_query env d tick u) False w3 = (Inr r4, w4)"
    by (rule run_query_Inl [OF assms(1)])
  show ?case
  proof (cases x)
    case (Inl e')
    with x r1 r2 c have "e' = Out_Of_Bounds" by (auto simp: ensure_usage_row_def split: if_splits sum.splits)
    with x Inl Cons.prems show ?thesis by (simp add: push_usage_def)
  next
    case (Inr u)
    with x r4 Cons show ?thesis by (simp add: push_usage_def)
  qed
qed simp

lemma no_error_pushUsageToDB:
  assumes "\<And>q ret w e. fst (execute_query env q ret w) \<noteq> Inl e"
    and "fst (pushUsageToDB env tick c w) = Inl e"
  shows "e = Out_Of_Bounds"
proof -
  obtain t w1 where t: "time_now env w = (t, w1)" by fastforce
  obtain x w2 where x: "push_usages env (local_time env t) tick (usage_info c) w1 = (x, w2)" by fastforce
  with assms(2) t have "x = Inl e" by (cases x) (simp_all add: pushUsageToDB_def)
  with x no_error_push_usages [OF assms(1), of "local_time env t" tick "usage_info c" w1 e]
  show ?thesis by simp
qed

lemma load_storage_columns_no_return:
  "load_storage_columns names row is info = Inl e \<Longrightarrow> e \<noteq> No_Return"
proof (induction "is" arbitrary: info)
  case (Cons i "is")
  then show ?case
    by (auto simp: rbind_eq_Inl load_storage_column_def vec_at_def load_errors_def
        dest: stoi_errors split: if_splits)
qed simp

lemma load_storage_rows_no_return:
  "load_storage_rows names rows devs = (Inl e, devs') \<Longrightarrow> e \<noteq> No_Return"
  by (induction rows arbitrary: devs) (auto dest: load_storage_columns_no_return split: sum.splits)

lemma load_columns_no_return:
  "load_columns names row is si = (Inl e, si') \<Longrightarrow> e \<noteq> No_Return"
proof (induction "is" arbitrary: si)
  case (Cons i "is")
  then show ?case
    by (auto simp: rbind_eq_Inl load_column_def vec_at_def load_errors_def
        dest: stol_errors parse_version_errors split: if_splits sum.splits)
qed simp

lemma no_error_getFromDB:
  assumes "\<And>q ret w e. fst (execute_query env q ret w) \<noteq> Inl e" "fst (getFromDB env c w) = Inl e"
  shows "e \<noteq> No_Return"
proof -
  obtain r w1 where r: "execute_query env (fmt_query env RMS_DB_FETCH_COMPUTER_BY_ID [FInt (computer_id c)]) False w = (Inr r, w1)"
    by (rule run_query_Inl [OF assms(1)])
  obtain x si where l: "load_columns (column_names r) (table_rows r ! 0) [0..<length (column_names r)] (sys_info c) = (x, si)"
    by fastforce
  let ?c = "c\<lparr>sys_info := si\<rparr>"
  obtain r2 w2 where r2: "execute_query env (fmt_query env RMS_DB_FETCH_STORAGE_BY_COMPUTER_ID [FInt (computer_id ?c)]) False w1 = (Inr r2, w2)"
    by (rule run_query_Inl [OF assms(1)])
  obtain y devs where l2: "load_storage_rows (column_names r2) (table_rows r2) (storage_info ?c) = (y, devs)"
    by fastforce
  have st: "fst (load_storage env ?c w1) = Inl e' \<Longrightarrow> e' \<noteq> No_Return" for e'
    using r2 l2 load_storage_rows_no_return by (cases y) (auto simp: load_storage_def split: if_splits)
  have cl: "x = Inl e' \<Longrightarrow> e' \<noteq> No_Return" for e'
    using l load_columns_no_return by fastforce
  show ?thesis
    using assms(2) r l st cl no_error_addToDB [OF assms(1), of c w1 e]
    by (cases x) (auto simp: getFromDB_def split: if_splits)
qed

text \<open>
  C10. The clients of the database are safe over SQLite. When the library's cursors end,
  \<open>addToDB\<close> and \<open>pushUsageToDB\<close> never fail, and \<open>getFromDB\<close> can only fail because a stored
  text does not parse as a number or a version: no cell is read out of range and no unset
  insert id is used.
\<close>

theorem sqlite_clients_safe:
  assumes "cursors_end api m"
  shows "(\<forall>e. fst (addToDB (sqlite_env api env) c w) \<noteq> Inl e) \<and>
    (\<forall>e. fst (pushUsageToDB (sqlite_env api env) tick c w) \<noteq> Inl e) \<and>
    (\<forall>e. fst (getFromDB (sqlite_env api env) c w) = Inl e \<longrightarrow> e \<in> load_errors)"
proof (intro conjI allI impI)
  have ret: "fst (execute_query (sqlite_env api env) q ret w) \<noteq> Inl e" for q ret w e
    using executeQuery_returns [OF assms] by simp
  show "fst (addToDB (sqlite_env api env) c w) \<noteq> Inl e" for e
    using no_error_addToDB [OF ret, of c w e] sqlite.addToDB_safe [of "sqlite_env api env" api c w e] by auto
  show "fst (pushUsageToDB (sqlite_env api env) tick c w) \<noteq> Inl e" for e
    using no_error_pushUsageToDB [OF ret, of tick c w e]
      sqlite.pushUsageToDB_safe [of "sqlite_env api env" api tick c w e] by auto
  show "e \<in> load_errors" if "fst (getFromDB (sqlite_env api env) c w) = Inl e" for e
    using no_error_getFromDB [OF ret that] sqlite.getFromDB_safe [OF _ that] by auto
qed

theorem sqlite_clients_safe_witness:
  "fst (addToDB (sqlite_env sample_api sample_env) (new_computer 5) 0) \<noteq> Inl Indeterminate_Value"
  using sqlite_clients_safe [OF sample_api_ends, of sample_env "new_computer 5" 0 0] by blast

end
