(* ===== verification/Rms_Ingestor.thy ===== *)
theory Rms_Ingestor
  imports Rms_Sqlite
begin

text \<open>
  The request ingestors (\<open>server/src/ingestor\<close>): what the server does with the data items of
  a request. The database ingestor adds usage points to the computer of the client, stores
  the results of executors, and once an hour pushes usage to the database; it is one object
  for all clients. Time points of the steady clock are nanoseconds. The computer is a shared
  pointer, null until the handshake.
\<close>

section \<open>State\<close>

record DbRequestIngestor =
  tick :: int
  next_usage_push :: int

definition minutes :: "int \<Rightarrow> int" where
  "minutes n = n * 60 * 1000000000"

definition hours :: "int \<Rightarrow> int" where
  "hours n = n * 3600 * 1000000000"

definition new_db_ingestor :: "'w env \<Rightarrow> 'w \<Rightarrow> DbRequestIngestor \<times> 'w" where
  "new_db_ingestor env w =
     (let (now, w1) = steady_now env w in (\<lparr>tick = - 1, next_usage_push = now + minutes 5\<rparr>, w1))"

datatype RequestIngestor = LogRequestIngestor | Db_Ingestor DbRequestIngestor

section \<open>One data item\<close>

fun add_cpu_usage :: "int \<Rightarrow> dbl list \<Rightarrow> RmsComputer \<Rightarrow> RmsComputer" where
  "add_cpu_usage i [] c = c"
| "add_cpu_usage i (p # ps) c = add_cpu_usage (i + 1) ps (addUsageInfo kCpu p i c)"

text \<open>\<open>100.0 * (total - free) / static_cast<double>(total)\<close>\<close>

definition used_percent :: "int \<Rightarrow> int \<Rightarrow> dbl res" where
  "used_percent total_kb free_kb =
     rbind (sub_i64 total_kb free_kb)
       (\<lambda>used. Inr (dbl_div (Num (100 * real_of_int used)) (Num (real_of_int total_kb))))"

text \<open>The RAM case: the main memory point is already added when the swap subtraction fails.\<close>

definition add_ram_usage :: "RamData \<Rightarrow> RmsComputer \<Rightarrow> unit res \<times> RmsComputer" where
  "add_ram_usage r c = (case used_percent (main_total r) (main_free r) of
     Inl e \<Rightarrow> (Inl e, c)
   | Inr p \<Rightarrow>
       (let c1 = addUsageInfo kRam p 0 c
        in if swap_total r \<noteq> 0 then
             (case used_percent (swap_total r) (swap_free r) of
                Inl e \<Rightarrow> (Inl e, c1)
              | Inr q \<Rightarrow> (Inr (), addUsageInfo kRam q 1 c1))
           else (Inr (), c1)))"

definition update_executor_query :: "'w env \<Rightarrow> ExecutorResult \<Rightarrow> string" where
  "update_executor_query env r =
     fmt_query env RMS_DB_UPDATE_EXECUTOR_TABLE
       [FInt (er_time_finished r), FInt (er_code r), FInt (return_type_code (er_return_type r)), FInt (er_id r)]"

definition ingest_values ::
  "'w env \<Rightarrow> RmsRequestData \<Rightarrow> RmsComputer option \<Rightarrow> 'w \<Rightarrow> unit res \<times> RmsComputer option \<times> 'w"
where
  "ingest_values env data computer w = (case rq_data_type data of
     kCpuUsage \<Rightarrow>
       (case computer of
          None \<Rightarrow> if cpu_usage (rqv_cpu_usage_data (rq_data data)) = [] then (Inr (), None, w)
                  else (Inl Null_Deref, None, w)
        | Some c \<Rightarrow> (Inr (), Some (add_cpu_usage 0 (cpu_usage (rqv_cpu_usage_data (rq_data data))) c), w))
   | kRamUsage \<Rightarrow>
       (case computer of
          None \<Rightarrow> (Inl Null_Deref, None, w)
        | Some c \<Rightarrow> (let (r, c1) = add_ram_usage (rqv_ram_data (rq_data data)) c in (r, Some c1, w)))
   | kExecutorResult \<Rightarrow>
       run_query env (update_executor_query env (rqv_executor_result (rq_data data))) False computer w (\<lambda>res w1.
         if \<not> success res \<and> computer = None then (Inl Null_Deref, computer, w1) else (Inr (), computer, w1))
   | _ \<Rightarrow> (Inr (), computer, w))"

text \<open>After every data item: is it time to send some usage to the database?\<close>

definition usage_push ::
  "'w env \<Rightarrow> DbRequestIngestor \<Rightarrow> RmsComputer option \<Rightarrow> 'w \<Rightarrow> unit res \<times> DbRequestIngestor \<times> 'w"
where
  "usage_push env ing computer w =
     (let (now, w1) = steady_now env w
      in if now > next_usage_push ing then
           (let (ing1, w2) =
              (if tick ing = - 1
               then (let (tt, w') = time_now env w1 in (ing\<lparr>tick := tm_hour (local_time env tt)\<rparr>, w'))
               else (ing, w1))
            in case computer of
                 None \<Rightarrow> (Inl Null_Deref, ing1, w2)
               | Some c \<Rightarrow>
                   (case pushUsageToDB env (tick ing1) c w2 of
                      (Inl e, w3) \<Rightarrow> (Inl e, ing1, w3)
                    | (Inr _, w3) \<Rightarrow>
                        (Inr (), ing1\<lparr>tick := (if tick ing1 = 23 then 0 else tick ing1 + 1),
                                     next_usage_push := next_usage_push ing1 + hours 1\<rparr>, w3)))
         else (Inr (), ing, w1))"

definition ingestRequestData ::
  "'w env \<Rightarrow> RmsRequestData \<Rightarrow> DbRequestIngestor \<Rightarrow> RmsComputer option \<Rightarrow> 'w \<Rightarrow>
     unit res \<times> DbRequestIngestor \<times> RmsComputer option \<times> 'w"
where
  "ingestRequestData env data ing computer w =
     (let (r, computer1, w1) = ingest_values env data computer w
      in case r of
           Inl e \<Rightarrow> (Inl e, ing, computer1, w1)
         | Inr _ \<Rightarrow>
             (let (r2, ing1, w2) = usage_push env ing computer1 w1 in (r2, ing1, computer1, w2)))"

section \<open>A request\<close>

fun ingest_items ::
  "'w env \<Rightarrow> RmsRequestData list \<Rightarrow> DbRequestIngestor \<Rightarrow> RmsComputer option \<Rightarrow> 'w \<Rightarrow>
     unit res \<times> DbRequestIngestor \<times> RmsComputer option \<times> 'w"
where
  "ingest_items env [] ing computer w = (Inr (), ing, computer, w)"
| "ingest_items env (d # ds) ing computer w =
     (case ingestRequestData env d ing computer w of
        (Inl e, ing1, computer1, w1) \<Rightarrow> (Inl e, ing1, computer1, w1)
      | (Inr _, ing1, computer1, w1) \<Rightarrow> ingest_items env ds ing1 computer1 w1)"

text \<open>The log ingestor prints the header and the data and changes nothing.\<close>

definition ingestRequest ::
  "'w env \<Rightarrow> RmsRequest \<Rightarrow> RequestIngestor \<Rightarrow> RmsComputer option \<Rightarrow> 'w \<Rightarrow>
     unit res \<times> RequestIngestor \<times> RmsComputer option \<times> 'w"
where
  "ingestRequest env req ing computer w = (case ing of
     LogRequestIngestor \<Rightarrow> (Inr (), ing, computer, w)
   | Db_Ingestor db \<Rightarrow>
       (let (r, db1, computer1, w1) = ingest_items env (rq_items req) db computer w
        in (r, Db_Ingestor db1, computer1, w1)))"

section \<open>Usage points\<close>

text \<open>The part of \<open>tables_ok\<close> that is about usage; a computer loaded from the database has it too.\<close>

definition usage_ok :: "RmsComputer \<Rightarrow> bool" where
  "usage_ok c \<longleftrightarrow> distinct_keys usage_key (usage_info c) \<and> (\<forall>u \<in> set (usage_info c). container_bounded u)"

lemma usage_ok_cong: "usage_info c' = usage_info c \<Longrightarrow> usage_ok c' = usage_ok c"
  by (simp add: usage_ok_def)

lemma usage_ok_new [simp]: "usage_ok (new_computer i)"
  by (simp add: usage_ok_def new_computer_def distinct_keys_def)

lemma usage_ok_addUsageInfo: "usage_ok c \<Longrightarrow> usage_ok (addUsageInfo t p i c)"
  using container_bounded_add_usage
  by (auto simp: usage_ok_def addUsageInfo_def usage_tab.distinct_keys_add)

lemma usage_ok_add_cpu: "usage_ok c \<Longrightarrow> usage_ok (add_cpu_usage i ps c)"
  by (induction ps arbitrary: i c) (simp_all add: usage_ok_addUsageInfo)

lemma usage_ok_add_ram: "usage_ok c \<Longrightarrow> usage_ok (snd (add_ram_usage r c))"
  by (auto simp: add_ram_usage_def Let_def usage_ok_addUsageInfo split: sum.splits)

lemma tables_usage_ok: "tables_ok c \<Longrightarrow> usage_ok c"
  by (simp add: tables_ok_def usage_ok_def)

lemma tables_ok_add_cpu: "tables_ok c \<Longrightarrow> tables_ok (add_cpu_usage i ps c)"
  by (induction ps arbitrary: i c) (simp_all add: tables_ok_addUsageInfo)

lemma tables_ok_add_ram: "tables_ok c \<Longrightarrow> tables_ok (snd (add_ram_usage r c))"
  by (auto simp: add_ram_usage_def Let_def tables_ok_addUsageInfo split: sum.splits)

lemma last_addPoint [simp]: "data_points (addPoint p u) \<noteq> [] \<and> last (data_points (addPoint p u)) = p"
  by (simp add: addPoint_def Let_def)

text \<open>The points a table holds for a key, and the window after adding one more.\<close>

definition points_of :: "UsageType \<times> int \<Rightarrow> RmsComputer \<Rightarrow> dbl list" where
  "points_of k c = (case table_map usage_key (usage_info c) k of None \<Rightarrow> [] | Some u \<Rightarrow> data_points u)"

definition window :: "dbl list \<Rightarrow> dbl list" where
  "window ps = take_last (RMS_MAX_CONTAINER_DATA_POINTS + 1) ps"

lemma points_refresh:
  assumes "container_bounded u"
  shows "data_points (refresh_usage u (t, p, i)) = window (data_points u @ [p])"
  using addPoint_window [OF assms] by (simp add: refresh_usage_def window_def)

lemma points_fresh: "data_points (fresh_usage (t, p, i)) = window [p]"
  by (simp add: fresh_usage_def addPoint_def new_container_def window_def RMS_MAX_CONTAINER_DATA_POINTS_def)

lemma lookup_bounded:
  "usage_ok c \<Longrightarrow> table_map usage_key (usage_info c) k = Some u \<Longrightarrow> container_bounded u"
  using table_map_mem by (fastforce simp: usage_ok_def)

lemma points_addUsageInfo:
  assumes "usage_ok c"
  shows "points_of k (addUsageInfo t p i c) =
    (if k = (t, i) then window (points_of k c @ [p]) else points_of k c)"
proof -
  have "point_key (t, p, i) = (t, i)" by (simp add: point_key_def)
  then show ?thesis
    using lookup_bounded [OF assms] points_refresh [of _ t p i] points_fresh [of t p i]
    by (auto simp: points_of_def addUsageInfo_def usage_tab.table_map_add split: option.splits)
qed

lemma points_add_cpu:
  assumes "usage_ok c"
  shows "points_of (kCpu, j) (add_cpu_usage i ps c) =
      (if i \<le> j \<and> j < i + int (length ps) then window (points_of (kCpu, j) c @ [ps ! nat (j - i)])
       else points_of (kCpu, j) c) \<and>
    (t \<noteq> kCpu \<longrightarrow> points_of (t, j) (add_cpu_usage i ps c) = points_of (t, j) c)"
  using assms
proof (induction ps arbitrary: i c)
  case (Cons p ps)
  note IH = Cons.IH [of "addUsageInfo kCpu p i c" "i + 1"] usage_ok_addUsageInfo [OF Cons.prems, of kCpu p i]
  have "i < j \<Longrightarrow> nat (j - i) = Suc (nat (j - (i + 1)))" by simp
  then show ?case
    using IH points_addUsageInfo [OF Cons.prems] by (auto simp: algebra_simps)
qed auto

text \<open>
  A CPU report adds, for each core \<open>j\<close> of the list and for no other container, the
  reported value as the newest point of container \<open>(kCpu, j)\<close>, keeping the newest 61 points;
  the tables stay free of duplicate containers.
\<close>

theorem cpu_report_points:
  assumes "tables_ok c" "rq_data_type data = kCpuUsage" "us = cpu_usage (rqv_cpu_usage_data (rq_data data))"
  shows "\<exists>c'. ingest_values env data (Some c) w = (Inr (), Some c', w) \<and> tables_ok c' \<and>
    (\<forall>j. 0 \<le> j \<and> j < int (length us) \<longrightarrow>
       points_of (kCpu, j) c' = take_last 61 (points_of (kCpu, j) c @ [us ! nat j])) \<and>
    (\<forall>t j. t \<noteq> kCpu \<or> j < 0 \<or> int (length us) \<le> j \<longrightarrow> points_of (t, j) c' = points_of (t, j) c)"
proof -
  have "points_of (t, j) (add_cpu_usage 0 us c) = points_of (t, j) c"
    if "t \<noteq> kCpu \<or> j < 0 \<or> int (length us) \<le> j" for t j
    using that points_add_cpu [OF tables_usage_ok [OF assms(1)], of j 0 us t] by (cases "t = kCpu") auto
  moreover have "points_of (kCpu, j) (add_cpu_usage 0 us c) = take_last 61 (points_of (kCpu, j) c @ [us ! nat j])"
    if "0 \<le> j" "j < int (length us)" for j
    using that points_add_cpu [OF tables_usage_ok [OF assms(1)], of j 0 us] by (simp add: window_def RMS_MAX_CONTAINER_DATA_POINTS_def)
  ultimately show ?thesis
    using assms tables_ok_add_cpu by (simp add: ingest_values_def)
qed

definition cpu_item :: "dbl list \<Rightarrow> RmsRequestData" where
  "cpu_item us = \<lparr>rq_data_type = kCpuUsage,
     rq_data = default_request_values\<lparr>rqv_cpu_usage_data := \<lparr>core_count = 0, cpu_usage = us\<rparr>\<rparr>\<rparr>"

theorem cpu_report_points_witness:
  "\<exists>c'. ingest_values sample_env (cpu_item [Num 10, Num 20]) (Some (new_computer 5)) 0 = (Inr (), Some c', 0) \<and>
     points_of (kCpu, 1) c' = [Num 20]"
  using cpu_report_points [OF tables_ok_new [of 5], of "cpu_item [Num 10, Num 20]" "[Num 10, Num 20]" sample_env 0]
  by (auto simp: cpu_item_def default_request_values_def points_of_def new_computer_def)

section \<open>Memory usage\<close>

definition ram_in_range :: "RamData \<Rightarrow> bool" where
  "ram_in_range r \<longleftrightarrow> 0 \<le> main_free r \<and> main_free r \<le> main_total r \<and> in_i64 (main_total r) \<and>
     0 \<le> swap_free r \<and> swap_free r \<le> swap_total r \<and> in_i64 (swap_total r)"

lemma used_percent_range:
  assumes "0 \<le> f" "f \<le> t" "in_i64 t" "0 < t"
  shows "\<exists>p. used_percent t f = Inr (Num p) \<and> 0 \<le> p \<and> p \<le> 100"
proof -
  have "used_percent t f = Inr (Num (100 * real_of_int (t - f) / real_of_int t))"
    using assms by (simp add: used_percent_def sub_i64_nonneg)
  moreover have "0 \<le> 100 * real_of_int (t - f) / real_of_int t" "100 * real_of_int (t - f) / real_of_int t \<le> 100"
    using assms by (simp_all add: field_simps)
  ultimately show ?thesis by blast
qed

lemma used_percent_zero [simp]: "used_percent 0 0 = Inr NaN"
  by (simp add: used_percent_def sub_i64_def in_i64_def)

text \<open>
  A memory report whose free amounts are at most the totals never overflows: with a
  positive total it adds a percentage between 0 and 100 to container \<open>(kRam, 0)\<close>, and one
  to \<open>(kRam, 1)\<close> exactly when the machine has swap.
\<close>

theorem ram_report_points:
  assumes "tables_ok c" "rq_data_type data = kRamUsage" "r = rqv_ram_data (rq_data data)"
    and "ram_in_range r" "0 < main_total r"
  shows "\<exists>c' p qs. ingest_values env data (Some c) w = (Inr (), Some c', w) \<and> tables_ok c' \<and>
    0 \<le> p \<and> p \<le> 100 \<and> (\<forall>q \<in> set qs. 0 \<le> q \<and> q \<le> 100) \<and> length qs = (if swap_total r = 0 then 0 else 1) \<and>
    points_of (kRam, 0) c' = take_last 61 (points_of (kRam, 0) c @ [Num p]) \<and>
    (qs = [] \<longrightarrow> points_of (kRam, 1) c' = points_of (kRam, 1) c) \<and>
    (\<forall>q \<in> set qs. points_of (kRam, 1) c' = take_last 61 (points_of (kRam, 1) c @ [Num q]))"
proof -
  obtain p where p: "used_percent (main_total r) (main_free r) = Inr (Num p)" "0 \<le> p" "p \<le> 100"
    using used_percent_range assms(4,5) unfolding ram_in_range_def by blast
  let ?c1 = "addUsageInfo kRam (Num p) 0 c"
  have ok1: "tables_ok ?c1" using assms(1) by (rule tables_ok_addUsageInfo)
  have w: "window = take_last 61" by (simp add: window_def fun_eq_iff RMS_MAX_CONTAINER_DATA_POINTS_def)
  note pts = points_addUsageInfo [OF tables_usage_ok [OF assms(1)]] points_addUsageInfo [OF tables_usage_ok [OF ok1]]
  have def1: "ingest_values env data (Some c) w = (fst (add_ram_usage r c), Some (snd (add_ram_usage r c)), w)"
    using assms(2,3) by (simp add: ingest_values_def case_prod_beta)
  show ?thesis
  proof (cases "swap_total r = 0")
    case True
    with p have "add_ram_usage r c = (Inr (), ?c1)" by (simp add: add_ram_usage_def)
    with def1 True p ok1 pts show ?thesis
      by (intro exI [of _ ?c1] exI [of _ p] exI [of _ "[]"]) (simp add: w)
  next
    case False
    with assms(4) obtain q where q: "used_percent (swap_total r) (swap_free r) = Inr (Num q)" "0 \<le> q" "q \<le> 100"
      using used_percent_range [of "swap_free r" "swap_total r"] unfolding ram_in_range_def by force
    with False p have "add_ram_usage r c = (Inr (), addUsageInfo kRam (Num q) 1 ?c1)"
      by (simp add: add_ram_usage_def)
    with def1 False p q pts tables_ok_addUsageInfo [OF ok1] show ?thesis
      by (intro exI [of _ "addUsageInfo kRam (Num q) 1 ?c1"] exI [of _ p] exI [of _ "[q]"]) (simp add: w)
  qed
qed

definition ram_item :: "int \<Rightarrow> int \<Rightarrow> RmsRequestData" where
  "ram_item t f = \<lparr>rq_data_type = kRamUsage,
     rq_data = default_request_values\<lparr>rqv_ram_data := \<lparr>main_total = t, main_free = f, swap_total = 0, swap_free = 0\<rparr>\<rparr>\<rparr>"

theorem ram_report_points_witness:
  "\<exists>c' p. ingest_values sample_env (ram_item 200 50) (Some (new_computer 5)) 0 = (Inr (), Some c', 0) \<and>
     points_of (kRam, 0) c' = [Num p]"
  using ram_report_points [OF tables_ok_new [of 5], of "ram_item 200 50" _ sample_env 0]
  by (fastforce simp: ram_item_def default_request_values_def ram_in_range_def in_i64_def points_of_def new_computer_def)

lemma nan_survives:
  assumes "container_bounded u" "\<not> culminating u" "NaN \<in> set (take_last 1 (data_points u))"
    and "length ps \<le> RMS_MAX_CONTAINER_DATA_POINTS"
  shows "getData (fold addPoint ps u) = NaN"
proof -
  have "\<not> culminating (fold addPoint ps u')" if "\<not> culminating u'" for u'
    using that by (induction ps arbitrary: u') simp_all
  moreover have "data_points (fold addPoint ps u) = take_last (RMS_MAX_CONTAINER_DATA_POINTS + 1) (data_points u @ ps)"
    by (rule fold_addPoint_window [OF assms(1)])
  moreover have "set (take_last 1 (data_points u)) \<subseteq> set (take_last (RMS_MAX_CONTAINER_DATA_POINTS + 1) (data_points u @ ps))"
  proof -
    have "length (data_points u) + length ps - (RMS_MAX_CONTAINER_DATA_POINTS + 1) \<le> length (data_points u) - 1"
      using assms(4) by simp
    from set_drop_subset_set_drop [OF this, of "data_points u @ ps"]
    have "set (drop (length (data_points u) - 1) (data_points u @ ps)) \<subseteq>
        set (take_last (RMS_MAX_CONTAINER_DATA_POINTS + 1) (data_points u @ ps))"
      by (simp add: take_last_def)
    then show ?thesis by (auto simp: take_last_def)
  qed
  ultimately show ?thesis using assms(2,3) by (auto simp: getData_def sum_list_NaN)
qed

lemma added_point_window:
  assumes "tables_ok c" "\<And>u. table_map usage_key (usage_info c) (t, i) = Some u \<Longrightarrow> \<not> culminating u" "t = kRam"
  shows "\<exists>u. table_map usage_key (usage_info (addUsageInfo t p i c)) (t, i) = Some u \<and> \<not> culminating u \<and>
    container_bounded u \<and> p \<in> set (take_last 1 (data_points u))"
proof -
  let ?u = "case table_map usage_key (usage_info c) (t, i) of None \<Rightarrow> fresh_usage (t, p, i)
      | Some u \<Rightarrow> refresh_usage u (t, p, i)"
  have "point_key (t, p, i) = (t, i)" by (simp add: point_key_def)
  then have look: "table_map usage_key (usage_info (addUsageInfo t p i c)) (t, i) = Some ?u"
    by (simp add: addUsageInfo_def usage_tab.table_map_add)
  have "\<not> culminating ?u" using assms(2,3)
    by (auto simp: fresh_usage_def refresh_usage_def new_container_def split: option.splits)
  moreover have "container_bounded ?u"
    using lookup_bounded [OF tables_usage_ok [OF tables_ok_addUsageInfo [OF assms(1)]] look] .
  moreover have "p \<in> set (take_last 1 (data_points ?u))"
    by (auto simp: fresh_usage_def refresh_usage_def addPoint_def Let_def take_last_def split: option.splits)
  ultimately show ?thesis using look by blast
qed

text \<open>
  A memory report of all zeros, which the reporter sends when it cannot open
  \<open>/proc/meminfo\<close>, adds a point that is not a number, and every average of the container is
  not a number until the point has left the window, 61 points later.
\<close>

theorem zero_ram_report_poisons:
  assumes "tables_ok c" "rq_data_type data = kRamUsage" "r = rqv_ram_data (rq_data data)"
    and "main_total r = 0" "main_free r = 0" "swap_total r = 0"
    and "\<And>u. table_map usage_key (usage_info c) (kRam, 0) = Some u \<Longrightarrow> \<not> culminating u"
  shows "\<exists>c' u. ingest_values env data (Some c) w = (Inr (), Some c', w) \<and>
    table_map usage_key (usage_info c') (kRam, 0) = Some u \<and>
    (\<forall>ps. length ps \<le> RMS_MAX_CONTAINER_DATA_POINTS \<longrightarrow> getData (fold addPoint ps u) = NaN)"
proof -
  let ?c = "addUsageInfo kRam NaN 0 c"
  have "add_ram_usage r c = (Inr (), ?c)"
    using assms(4-6) by (simp add: add_ram_usage_def)
  then have "ingest_values env data (Some c) w = (Inr (), Some ?c, w)"
    using assms(2,3) by (simp add: ingest_values_def)
  moreover obtain u where "table_map usage_key (usage_info ?c) (kRam, 0) = Some u" "\<not> culminating u"
      "container_bounded u" "NaN \<in> set (take_last 1 (data_points u))"
    using added_point_window [where p = NaN, OF assms(1,7) refl] by blast
  ultimately show ?thesis using nan_survives by blast
qed

theorem zero_ram_report_poisons_witness:
  "\<exists>c' u. ingest_values sample_env (ram_item 0 0) (Some (new_computer 5)) 0 = (Inr (), Some c', 0) \<and>
     table_map usage_key (usage_info c') (kRam, 0) = Some u \<and> getData (addPoint (Num 40) u) = NaN"
proof -
  obtain c' u where "ingest_values sample_env (ram_item 0 0) (Some (new_computer 5)) 0 = (Inr (), Some c', 0)"
    "table_map usage_key (usage_info c') (kRam, 0) = Some u"
    "\<forall>ps. length ps \<le> RMS_MAX_CONTAINER_DATA_POINTS \<longrightarrow> getData (fold addPoint ps u) = NaN"
    using zero_ram_report_poisons [OF tables_ok_new [of 5], of "ram_item 0 0" _ sample_env 0]
    by (auto simp: ram_item_def default_request_values_def new_computer_def)
  moreover from this(3) have "getData (fold addPoint [Num 40] u) = NaN"
    by (rule allE [of _ "[Num 40]"]) (simp add: RMS_MAX_CONTAINER_DATA_POINTS_def)
  ultimately show ?thesis by auto
qed

section \<open>The hourly push\<close>

definition tick_ok :: "DbRequestIngestor \<Rightarrow> bool" where
  "tick_ok ing \<longleftrightarrow> - 1 \<le> tick ing \<and> tick ing \<le> 23"

definition hours_ok :: "'w env \<Rightarrow> bool" where
  "hours_ok env \<longleftrightarrow> (\<forall>t. 0 \<le> tm_hour (local_time env t) \<and> tm_hour (local_time env t) \<le> 23)"

text \<open>The tick under which a push is stored.\<close>

definition push_tick :: "'w env \<Rightarrow> DbRequestIngestor \<Rightarrow> 'w \<Rightarrow> int" where
  "push_tick env ing w =
     (if tick ing = - 1 then tm_hour (local_time env (fst (time_now env w))) else tick ing)"

lemma usage_push_not_due:
  "steady_now env w = (now, w1) \<Longrightarrow> now \<le> next_usage_push ing \<Longrightarrow> usage_push env ing computer w = (Inr (), ing, w1)"
  by (simp add: usage_push_def)

lemma usage_push_due:
  assumes "steady_now env w = (now, w1)" "next_usage_push ing < now"
    and "usage_push env ing (Some c) w = (r, ing', w')"
  shows "\<exists>w2. (r, w') = (case pushUsageToDB env (push_tick env ing w1) c w2 of (x, w3) \<Rightarrow>
             ((case x of Inl e \<Rightarrow> Inl e | Inr _ \<Rightarrow> Inr ()), w3)) \<and>
    w2 = (if tick ing = - 1 then snd (time_now env w1) else w1) \<and>
    ing' = (case r of Inl e \<Rightarrow> ing\<lparr>tick := push_tick env ing w1\<rparr>
      | Inr _ \<Rightarrow> ing\<lparr>tick := (if push_tick env ing w1 = 23 then 0 else push_tick env ing w1 + 1),
                     next_usage_push := next_usage_push ing + hours 1\<rparr>)"
proof -
  obtain t w2 where t: "time_now env w1 = (t, w2)" by fastforce
  have same: "ing\<lparr>tick := tick ing\<rparr> = ing" by (cases ing) simp
  show ?thesis
  proof (cases "tick ing = - 1")
    case True
    obtain x w3 where p: "pushUsageToDB env (tm_hour (local_time env t)) c w2 = (x, w3)" by fastforce
    show ?thesis using assms t p True
      by (cases x) (auto simp: usage_push_def push_tick_def Let_def)
  next
    case False
    obtain x w3 where p: "pushUsageToDB env (tick ing) c w1 = (x, w3)" by fastforce
    show ?thesis using assms p False same
      by (cases x) (auto simp: usage_push_def push_tick_def Let_def)
  qed
qed

text \<open>
  The schedule of the pushes. Before the due time nothing happens: no statement is
  issued and the ingestor keeps its state. When the due time has passed, usage is pushed
  under a tick between 0 and 23, which is the local hour for the first push and the
  successor of the previous tick (23 wraps to 0) afterwards; the due time moves by exactly
  one hour if the push returns, and stays, with the tick, if it does not.
\<close>

theorem usage_push_schedule:
  assumes "tick_ok ing" "hours_ok env" "steady_now env w = (now, w1)"
  shows "(now \<le> next_usage_push ing \<longrightarrow>
      usage_push (traced env) ing (Some c) (w, l) = (Inr (), ing, (w1, l))) \<and>
    (now > next_usage_push ing \<longrightarrow>
      (\<forall>r ing' w'. usage_push env ing (Some c) w = (r, ing', w') \<longrightarrow>
        (let T = push_tick env ing w1 in 0 \<le> T \<and> T \<le> 23 \<and> tick_ok ing' \<and>
          (r = Inr () \<longrightarrow> next_usage_push ing' = next_usage_push ing + hours 1 \<and> tick ing' = (T + 1) mod 24) \<and>
          (r \<noteq> Inr () \<longrightarrow> next_usage_push ing' = next_usage_push ing \<and> tick ing' = T))))"
proof (intro conjI impI allI)
  show "usage_push (traced env) ing (Some c) (w, l) = (Inr (), ing, (w1, l))" if "now \<le> next_usage_push ing"
    using usage_push_not_due [of "traced env" "(w, l)" now "(w1, l)" ing] assms(3) that by simp
next
  fix r ing' w'
  assume due: "next_usage_push ing < now" and p: "usage_push env ing (Some c) w = (r, ing', w')"
  have T: "0 \<le> push_tick env ing w1" "push_tick env ing w1 \<le> 23"
    using assms(1,2) by (auto simp: tick_ok_def hours_ok_def push_tick_def)
  have "T = 23 \<or> (T + 1) mod 24 = T + 1" if "0 \<le> T" "T \<le> 23" for T :: int
    using that by (cases "T = 23") (auto intro: mod_pos_pos_trivial)
  with T usage_push_due [OF assms(3) due p]
  show "let T = push_tick env ing w1 in 0 \<le> T \<and> T \<le> 23 \<and> tick_ok ing' \<and>
          (r = Inr () \<longrightarrow> next_usage_push ing' = next_usage_push ing + hours 1 \<and> tick ing' = (T + 1) mod 24) \<and>
          (r \<noteq> Inr () \<longrightarrow> next_usage_push ing' = next_usage_push ing \<and> tick ing' = T)"
    unfolding Let_def by (cases r) (auto simp: tick_ok_def)
qed

theorem usage_push_schedule_witness:
  "usage_push (traced sample_env) \<lparr>tick = 23, next_usage_push = 5\<rparr> (Some (new_computer 5)) (0, []) =
     (Inr (), \<lparr>tick = 23, next_usage_push = 5\<rparr>, (0, [])) \<and>
   tick (fst (snd (usage_push sample_env \<lparr>tick = 23, next_usage_push = - 5\<rparr> (Some (new_computer 5)) 0))) = 0"
proof -
  obtain r ing' w' where u: "usage_push sample_env \<lparr>tick = 23, next_usage_push = - 5\<rparr> (Some (new_computer 5)) 0 = (r, ing', w')"
    by (metis prod_cases3)
  have "r = Inr ()" using u by (auto simp: usage_push_def sample_env_def pushUsageToDB_def new_computer_def)
  with u usage_push_schedule [of "\<lparr>tick = 23, next_usage_push = 5\<rparr>" sample_env 0 0 0 "new_computer 5" "[]"]
    usage_push_schedule [of "\<lparr>tick = 23, next_usage_push = - 5\<rparr>" sample_env 0 0 0 "new_computer 5" "[]"]
  show ?thesis by (simp add: tick_ok_def hours_ok_def sample_env_def push_tick_def Let_def)
qed

text \<open>
  The schedule is shared by all clients: once the push of an hour has been made for
  the computer whose request came first, the usage of no other computer is pushed before
  the next due time, so the hourly value of every other computer is never stored.
\<close>

theorem other_computers_not_pushed:
  assumes "steady_now env w = (now, w0)" "next_usage_push ing < now"
    and "usage_push (traced env) ing (Some c) (w, l) = (Inr (), ing1, wl1)"
    and "steady_now env w2 = (now2, w3)" "now2 \<le> next_usage_push ing + hours 1"
  shows "usage_push (traced env) ing1 (Some c2) (w2, l2) = (Inr (), ing1, (w3, l2))"
proof -
  have "steady_now (traced env) (w, l) = (now, (w0, l))" using assms(1) by simp
  from usage_push_due [OF this assms(2,3)] have "next_usage_push ing1 = next_usage_push ing + hours 1" by auto
  then show ?thesis
    using usage_push_not_due [of "traced env" "(w2, l2)" now2 "(w3, l2)" ing1] assms(4,5) by simp
qed

theorem other_computers_not_pushed_witness:
  "\<exists>ing1 wl1. usage_push (traced sample_env) \<lparr>tick = 23, next_usage_push = - 5\<rparr> (Some (new_computer 5)) (0, []) = (Inr (), ing1, wl1) \<and>
     usage_push (traced sample_env) ing1 (Some (new_computer 6)) (9, []) = (Inr (), ing1, (9, []))"
proof -
  have p: "usage_push (traced sample_env) \<lparr>tick = 23, next_usage_push = - 5\<rparr> (Some (new_computer 5)) (0, []) =
      (Inr (), \<lparr>tick = 0, next_usage_push = - 5 + hours 1\<rparr>, (0, []))"
    by (simp add: usage_push_def sample_env_def pushUsageToDB_def new_computer_def)
  have "usage_push (traced sample_env) \<lparr>tick = 0, next_usage_push = - 5 + hours 1\<rparr> (Some (new_computer 6)) (9, []) =
      (Inr (), \<lparr>tick = 0, next_usage_push = - 5 + hours 1\<rparr>, (9, []))"
    by (rule other_computers_not_pushed [OF _ _ p, of 0 0 9 0 9])
      (simp_all add: sample_env_def hours_def)
  with p show ?thesis by blast
qed

section \<open>The column of a tick\<close>

definition tick_column :: "int \<Rightarrow> string" where
  "tick_column t = ''tick'' @ to_string t @ '' FLOAT''"

lemma digit_char_code:
  "digit_char 0 = CHR ''0''" "digit_char (Suc 0) = CHR ''1''" "digit_char 1 = CHR ''1''" "digit_char 2 = CHR ''2''"
  "digit_char 3 = CHR ''3''" "digit_char 4 = CHR ''4''" "digit_char 5 = CHR ''5''"
  "digit_char 6 = CHR ''6''" "digit_char 7 = CHR ''7''" "digit_char 8 = CHR ''8''"
  "digit_char 9 = CHR ''9''"
  by code_simp+

lemma usage_table_text:
  "RMS_DB_CREATE_USAGE_TABLE =
     ''CREATE TABLE usage_table(date DATE NOT NULL,data_type INTEGER NOT NULL,data_id INTEGER,'' @
     concat (map (\<lambda>t. tick_column t @ '','') [0..22]) @ tick_column 23 @ '');''"
  by (simp add: RMS_DB_CREATE_USAGE_TABLE_def tick_column_def to_string_def upto_rec1
      nat_string.simps digit_char_code)

lemma tick_column_in_table:
  assumes "0 \<le> t" "t \<le> 23"
  shows "sublist (tick_column t) RMS_DB_CREATE_USAGE_TABLE"
proof (cases "t = 23")
  case True
  then show ?thesis unfolding usage_table_text
    by (metis append.assoc sublist_appendI)
next
  case False
  with assms have "t \<in> set [0..22]" by simp
  then obtain xs ys where "[0..22] = xs @ t # ys" by (meson split_list)
  then show ?thesis unfolding usage_table_text
    by (simp only: map_append concat_append list.map concat.simps append.assoc sublist_def) (metis append.assoc)
qed

text \<open>
  Every tick that the ingestor can push under has a column in the usage table that
  \<open>createTables\<close> creates.
\<close>

theorem push_tick_has_column:
  assumes "tick_ok ing" "hours_ok env"
  shows "sublist (tick_column (push_tick env ing w)) RMS_DB_CREATE_USAGE_TABLE"
proof -
  have "0 \<le> push_tick env ing w" "push_tick env ing w \<le> 23"
    using assms by (auto simp: tick_ok_def hours_ok_def push_tick_def)
  then show ?thesis by (rule tick_column_in_table)
qed

theorem push_tick_has_column_witness:
  "sublist (tick_column 5) RMS_DB_CREATE_USAGE_TABLE"
  using push_tick_has_column [of "\<lparr>tick = 5, next_usage_push = 0\<rparr>" sample_env 0]
  by (simp add: tick_ok_def hours_ok_def sample_env_def push_tick_def)

section \<open>Safety over SQLite\<close>

lemma sqlite_push_returns:
  assumes "cursors_end api m"
  shows "fst (pushUsageToDB (sqlite_env api env) T c w) \<noteq> Inl e"
proof -
  have ret: "fst (execute_query (sqlite_env api env) q ret w) \<noteq> Inl e" for q ret w e
    using executeQuery_returns [OF assms] by simp
  show ?thesis
    using no_error_pushUsageToDB [OF ret, of T c w e]
      sqlite.pushUsageToDB_safe [of "sqlite_env api env" api T c w e] by auto
qed

definition item_safe :: "RmsRequestData \<Rightarrow> bool" where
  "item_safe d \<longleftrightarrow> (rq_data_type d = kRamUsage \<longrightarrow> ram_in_range (rqv_ram_data (rq_data d)))"

lemma used_percent_defined: "0 \<le> f \<Longrightarrow> f \<le> t \<Longrightarrow> in_i64 t \<Longrightarrow> \<exists>p. used_percent t f = Inr p"
  by (simp add: used_percent_def sub_i64_nonneg)

lemma add_ram_usage_defined:
  assumes "ram_in_range r"
  shows "\<exists>c'. add_ram_usage r c = (Inr (), c')"
proof -
  obtain p q where "used_percent (main_total r) (main_free r) = Inr p" "used_percent (swap_total r) (swap_free r) = Inr q"
    using assms used_percent_defined unfolding ram_in_range_def by meson
  then show ?thesis by (cases "swap_total r = 0") (simp_all add: add_ram_usage_def Let_def)
qed

lemma ingest_values_defined:
  assumes "cursors_end api m" "item_safe d"
  shows "\<exists>c' w'. ingest_values (sqlite_env api env) d (Some c) w = (Inr (), Some c', w') \<and>
    (tables_ok c \<longrightarrow> tables_ok c') \<and> (usage_ok c \<longrightarrow> usage_ok c')"
proof (cases "rq_data_type d")
  case kRamUsage
  with assms(2) add_ram_usage_defined obtain c' where
    "add_ram_usage (rqv_ram_data (rq_data d)) c = (Inr (), c')" unfolding item_safe_def by blast
  with kRamUsage tables_ok_add_ram [of c "rqv_ram_data (rq_data d)"] usage_ok_add_ram [of c "rqv_ram_data (rq_data d)"] show ?thesis
    by (simp add: ingest_values_def)
next
  case kExecutorResult
  have ret: "fst (execute_query (sqlite_env api env) q ret w) \<noteq> Inl e" for q ret w e
    using executeQuery_returns [OF assms(1)] by simp
  obtain r w' where "execute_query (sqlite_env api env)
      (update_executor_query (sqlite_env api env) (rqv_executor_result (rq_data d))) False w = (Inr r, w')"
    by (rule run_query_Inl [OF ret])
  with kExecutorResult show ?thesis by (simp add: ingest_values_def del: sqlite_env_query)
qed (use tables_ok_add_cpu usage_ok_add_cpu in \<open>auto simp: ingest_values_def\<close>)

lemma usage_push_defined:
  assumes "cursors_end api m"
  shows "\<exists>ing' w'. usage_push (sqlite_env api env) ing (Some c) w = (Inr (), ing', w')"
proof -
  let ?e = "sqlite_env api env"
  obtain now w1 where n: "steady_now ?e w = (now, w1)" by fastforce
  obtain r ing' w' where u: "usage_push ?e ing (Some c) w = (r, ing', w')" by (metis prod_cases3)
  show ?thesis
  proof (cases "next_usage_push ing < now")
    case True
    from usage_push_due [OF n True u] obtain w2 where
      "(r, w') = (case pushUsageToDB ?e (push_tick ?e ing w1) c w2 of (x, w3) \<Rightarrow>
             ((case x of Inl e \<Rightarrow> Inl e | Inr _ \<Rightarrow> Inr ()), w3))" by blast
    moreover obtain x w3 where "pushUsageToDB ?e (push_tick ?e ing w1) c w2 = (x, w3)" by fastforce
    ultimately have "r = Inr ()"
      using sqlite_push_returns [OF assms, of env "push_tick ?e ing w1" c w2 "projl x"] by (cases x) simp_all
    with u show ?thesis by blast
  next
    case False
    with usage_push_not_due [OF n] show ?thesis by simp
  qed
qed

text \<open>
  C9. Ingesting never fails over SQLite: for a client that has done its handshake, any
  request whose memory reports have free amounts between zero and the totals is ingested
  completely, and the tables of its computer stay well-formed.
\<close>

theorem ingestRequest_safe:
  assumes "cursors_end api m" "\<forall>d \<in> set (rq_items req). item_safe d" "tables_ok c"
  shows "\<exists>ing' c' w'. ingestRequest (sqlite_env api env) req ing (Some c) w = (Inr (), ing', Some c', w') \<and>
    tables_ok c'"
proof -
  have items: "\<exists>db' c' w'. ingest_items (sqlite_env api env) ds db (Some c) w = (Inr (), db', Some c', w') \<and> tables_ok c'"
    if "\<forall>d \<in> set ds. item_safe d" "tables_ok c" for ds db c w
    using that
  proof (induction ds arbitrary: db c w)
    case (Cons d ds)
    then obtain c1 w1 where 1: "ingest_values (sqlite_env api env) d (Some c) w = (Inr (), Some c1, w1)" "tables_ok c1"
      using ingest_values_defined [OF assms(1)] by (metis list.set_intros(1))
    obtain db1 w2 where 2: "usage_push (sqlite_env api env) db (Some c1) w1 = (Inr (), db1, w2)"
      using usage_push_defined [OF assms(1)] by blast
    have "\<forall>d \<in> set ds. item_safe d" using Cons.prems(1) by simp
    from Cons.IH [OF this 1(2), of db1 w2] 1 2 show ?case by (simp add: ingestRequestData_def)
  qed simp
  show ?thesis
  proof (cases ing)
    case (Db_Ingestor db)
    obtain db' c' w' where "ingest_items (sqlite_env api env) (rq_items req) db (Some c) w = (Inr (), db', Some c', w')"
        "tables_ok c'"
      using items [OF assms(2,3)] by blast
    with Db_Ingestor show ?thesis by (simp add: ingestRequest_def)
  qed (simp add: ingestRequest_def assms(3))
qed

theorem ingestRequest_safe_witness:
  "\<exists>ing' c' w'. ingestRequest (sqlite_env sample_api sample_env)
     \<lparr>rq_header = \<lparr>timestamp = 0, data_count = 2\<rparr>, rq_items = [ram_item 200 50, cpu_item [Num 1]]\<rparr>
     (Db_Ingestor \<lparr>tick = - 1, next_usage_push = - 5\<rparr>) (Some (new_computer 5)) 0 = (Inr (), ing', Some c', w')"
  using ingestRequest_safe [OF sample_api_ends, of
      "\<lparr>rq_header = \<lparr>timestamp = 0, data_count = 2\<rparr>, rq_items = [ram_item 200 50, cpu_item [Num 1]]\<rparr>"
      "new_computer 5" sample_env "Db_Ingestor \<lparr>tick = - 1, next_usage_push = - 5\<rparr>" 0]
  by (auto simp: item_safe_def ram_item_def cpu_item_def default_request_values_def ram_in_range_def in_i64_def)

end
