(* ===== verification/Fifo.thy ===== *)
theory Fifo
  imports Rms_Prelude
begin

text \<open>
  The interface of the two \<open>std::queue\<close> objects of the system: the responses the server
  holds for a client, and the requests the reporter holds for the server. Producers append,
  one consumer takes the front. The contract is stated over the contents of the queue; what
  clients need is that nothing is lost, duplicated or reordered under any interleaving.
\<close>

datatype 'x fifo_op = Put 'x | Take

text \<open>Running a sequence of operations, collecting what was taken.\<close>

fun fifo_run ::
  "('x \<Rightarrow> 'q \<Rightarrow> 'q) \<Rightarrow> ('q \<Rightarrow> ('x \<times> 'q) option) \<Rightarrow> 'x fifo_op list \<Rightarrow> 'q \<Rightarrow> 'x list \<times> 'q"
where
  "fifo_run put take_front [] q = ([], q)"
| "fifo_run put take_front (Put x # ops) q = fifo_run put take_front ops (put x q)"
| "fifo_run put take_front (Take # ops) q = (case take_front q of
     None \<Rightarrow> fifo_run put take_front ops q
   | Some (x, q') \<Rightarrow> (let (xs, q'') = fifo_run put take_front ops q' in (x # xs, q'')))"

fun produced :: "'x fifo_op list \<Rightarrow> 'x list" where
  "produced [] = []"
| "produced (Put x # ops) = x # produced ops"
| "produced (Take # ops) = produced ops"

locale fifo =
  fixes put :: "'x \<Rightarrow> 'q \<Rightarrow> 'q"
    and take_front :: "'q \<Rightarrow> ('x \<times> 'q) option"
    and contents :: "'q \<Rightarrow> 'x list"
  assumes contents_put: "contents (put x q) = contents q @ [x]"
    and take_None: "take_front q = None \<longleftrightarrow> contents q = []"
    and take_Some: "take_front q = Some (x, q') \<Longrightarrow> contents q = x # contents q'"
begin

lemma run_conserves:
  "fifo_run put take_front ops q = (xs, q') \<Longrightarrow> xs @ contents q' = contents q @ produced ops"
proof (induction ops arbitrary: q xs)
  case (Cons op ops)
  show ?case
  proof (cases op)
    case (Put x)
    with Cons show ?thesis by (fastforce simp: contents_put)
  next
    case Take
    show ?thesis
    proof (cases "take_front q")
      case None
      with Take Cons show ?thesis by simp
    next
      case (Some p)
      obtain x r where p: "p = (x, r)" by (cases p)
      from Take Some p Cons.prems obtain ys where ys: "fifo_run put take_front ops r = (ys, q')" "xs = x # ys"
        by (auto split: prod.splits)
      from Cons.IH [OF ys(1)] Some p ys(2) Take show ?thesis
        by (simp add: take_Some)
    qed
  qed
qed simp

text \<open>Taking until the queue is empty yields the contents in order.\<close>

lemma take_contents: "contents q = x # xs \<Longrightarrow> \<exists>q'. take_front q = Some (x, q') \<and> contents q' = xs"
  using take_None [of q] take_Some [of q] by (cases "take_front q") fastforce+

end

end
