(* ===== verification/Rms_Client.thy ===== *)
theory Rms_Client
  imports Rms_Ingestor Fifo
begin

text \<open>
  \<open>RmsClient\<close> (\<open>server/src/rms_client.cpp\<close>): the service object of one connection, with the
  computer that the handshake creates and the queue of responses waiting for the next
  report. The queue interprets the FIFO contract.
\<close>

section \<open>State\<close>

record RmsClient =
  computer :: "RmsComputer option"
  response_queue :: "RmsResponseData list"

definition new_client :: RmsClient where
  "new_client = \<lparr>computer = None, response_queue = []\<rparr>"

section \<open>Operations\<close>

definition addResponse :: "RmsResponseData \<Rightarrow> RmsClient \<Rightarrow> RmsClient" where
  "addResponse res cl = cl\<lparr>response_queue := response_queue cl @ [res]\<rparr>"

text \<open>\<open>front()\<close> and \<open>pop()\<close> of a queue that is not empty.\<close>

definition take_response :: "RmsClient \<Rightarrow> (RmsResponseData \<times> RmsClient) option" where
  "take_response cl = (case response_queue cl of
     [] \<Rightarrow> None | r # rs \<Rightarrow> Some (r, cl\<lparr>response_queue := rs\<rparr>))"

interpretation responses: fifo addResponse take_response response_queue
proof
  fix q x and q' :: RmsClient
  assume "take_response q = Some (x, q')"
  then show "response_queue q = x # response_queue q'"
    by (auto simp: take_response_def split: list.splits)
qed (auto simp: addResponse_def take_response_def split: list.splits)

definition getId :: "RmsClient \<Rightarrow> int res" where
  "getId cl = (case computer cl of None \<Rightarrow> Inl Null_Deref | Some c \<Rightarrow> Inr (computer_id c))"

definition getName :: "RmsClient \<Rightarrow> string res" where
  "getName cl = (case computer cl of None \<Rightarrow> Inl Null_Deref | Some c \<Rightarrow> Inr (host_name (sys_info c)))"

definition getComputerAsString :: "(VersionData \<Rightarrow> string) \<Rightarrow> RmsClient \<Rightarrow> string res" where
  "getComputerAsString show_version cl = (case computer cl of
     None \<Rightarrow> Inl Null_Deref | Some c \<Rightarrow> Inr (toString show_version c))"

definition insert_executor_query :: "'w env \<Rightarrow> int \<Rightarrow> int \<Rightarrow> string \<Rightarrow> string" where
  "insert_executor_query env cid now cmd =
     fmt_query env RMS_DB_INSERT_EXECUTOR_TABLE [FInt cid, FInt now, FStr cmd]"

definition command_response :: "int \<Rightarrow> string \<Rightarrow> RmsResponseData" where
  "command_response i cmd =
     \<lparr>rs_data_type = kRunCommand,
      rs_data = default_response_values\<lparr>rsv_command := \<lparr>cmd_command = cmd, cmd_id = i\<rparr>\<rparr>\<rparr>"

definition runCommand :: "'w env \<Rightarrow> string \<Rightarrow> RmsClient \<Rightarrow> 'w \<Rightarrow> unit res \<times> RmsClient \<times> 'w" where
  "runCommand env cmd cl w = (case getId cl of
     Inl e \<Rightarrow> (Inl e, cl, w)
   | Inr cid \<Rightarrow>
       (let (now, w1) = time_now env w
        in run_query env (insert_executor_query env cid now cmd) True cl w1 (\<lambda>res w2.
          if success res then
            (case last_id res of
               None \<Rightarrow> (Inl Indeterminate_Value, cl, w2)
             | Some i \<Rightarrow> (Inr (), addResponse (command_response i cmd) cl, w2))
          else (Inr (), cl, w2))))"

text \<open>Running an operation of the computer, and keeping what it did to the object.\<close>

definition on_computer ::
  "RmsClient \<Rightarrow> 'a res \<times> RmsComputer \<times> 'w \<Rightarrow> (RmsComputer \<Rightarrow> RmsClient \<Rightarrow> 'w \<Rightarrow> 'b res \<times> RmsClient \<times> 'w) \<Rightarrow>
     'b res \<times> RmsClient \<times> 'w"
where
  "on_computer cl out k = (case out of
     (Inl e, c, w) \<Rightarrow> (Inl e, cl\<lparr>computer := Some c\<rparr>, w)
   | (Inr _, c, w) \<Rightarrow> k c (cl\<lparr>computer := Some c\<rparr>) w)"

lemma on_computer_simps [simp]:
  "on_computer cl (Inl e, c, w) k = (Inl e, cl\<lparr>computer := Some c\<rparr>, w)"
  "on_computer cl (Inr x, c, w) k = k c (cl\<lparr>computer := Some c\<rparr>) w"
  by (simp_all add: on_computer_def)

definition handshake :: "'w env \<Rightarrow> int \<Rightarrow> SystemInfo \<Rightarrow> RmsClient \<Rightarrow> 'w \<Rightarrow> int res \<times> RmsClient \<times> 'w" where
  "handshake env i info cl w =
     (if i \<noteq> - 1 then
        on_computer cl (getFromDB env (new_computer i) w) (\<lambda>c1 cl1 w1.
          on_computer cl1 (updateDB env (setSysInfo info c1) w1) (\<lambda>c2 cl2 w2.
            (Inr (computer_id c2), cl2, w2)))
      else
        on_computer cl (addToDB env (setSysInfo info (new_computer i)) w) (\<lambda>c1 cl1 w1.
          (Inr (computer_id c1), cl1, w1)))"

definition sendSysInfo :: "'w env \<Rightarrow> SystemInfo \<Rightarrow> RmsClient \<Rightarrow> 'w \<Rightarrow> unit res \<times> RmsClient \<times> 'w" where
  "sendSysInfo env info cl w = (case computer cl of
     None \<Rightarrow> (Inl Null_Deref, cl, w)
   | Some c \<Rightarrow> on_computer cl (updateDB env (setSysInfo info c) w) (\<lambda>c1 cl1 w1. (Inr (), cl1, w1)))"

text \<open>What the server prints of the output of a command.\<close>

definition reportExecutorData :: "ExecutorData \<Rightarrow> string" where
  "reportExecutorData data = ed_stdout data @ endl"

text \<open>The loop of \<open>report\<close> that moves the queue into the response. The 32-bit counter is not
  wrapped: that would take \<open>2 ^ 31\<close> queued responses.\<close>

definition push_response :: "RmsResponseData \<Rightarrow> RmsResponse \<Rightarrow> RmsResponse" where
  "push_response r res =
     res\<lparr>rs_header := (rs_header res)\<lparr>data_count := data_count (rs_header res) + 1\<rparr>,
         rs_items := rs_items res @ [r]\<rparr>"

function drain :: "RmsResponse \<Rightarrow> RmsClient \<Rightarrow> RmsResponse \<times> RmsClient" where
  "drain res cl = (case take_response cl of
     None \<Rightarrow> (res, cl)
   | Some (r, cl') \<Rightarrow> drain (push_response r res) cl')"
  by pat_completeness auto
termination
  by (relation "measure (\<lambda>(res, cl). length (response_queue cl))")
    (auto simp: take_response_def split: list.splits)

declare drain.simps [simp del]

definition report ::
  "'w env \<Rightarrow> RmsRequest \<Rightarrow> RequestIngestor \<Rightarrow> RmsClient \<Rightarrow> 'w \<Rightarrow>
     RmsResponse res \<times> RequestIngestor \<times> RmsClient \<times> 'w"
where
  "report env req ing cl w =
     (let (now, w1) = time_now env w;
          (res, cl1) = drain \<lparr>rs_header = \<lparr>timestamp = now, data_count = 0\<rparr>, rs_items = []\<rparr> cl;
          (r, ing1, computer1, w2) = ingestRequest env req ing (computer cl1) w1
      in ((case r of Inl e \<Rightarrow> Inl e | Inr _ \<Rightarrow> Inr res), ing1, cl1\<lparr>computer := computer1\<rparr>, w2))"

section \<open>The response queue\<close>

lemma drain_fifo:
  "drain res cl =
     (\<lparr>rs_header = (rs_header res)\<lparr>data_count := data_count (rs_header res) + int (length (response_queue cl))\<rparr>,
       rs_items = rs_items res @ fst (fifo_run addResponse take_response (replicate (length (response_queue cl)) Take) cl)\<rparr>,
      snd (fifo_run addResponse take_response (replicate (length (response_queue cl)) Take) cl))"
proof (induction "response_queue cl" arbitrary: res cl)
  case Nil
  then have "take_response cl = None" by (simp add: responses.take_None)
  then show ?case using Nil [symmetric] by (subst drain.simps) simp
next
  case (Cons x xs)
  obtain cl' where t: "take_response cl = Some (x, cl')" "response_queue cl' = xs"
    using responses.take_contents [OF Cons.hyps(2) [symmetric]] by blast
  show ?case
    using Cons.hyps(1) [of cl' "push_response x res"] t Cons.hyps(2) [symmetric]
    by (subst drain.simps) (simp add: push_response_def case_prod_beta)
qed

lemma take_all:
  "length (response_queue cl) = n \<Longrightarrow>
     fifo_run addResponse take_response (replicate n Take) cl = (response_queue cl, cl\<lparr>response_queue := []\<rparr>)"
proof (induction n arbitrary: cl)
  case (Suc n)
  then obtain x xs where q: "response_queue cl = x # xs" by (cases "response_queue cl") auto
  have "fifo_run addResponse take_response (replicate n Take) (cl\<lparr>response_queue := xs\<rparr>) = (xs, cl\<lparr>response_queue := []\<rparr>)"
    using Suc.IH [of "cl\<lparr>response_queue := xs\<rparr>"] Suc.prems q by simp
  moreover have "take_response cl = Some (x, cl\<lparr>response_queue := xs\<rparr>)"
    using q by (simp add: take_response_def)
  ultimately show ?case using q by simp
qed simp

lemma drain_all:
  "drain res cl =
     (\<lparr>rs_header = (rs_header res)\<lparr>data_count := data_count (rs_header res) + int (length (response_queue cl))\<rparr>,
       rs_items = rs_items res @ response_queue cl\<rparr>, cl\<lparr>response_queue := []\<rparr>)"
  using drain_fifo [of res cl] take_all [of cl "length (response_queue cl)"] by simp

text \<open>
  A report that succeeds carries every queued response, in the order in which they
  were queued, with the number of them in its header and the current time as time stamp,
  and leaves the queue empty. When ingesting the request fails, the call fails too and the
  responses that were queued are lost.
\<close>

theorem report_delivers_queue:
  assumes "time_now env w = (now, w0)" "report env req ing cl w = (r, ing', cl', w')"
  shows "response_queue cl' = [] \<and>
    (\<forall>res. r = Inr res \<longrightarrow> rs_items res = response_queue cl \<and>
       rs_header res = \<lparr>timestamp = now, data_count = int (length (response_queue cl))\<rparr>)"
proof -
  obtain x ing1 c1 w1 where "ingestRequest env req ing (computer cl) w0 = (x, ing1, c1, w1)"
    by (metis prod_cases4)
  with assms show ?thesis by (cases x) (auto simp: report_def drain_all)
qed

theorem report_delivers_queue_witness:
  "\<exists>res ing' cl' w'. report sample_env \<lparr>rq_header = \<lparr>timestamp = 0, data_count = 0\<rparr>, rq_items = []\<rparr> LogRequestIngestor
      (addResponse (command_response 4 ''ls'') new_client) 0 = (Inr res, ing', cl', w') \<and>
     rs_items res = [command_response 4 ''ls''] \<and> response_queue cl' = []"
proof -
  let ?req = "\<lparr>rq_header = \<lparr>timestamp = 0, data_count = 0\<rparr>, rq_items = []\<rparr>"
  let ?cl = "addResponse (command_response 4 ''ls'') new_client"
  obtain r ing' cl' w' where e: "report sample_env ?req LogRequestIngestor ?cl 0 = (r, ing', cl', w')"
    by (metis prod_cases4)
  have "\<exists>res. r = Inr res" using e by (auto simp: report_def ingestRequest_def case_prod_beta sample_env_def)
  then obtain res where r: "r = Inr res" ..
  have t: "time_now sample_env 0 = (0, 0)" by (simp add: sample_env_def)
  from report_delivers_queue [OF t e] e r show ?thesis by (auto simp: addResponse_def new_client_def)
qed

text \<open>
  Over the life of a connection no response is lost, duplicated or reordered: under
  any interleaving of producers and takes, what was taken followed by what is still queued
  is what was queued before followed by what was added.
\<close>

theorem response_queue_conserves:
  "fst (fifo_run addResponse take_response ops cl) @ response_queue (snd (fifo_run addResponse take_response ops cl)) =
     response_queue cl @ produced ops"
  by (rule responses.run_conserves) simp

section \<open>Commands\<close>

text \<open>
  Running a command on a connected computer stores an executor and queues exactly one
  response, which carries the command and the id of the stored executor; when the INSERT
  fails the command is dropped and nothing is queued. Before the handshake the call
  dereferences a null pointer.
\<close>

theorem runCommand_outcome:
  assumes "computer cl = Some c" "time_now env w = (now, w1)"
    and "execute_query env (insert_executor_query env (computer_id c) now cmd) True w1 = (Inr r, w2)"
    and "success r \<Longrightarrow> last_id r \<noteq> None"
  shows "runCommand env cmd cl w =
      (Inr (), if success r then addResponse (command_response (the (last_id r)) cmd) cl else cl, w2) \<and>
    runCommand env cmd (cl\<lparr>computer := None\<rparr>) w = (Inl Null_Deref, cl\<lparr>computer := None\<rparr>, w)"
  using assms by (auto simp: runCommand_def getId_def)

theorem runCommand_outcome_witness:
  "\<exists>w'. runCommand sample_env ''ls'' \<lparr>computer = Some (new_computer 5), response_queue = []\<rparr> 0 =
     (Inr (), \<lparr>computer = Some (new_computer 5), response_queue = [command_response 7 ''ls'']\<rparr>, w')"
  using runCommand_outcome [of "\<lparr>computer = Some (new_computer 5), response_queue = []\<rparr>" "new_computer 5" sample_env 0 0 0
      "''ls''" sample_result 1]
  by (simp add: sample_env_def sample_result_def addResponse_def)

section \<open>The handshake\<close>

lemma getFromDB_traced_unknown:
  assumes "execute_query env (fmt_query env RMS_DB_FETCH_COMPUTER_BY_ID [FInt (computer_id c)]) False w = (Inr r, w1)"
    and "computer_id c \<noteq> - 1" "success r" "table_rows r = []"
  shows "getFromDB (traced env) c (w, l) =
    addToDB (traced env) c (w1, l @ [fmt_query env RMS_DB_FETCH_COMPUTER_BY_ID [FInt (computer_id c)]])"
  using assms by (simp add: getFromDB_def)

text \<open>
  The handshake of a new client (id \<open>- 1\<close>), when the inserts succeed, stores the
  reported computer and one row per distinct reported device, and answers with the id the
  database gave to the computer, which is the id of the connection from then on.
\<close>

theorem handshake_new_client:
  assumes "inserts_succeed env"
  shows "\<exists>i ids w' c'. handshake (traced env) (- 1) info cl (w, l) =
      (Inr i, cl\<lparr>computer := Some c'\<rparr>,
       (w', l @ insert_computer_query env (info\<lparr>sys_network_info := [], sys_storage_info := []\<rparr>) #
              map (insert_storage_query env i) (fold add_storage (sys_storage_info info) []))) \<and>
    computer_id c' = i \<and> getId (cl\<lparr>computer := Some c'\<rparr>) = Inr i \<and>
    length ids = length (fold add_storage (sys_storage_info info) []) \<and>
    storage_info c' = map2 stored_with (fold add_storage (sys_storage_info info) []) ids"
proof -
  let ?c = "setSysInfo info (new_computer (- 1))"
  obtain i ids w' where a: "length ids = length (storage_info ?c)"
    "addToDB (traced env) ?c (w, l) =
      (Inr True, ?c\<lparr>computer_id := i, storage_info := map2 stored_with (storage_info ?c) ids\<rparr>,
       (w', l @ insert_computer_query env (sys_info ?c) # map (insert_storage_query env i) (storage_info ?c)))"
    using addToDB_trace [OF assms] by blast
  have "storage_info (new_computer (- 1)) = []" by (simp add: new_computer_def)
  with a show ?thesis
    by (intro exI [of _ i] exI [of _ ids] exI [of _ w'] exI [of _ "?c\<lparr>computer_id := i, storage_info := map2 stored_with (storage_info ?c) ids\<rparr>"])
      (simp add: handshake_def getId_def)
qed

theorem handshake_new_client_witness:
  "\<exists>i w' c'. handshake (traced sample_env) (- 1) sample_info new_client (0, []) =
      (Inr i, \<lparr>computer = Some c', response_queue = []\<rparr>, w') \<and> computer_id c' = i"
  using handshake_new_client [OF sample_env_inserts, of sample_info new_client 0 "[]"]
  by (auto simp: new_client_def)

text \<open>
  A client whose id the database does not know is provisioned anew, but from a blank
  record: the INSERT stores default system information, the reported information follows
  in an UPDATE, and the reported devices are never inserted; the client gets a new id.
\<close>

theorem handshake_unknown_id:
  assumes "inserts_succeed env" "all_succeed env" "i \<noteq> - 1" "to_i32 i \<noteq> - 1"
    and "execute_query env (fmt_query env RMS_DB_FETCH_COMPUTER_BY_ID [FInt (to_i32 i)]) False w = (Inr r, w1)"
    and "table_rows r = []" "success r"
    and "\<And>q w x w'. execute_query env q True w = (Inr x, w') \<Longrightarrow> last_id x \<noteq> Some (- 1)"
  shows "\<exists>n w' c' stmts. handshake (traced env) i info cl (w, l) =
      (Inr n, cl\<lparr>computer := Some c'\<rparr>,
       (w', l @ [fmt_query env RMS_DB_FETCH_COMPUTER_BY_ID [FInt (to_i32 i)], insert_computer_query env default_system_info] @ stmts)) \<and>
    (\<forall>q \<in> set stmts. (\<exists>si. q = update_computer_query env si n) \<or> (\<exists>dev. q = update_storage_query env dev \<and> storage_info_id dev = - 1))"
proof -
  let ?f = "fmt_query env RMS_DB_FETCH_COMPUTER_BY_ID [FInt (to_i32 i)]"
  let ?c = "new_computer i"
  have c: "computer_id ?c = to_i32 i" "sys_info ?c = default_system_info" "storage_info ?c = []"
    by (simp_all add: new_computer_def)
  have g: "getFromDB (traced env) ?c (w, l) = addToDB (traced env) ?c (w1, l @ [?f])"
    using getFromDB_traced_unknown [of env ?c w r w1 l] assms(4-7) c by simp
  obtain x w2 n where ins: "execute_query env (insert_computer_query env default_system_info) True w1 = (Inr x, w2)"
      "success x" "last_id x = Some n"
    using assms(1) unfolding inserts_succeed_def by blast
  with assms(8) have n: "n \<noteq> - 1" by blast
  let ?c1 = "?c\<lparr>computer_id := n\<rparr>"
  have a: "addToDB (traced env) ?c (w1, l @ [?f]) = (Inr True, ?c1, (w2, l @ [?f, insert_computer_query env default_system_info]))"
    using ins c by (simp add: addToDB_def new_computer_def)
  let ?c2 = "setSysInfo info ?c1"
  obtain w3 where u: "updateDB (traced env) ?c2 (w2, l @ [?f, insert_computer_query env default_system_info]) =
      (Inr True, ?c2\<lparr>sys_info_dirty := False, storage_info := map (\<lambda>d. d\<lparr>dirty := False\<rparr>) (storage_info ?c2)\<rparr>,
       (w3, (l @ [?f, insert_computer_query env default_system_info]) @ updateDB_statements env ?c2))"
    using updateDB_trace [OF assms(2), of ?c2 w2 "l @ [?f, insert_computer_query env default_system_info]"] n by auto
  have ids: "storage_info_id d = - 1" if "d \<in> set (storage_info ?c2)" for d
  proof -
    have "d \<in> set (fold add_storage (sys_storage_info info) [])" using that c by simp
    then show ?thesis
      by (rule storage_ids_fresh)
  qed
  have "\<forall>q \<in> set (updateDB_statements env ?c2). (\<exists>si. q = update_computer_query env si n) \<or>
      (\<exists>dev. q = update_storage_query env dev \<and> storage_info_id dev = - 1)"
    using ids by (auto simp: updateDB_statements_def)
  with g a u assms(3) show ?thesis
    by (intro exI [of _ n] exI [of _ w3]
        exI [of _ "?c2\<lparr>sys_info_dirty := False, storage_info := map (\<lambda>d. d\<lparr>dirty := False\<rparr>) (storage_info ?c2)\<rparr>"]
        exI [of _ "updateDB_statements env ?c2"]) (simp add: handshake_def)
qed

theorem handshake_unknown_id_witness:
  "\<exists>n w' c' stmts. handshake (traced sample_env) 5 sample_info new_client (0, []) =
      (Inr n, new_client\<lparr>computer := Some c'\<rparr>,
       (w', [fmt_query sample_env RMS_DB_FETCH_COMPUTER_BY_ID [FInt 5], insert_computer_query sample_env default_system_info] @ stmts))"
proof -
  have five: "to_i32 5 = 5" by (simp add: in_i32_def)
  have "execute_query sample_env (fmt_query sample_env RMS_DB_FETCH_COMPUTER_BY_ID [FInt (to_i32 5)]) False 0 = (Inr sample_result, 1)"
    by (simp add: sample_env_def)
  from handshake_unknown_id [OF sample_env_inserts sample_env_succeeds _ _ this, of sample_info new_client "[]"]
  show ?thesis unfolding five by (auto simp: sample_result_def sample_env_def)
qed

text \<open>
  In the configuration \<open>log\<close>, where the server has no database, every handshake of a
  new or of a known client dereferences a null pointer.
\<close>

theorem handshake_without_database:
  assumes "i = - 1 \<or> to_i32 i \<noteq> - 1"
  shows "fst (handshake (null_database env) i info cl w) = Inl Null_Deref"
proof (cases "i = - 1")
  case True
  then show ?thesis by (simp add: handshake_def addToDB_def null_database_def run_query_def)
next
  case False
  with assms show ?thesis
    by (simp add: handshake_def getFromDB_def null_database_def run_query_def new_computer_def)
qed

theorem handshake_without_database_witness:
  "fst (handshake (null_database sample_env) (- 1) sample_info new_client 0) = Inl Null_Deref"
  by (rule handshake_without_database) simp

end
