(* ===== verification/Rms_Config.thy ===== *)
theory Rms_Config
  imports Cpp_Text
begin

text \<open>
  \<open>RmsConfig\<close> (\<open>common/src/rms_config.cpp\<close>), the configuration both programs share: a static
  map from keys to values and the path it was loaded from. The map is a \<open>std::unordered_map\<close>:
  the order in which \<open>save\<close> walks it is a parameter. A file system is a partial map from
  paths to contents, with the paths that can be opened for writing.
\<close>

section \<open>State\<close>

record RmsConfig =
  config :: "string \<rightharpoonup> string"
  config_path :: string

definition initial_config :: RmsConfig where
  "initial_config = \<lparr>config = Map.empty, config_path = []\<rparr>"

record file_system =
  files :: "string \<rightharpoonup> string"
  writable :: "string \<Rightarrow> bool"

text \<open>The keys the programs look up.\<close>

definition RMS_REPORTER_CONFIG_COMPUTER_ID :: string where
  "RMS_REPORTER_CONFIG_COMPUTER_ID = ''computer_id''"

definition RMS_REPORTER_CONFIG_SERVER_IP :: string where
  "RMS_REPORTER_CONFIG_SERVER_IP = ''server_ip''"

definition RMS_REPORTER_CONFIG_SERVER_PORT :: string where
  "RMS_REPORTER_CONFIG_SERVER_PORT = ''server_port''"

definition RMS_REPORTER_CONFIG_TIMEOUT :: string where
  "RMS_REPORTER_CONFIG_TIMEOUT = ''timeout''"

definition RMS_REPORTER_CONFIG_PING_TIMEOUT :: string where
  "RMS_REPORTER_CONFIG_PING_TIMEOUT = ''ping_timeout''"

definition RMS_REPORTER_CONFIG_EXECUTOR_SHELL :: string where
  "RMS_REPORTER_CONFIG_EXECUTOR_SHELL = ''shell''"

definition RMS_SERVER_CONFIG_DB_TYPE :: string where
  "RMS_SERVER_CONFIG_DB_TYPE = ''db_type''"

definition RMS_SERVER_CONFIG_SQLITE_DB_PATH :: string where
  "RMS_SERVER_CONFIG_SQLITE_DB_PATH = ''db_path''"

lemmas config_keys =
  RMS_REPORTER_CONFIG_COMPUTER_ID_def RMS_REPORTER_CONFIG_SERVER_IP_def
  RMS_REPORTER_CONFIG_SERVER_PORT_def RMS_REPORTER_CONFIG_TIMEOUT_def
  RMS_REPORTER_CONFIG_PING_TIMEOUT_def RMS_REPORTER_CONFIG_EXECUTOR_SHELL_def
  RMS_SERVER_CONFIG_DB_TYPE_def RMS_SERVER_CONFIG_SQLITE_DB_PATH_def

section \<open>Reading a floating-point number\<close>

text \<open>
  \<open>std::stod\<close>: an optional sign, then an infinity, a NaN, or a decimal or hexadecimal number
  with an optional fraction and exponent; what follows is ignored. The value is exact here
  and the magnitude is checked against the range of normal doubles.
\<close>

definition hex_val :: "char \<Rightarrow> nat option" where
  "hex_val c =
     (if is_digit c then Some (digit_val c)
      else if CHR ''a'' \<le> c \<and> c \<le> CHR ''f'' then Some (of_char c - 87)
      else if CHR ''A'' \<le> c \<and> c \<le> CHR ''F'' then Some (of_char c - 55)
      else None)"

definition digit_of :: "nat \<Rightarrow> char \<Rightarrow> nat option" where
  "digit_of base c = (case hex_val c of None \<Rightarrow> None | Some d \<Rightarrow> if d < base then Some d else None)"

definition is_digit_of :: "nat \<Rightarrow> char \<Rightarrow> bool" where
  "is_digit_of base c \<longleftrightarrow> digit_of base c \<noteq> None"

definition digits_of :: "nat \<Rightarrow> string \<Rightarrow> nat" where
  "digits_of base ds = foldl (\<lambda>a c. base * a + the (digit_of base c)) 0 ds"

definition fold_case :: "char \<Rightarrow> char" where
  "fold_case c = (if CHR ''A'' \<le> c \<and> c \<le> CHR ''Z'' then char_of (of_char c + 32 :: nat) else c)"

text \<open>The exponent after the mantissa: zero when the marker is not followed by a number.\<close>

definition exponent :: "char \<Rightarrow> string \<Rightarrow> int" where
  "exponent marker s = (case s of
     [] \<Rightarrow> 0
   | c # r \<Rightarrow> if fold_case c = marker then
       (case fst (int_field r) of None \<Rightarrow> 0 | Some e \<Rightarrow> e) else 0)"

definition scale :: "real \<Rightarrow> real \<Rightarrow> int \<Rightarrow> real" where
  "scale b m e = (if e \<ge> 0 then m * b ^ nat e else m / b ^ nat (- e))"

definition mantissa :: "nat \<Rightarrow> string \<Rightarrow> (real \<times> string) option" where
  "mantissa base s =
     (let ds = takeWhile (is_digit_of base) s; r = dropWhile (is_digit_of base) s;
          (fs, r') = (case r of
             [] \<Rightarrow> ([], [])
           | c # t \<Rightarrow> if c = CHR ''.'' \<and> \<not> (ds = [] \<and> takeWhile (is_digit_of base) t = [])
                     then (takeWhile (is_digit_of base) t, dropWhile (is_digit_of base) t) else ([], r))
      in if ds = [] \<and> fs = [] then None
         else Some (real (digits_of base (ds @ fs)) / real base ^ length fs, r'))"

definition number :: "string \<Rightarrow> real option" where
  "number s =
     (let hex = (if map fold_case (take 2 s) = ''0x'' then mantissa 16 (drop 2 s) else None)
      in case hex of
           Some (m, r) \<Rightarrow> Some (scale 2 m (exponent (CHR ''p'') r))
         | None \<Rightarrow> (case mantissa 10 s of
             None \<Rightarrow> None
           | Some (m, r) \<Rightarrow> Some (scale 10 m (exponent (CHR ''e'') r))))"

definition dbl_neg :: "bool \<Rightarrow> dbl \<Rightarrow> dbl" where
  "dbl_neg neg d = (if neg then (case d of Num r \<Rightarrow> Num (- r) | PInf \<Rightarrow> NInf | NInf \<Rightarrow> PInf | NaN \<Rightarrow> NaN) else d)"

definition in_dbl_range :: "real \<Rightarrow> bool" where
  "in_dbl_range v \<longleftrightarrow> v = 0 \<or> 1 / 2 ^ 1022 \<le> v \<and> v < 2 ^ 1024 - 2 ^ 970"

definition stod :: "string \<Rightarrow> dbl res" where
  "stod s =
     (let (neg, t) = take_sign (skip_ws s); word = map fold_case (take 3 t)
      in if word = ''inf'' then Inr (dbl_neg neg PInf)
         else if word = ''nan'' then Inr NaN
         else (case number t of
             None \<Rightarrow> Inl Invalid_Argument
           | Some v \<Rightarrow> if in_dbl_range v then Inr (dbl_neg neg (Num v)) else Inl Out_Of_Range))"

text \<open>The conversion of a \<open>double\<close> to \<open>int\<close>: truncation, undefined when it does not fit.\<close>

definition truncate :: "real \<Rightarrow> int" where
  "truncate r = (if r < 0 then \<lceil>r\<rceil> else \<lfloor>r\<rfloor>)"

definition dbl_to_int :: "dbl \<Rightarrow> int res" where
  "dbl_to_int d = (case d of
     Num r \<Rightarrow> if in_i32 (truncate r) then Inr (truncate r) else Inl Bad_Conversion
   | _ \<Rightarrow> Inl Bad_Conversion)"

section \<open>Operations\<close>

text \<open>\<open>config_[key]\<close> inserts an empty value when the key is missing.\<close>

definition RmsConfig_find :: "string \<Rightarrow> RmsConfig \<Rightarrow> string \<times> RmsConfig" where
  "RmsConfig_find key cfg =
     (if config_path cfg \<noteq> [] then
        (case config cfg key of
           Some v \<Rightarrow> (v, cfg)
         | None \<Rightarrow> ([], cfg\<lparr>config := (config cfg)(key \<mapsto> [])\<rparr>))
      else ([], cfg))"

definition RmsConfig_findInt :: "string \<Rightarrow> RmsConfig \<Rightarrow> int res \<times> RmsConfig" where
  "RmsConfig_findInt key cfg =
     (let (str, cfg1) = RmsConfig_find key cfg
      in if str = [] then (Inr (- 1), cfg1) else (rbind (stod str) dbl_to_int, cfg1))"

definition config_line :: "string \<Rightarrow> string \<Rightarrow> string" where
  "config_line k v = k @ '' '' @ v"

definition save_text :: "((string \<rightharpoonup> string) \<Rightarrow> string list) \<Rightarrow> (string \<rightharpoonup> string) \<Rightarrow> string" where
  "save_text order m = concat (map (\<lambda>k. config_line k (the (m k)) @ [newline]) (order m))"

text \<open>Opening for writing truncates the file; a file that cannot be opened is left alone.\<close>

definition RmsConfig_save ::
  "((string \<rightharpoonup> string) \<Rightarrow> string list) \<Rightarrow> RmsConfig \<Rightarrow> file_system \<Rightarrow> file_system"
where
  "RmsConfig_save order cfg fs =
     (if writable fs (config_path cfg)
      then fs\<lparr>files := (files fs)(config_path cfg \<mapsto> save_text order (config cfg))\<rparr>
      else fs)"

text \<open>\<open>emplace\<close> keeps a value that is already there.\<close>

definition load_line :: "string \<Rightarrow> (string \<rightharpoonup> string) \<Rightarrow> (string \<rightharpoonup> string)" where
  "load_line line m =
     (let (k, st1) = extract_word (open_stream line); (v, st2) = extract_word st1;
          key = (case k of None \<Rightarrow> [] | Some w \<Rightarrow> w); value = (case v of None \<Rightarrow> [] | Some w \<Rightarrow> w)
      in if m key = None then m(key \<mapsto> value) else m)"

definition RmsConfig_load :: "string \<Rightarrow> RmsConfig \<Rightarrow> file_system \<Rightarrow> unit res \<times> RmsConfig" where
  "RmsConfig_load path cfg fs = (case files fs path of
     None \<Rightarrow> (Inl (Exit (- 1)), cfg\<lparr>config_path := []\<rparr>)
   | Some contents \<Rightarrow>
       (Inr (), cfg\<lparr>config_path := path, config := fold load_line (lines_of contents) (config cfg)\<rparr>))"

definition RmsConfig_replace :: "string \<Rightarrow> string \<Rightarrow> RmsConfig \<Rightarrow> RmsConfig" where
  "RmsConfig_replace key value cfg =
     (if config_path cfg = [] then cfg else cfg\<lparr>config := (config cfg)(key \<mapsto> value)\<rparr>)"

section \<open>What a file can hold\<close>

definition is_word :: "string \<Rightarrow> bool" where
  "is_word s \<longleftrightarrow> (\<forall>c \<in> set s. \<not> is_space c)"

lemma newline_space [simp]: "is_space newline"
  by (simp add: is_space_def newline_def)

lemma is_word_newline: "is_word s \<Longrightarrow> newline \<notin> set s"
  using newline_space by (auto simp: is_word_def)

text \<open>An entry that survives a line of the file: words, with a value only if there is a key.\<close>

definition entry_ok :: "string \<Rightarrow> string \<Rightarrow> bool" where
  "entry_ok k v \<longleftrightarrow> is_word k \<and> is_word v \<and> (k = [] \<longrightarrow> v = [])"

definition config_ok :: "(string \<rightharpoonup> string) \<Rightarrow> bool" where
  "config_ok m \<longleftrightarrow> (\<forall>k v. m k = Some v \<longrightarrow> entry_ok k v)"

lemma word_split:
  assumes "is_word w" "r = [] \<or> is_space (hd r)"
  shows "takeWhile (\<lambda>c. \<not> is_space c) (w @ r) = w" "dropWhile (\<lambda>c. \<not> is_space c) (w @ r) = r"
proof -
  have w: "\<And>c. c \<in> set w \<Longrightarrow> \<not> is_space c" using assms(1) by (simp add: is_word_def)
  have "takeWhile (\<lambda>c. \<not> is_space c) r = []" "dropWhile (\<lambda>c. \<not> is_space c) r = r"
    using assms(2) by (cases r; simp)+
  with w show "takeWhile (\<lambda>c. \<not> is_space c) (w @ r) = w" "dropWhile (\<lambda>c. \<not> is_space c) (w @ r) = r"
    by simp_all
qed

lemma skip_ws_is_word: "is_word w \<Longrightarrow> w \<noteq> [] \<Longrightarrow> skip_ws (w @ r) = w @ r"
  by (cases w) (simp_all add: is_word_def)

lemma extract_word_word:
  assumes "is_word w" "w \<noteq> []" "r = [] \<or> is_space (hd r)" "unread st = s @ w @ r"
    "\<forall>c \<in> set s. is_space c" "\<not> eofbit st" "\<not> failbit st"
  shows "extract_word st = (Some w, st\<lparr>unread := r, eofbit := (r = [])\<rparr>)"
proof -
  have "skip_ws (s @ w @ r) = skip_ws (w @ r)"
    using assms(5) by (induction s) auto
  then have "skip_ws (unread st) = w @ r"
    using skip_ws_is_word [OF assms(1,2)] assms(4) by simp
  with assms show ?thesis
    using word_split [OF assms(1,3)] by (simp add: extract_word_def sentry_def Let_def)
qed

lemma extract_word_blank:
  assumes "\<forall>c \<in> set (unread st). is_space c"
  shows "fst (extract_word st) = None"
proof -
  have "skip_ws (unread st) = []" using assms by (simp add: skip_ws_def)
  then show ?thesis by (auto simp: extract_word_def sentry_def Let_def)
qed

lemma load_line_fields:
  assumes "fst (extract_word (open_stream line)) = k" "fst (extract_word (snd (extract_word (open_stream line)))) = v"
  shows "load_line line m =
    (if m (case k of None \<Rightarrow> [] | Some w \<Rightarrow> w) = None
     then m((case k of None \<Rightarrow> [] | Some w \<Rightarrow> w) \<mapsto> (case v of None \<Rightarrow> [] | Some w \<Rightarrow> w)) else m)"
  using assms by (auto simp: load_line_def Let_def case_prod_beta)

lemma load_line_config_line:
  assumes "entry_ok k v"
  shows "load_line (config_line k v) m = (if m k = None then m(k \<mapsto> v) else m)"
proof (cases "k = []")
  case True
  have "unread (snd (extract_word (open_stream '' ''))) = []"
    by (simp add: extract_word_def sentry_def open_stream_def skip_ws_def is_space_def)
  then have "fst (extract_word (snd (extract_word (open_stream '' '')))) = None"
    by (intro extract_word_blank) simp
  moreover have "fst (extract_word (open_stream '' '')) = None"
    by (intro extract_word_blank) (simp add: open_stream_def is_space_def)
  ultimately show ?thesis
    using True assms load_line_fields [of "'' ''" None None m] by (simp add: config_line_def entry_ok_def)
next
  case False
  have sp: "is_space (CHR '' '')" by (simp add: is_space_def)
  have 1: "extract_word (open_stream (config_line k v)) = (Some k, (open_stream (config_line k v))\<lparr>unread := '' '' @ v, eofbit := False\<rparr>)"
    using extract_word_word [of k "'' '' @ v" "open_stream (config_line k v)" "[]"] assms False sp
    by (simp add: entry_ok_def open_stream_def config_line_def)
  show ?thesis
  proof (cases "v = []")
    case True
    then have "fst (extract_word ((open_stream (config_line k v))\<lparr>unread := '' '' @ v, eofbit := False\<rparr>)) = None"
      using sp by (intro extract_word_blank) simp
    with 1 True show ?thesis using load_line_fields [of "config_line k v" "Some k" None m] by simp
  next
    case v: False
    have "fst (extract_word ((open_stream (config_line k v))\<lparr>unread := '' '' @ v, eofbit := False\<rparr>)) = Some v"
      using extract_word_word [of v "[]" "(open_stream (config_line k v))\<lparr>unread := '' '' @ v, eofbit := False\<rparr>" "'' ''"] assms v sp
      by (simp add: entry_ok_def open_stream_def)
    with 1 show ?thesis using load_line_fields [of "config_line k v" "Some k" "Some v" m] by simp
  qed
qed

lemma load_saved_lines:
  assumes "\<forall>k \<in> set ks. \<exists>v. m k = Some v \<and> entry_ok k v"
  shows "fold load_line (lines_of (concat (map (\<lambda>k. config_line k (the (m k)) @ [newline]) ks))) m0 =
    (m |` set ks) ++ m0"
  using assms
proof (induction ks arbitrary: m0)
  case (Cons k ks)
  then obtain v where v: "m k = Some v" "entry_ok k v" by auto
  then have "newline \<notin> set (config_line k v)"
    using is_word_newline by (auto simp: config_line_def entry_ok_def newline_def)
  with Cons v show ?case
    by (auto simp: load_line_config_line map_add_def restrict_map_def fun_eq_iff split: option.splits)
qed simp

text \<open>The parser only produces entries that can be saved again.\<close>

lemma extract_word_is_word: "extract_word st = (Some w, st') \<Longrightarrow> is_word w \<and> w \<noteq> []"
proof -
  assume e: "extract_word st = (Some w, st')"
  let ?s = "unread (sentry st)"
  from e have f: "\<not> failbit (sentry st)" and w: "w = takeWhile (\<lambda>c. \<not> is_space c) ?s"
    by (auto simp: extract_word_def Let_def split: if_splits)
  have "?s = skip_ws (unread st)" "skip_ws (unread st) \<noteq> []"
    using f by (auto simp: sentry_def Let_def split: if_splits)
  then have "?s \<noteq> [] \<and> \<not> is_space (hd ?s)" by (simp add: skip_ws_def hd_dropWhile)
  with w show ?thesis by (cases ?s) (auto simp: is_word_def dest: set_takeWhileD)
qed

lemma extract_word_fail: "extract_word st = (None, st') \<Longrightarrow> fst (extract_word st') = None"
  by (auto simp: extract_word_def sentry_def Let_def split: if_splits)

lemma config_ok_load_line: "config_ok m \<Longrightarrow> config_ok (load_line line m)"
proof -
  assume m: "config_ok m"
  obtain k st1 where 1: "extract_word (open_stream line) = (k, st1)" by fastforce
  obtain v st2 where 2: "extract_word st1 = (v, st2)" by fastforce
  have "entry_ok (case k of None \<Rightarrow> [] | Some w \<Rightarrow> w) (case v of None \<Rightarrow> [] | Some w \<Rightarrow> w)"
  proof (cases k)
    case None
    with 1 extract_word_fail have "fst (extract_word st1) = None" by fast
    with 2 None show ?thesis by (simp add: entry_ok_def is_word_def)
  next
    case (Some w)
    with 1 extract_word_is_word have w: "is_word w" "w \<noteq> []" by fast+
    have "is_word (case v of None \<Rightarrow> [] | Some w \<Rightarrow> w)"
      using 2 extract_word_is_word [of st1] by (cases v) (auto simp: is_word_def)
    with w Some show ?thesis by (simp add: entry_ok_def)
  qed
  with m 1 2 show ?thesis by (auto simp: load_line_def config_ok_def Let_def)
qed

lemma config_ok_fold: "config_ok m \<Longrightarrow> config_ok (fold load_line ls m)"
  by (induction ls arbitrary: m) (simp_all add: config_ok_load_line)

section \<open>Sessions\<close>

text \<open>What a program does with its configuration between loading and saving it.\<close>

datatype config_op = Find_Key string | Replace_Key string string

fun config_step :: "config_op \<Rightarrow> RmsConfig \<Rightarrow> RmsConfig" where
  "config_step (Find_Key k) cfg = snd (RmsConfig_find k cfg)"
| "config_step (Replace_Key k v) cfg = RmsConfig_replace k v cfg"

fun op_ok :: "config_op \<Rightarrow> bool" where
  "op_ok (Find_Key k) = is_word k"
| "op_ok (Replace_Key k v) = entry_ok k v"

lemma config_step_ok: "op_ok op \<Longrightarrow> config_ok (config cfg) \<Longrightarrow> config_ok (config (config_step op cfg))"
  by (cases op)
    (auto simp: RmsConfig_find_def RmsConfig_replace_def config_ok_def entry_ok_def is_word_def split: option.splits)

lemma config_step_path [simp]: "config_path (config_step op cfg) = config_path cfg"
  by (cases op) (auto simp: RmsConfig_find_def RmsConfig_replace_def split: option.splits)

lemma config_session_ok:
  "\<forall>op \<in> set ops. op_ok op \<Longrightarrow> config_ok (config cfg) \<Longrightarrow> config_ok (config (fold config_step ops cfg))"
  by (induction ops arbitrary: cfg) (auto intro: config_step_ok)

lemma config_session_path [simp]: "config_path (fold config_step ops cfg) = config_path cfg"
  by (induction ops arbitrary: cfg) simp_all

lemma saved_config_loads:
  assumes "config_ok (config cfg)" "config_path cfg = path" "writable fs path"
    and "set (order (config cfg)) = dom (config cfg)"
  shows "RmsConfig_load path initial_config (RmsConfig_save order cfg fs) = (Inr (), cfg)"
proof -
  have "\<forall>k \<in> set (order (config cfg)). \<exists>v. config cfg k = Some v \<and> entry_ok k v"
    using assms(1,4) by (auto simp: config_ok_def)
  from load_saved_lines [OF this, of Map.empty] assms(4)
  have "fold load_line (lines_of (save_text order (config cfg))) Map.empty = config cfg"
    by (simp add: save_text_def) (rule ext, simp add: restrict_map_def domIff)
  with assms(2,3) show ?thesis by (simp add: RmsConfig_load_def RmsConfig_save_def initial_config_def)
qed

text \<open>
  C12. A configuration survives a restart. Whatever the file contained when it was loaded,
  and in whatever order the map is walked, saving after any sequence of lookups and
  replacements by words writes a file that loads back to exactly the configuration in memory.
\<close>

theorem config_survives_restart:
  assumes "RmsConfig_load path initial_config fs = (Inr (), cfg0)" "\<forall>op \<in> set ops. op_ok op"
    and "cfg = fold config_step ops cfg0" "writable fs path"
    and "set (order (config cfg)) = dom (config cfg)"
  shows "RmsConfig_load path initial_config (RmsConfig_save order cfg fs) = (Inr (), cfg)"
proof (rule saved_config_loads)
  have c0: "config_path cfg0 = path" "config_ok (config cfg0)"
    using assms(1) config_ok_fold [of Map.empty]
    by (auto simp: RmsConfig_load_def initial_config_def config_ok_def split: option.splits)
  show "config_path cfg = path" using assms(3) c0(1) by simp
  show "config_ok (config cfg)" using assms(2,3) c0(2) config_session_ok by simp
qed (use assms in auto)

definition sample_fs :: file_system where
  "sample_fs = \<lparr>files = [''rms.cfg'' \<mapsto> ''computer_id -1'' @ [newline] @ ''timeout  5 seconds'' @ [newline]],
     writable = (\<lambda>_. True)\<rparr>"

lemma sample_fs_load:
  "RmsConfig_load ''rms.cfg'' initial_config sample_fs =
     (Inr (), \<lparr>config = [''computer_id'' \<mapsto> ''-1'', ''timeout'' \<mapsto> ''5''], config_path = ''rms.cfg''\<rparr>)"
proof -
  have "lines_of (''computer_id -1'' @ newline # ''timeout  5 seconds'' @ [newline]) =
      [''computer_id -1'', ''timeout  5 seconds'']"
    by (subst lines_of_line, simp add: newline_def)+ simp
  then show ?thesis
    by (simp add: RmsConfig_load_def sample_fs_def initial_config_def load_line_def extract_word_def sentry_def
        open_stream_def skip_ws_def is_space_def fun_eq_iff)
qed

theorem config_survives_restart_witness:
  "let cfg = \<lparr>config = [''computer_id'' \<mapsto> ''7'', ''timeout'' \<mapsto> ''5''], config_path = ''rms.cfg''\<rparr> in
   RmsConfig_load ''rms.cfg'' initial_config
     (RmsConfig_save (\<lambda>_. [''timeout'', ''computer_id'']) cfg sample_fs) = (Inr (), cfg)"
  unfolding Let_def
  by (rule config_survives_restart [OF sample_fs_load, where ops = "[Replace_Key ''computer_id'' ''7'']"])
    (auto simp: entry_ok_def is_word_def is_space_def RmsConfig_replace_def sample_fs_def fun_eq_iff)

section \<open>Which value a key has\<close>

text \<open>The entry of a line, as a pair.\<close>

definition line_entry :: "string \<Rightarrow> string \<times> string" where
  "line_entry line =
     (case fst (extract_word (open_stream line)) of None \<Rightarrow> [] | Some w \<Rightarrow> w,
      case fst (extract_word (snd (extract_word (open_stream line)))) of None \<Rightarrow> [] | Some w \<Rightarrow> w)"

lemma load_line_entry:
  "load_line line m = (case line_entry line of (k, v) \<Rightarrow> if m k = None then m(k \<mapsto> v) else m)"
  unfolding load_line_fields [OF refl refl] line_entry_def by simp

lemma fold_load_line: "fold load_line ls m = map_of (map line_entry ls) ++ m"
proof (induction ls arbitrary: m)
  case (Cons l ls)
  obtain k v where kv: "line_entry l = (k, v)" by fastforce
  have "fold load_line (l # ls) m = map_of (map line_entry ls) ++ load_line l m"
    using Cons.IH by simp
  also have "\<dots> = map_of (map line_entry (l # ls)) ++ m"
    using kv by (auto simp: load_line_entry map_add_def fun_eq_iff split: option.splits)
  finally show ?case .
qed simp

text \<open>
  Loading is first-wins: the value of a key after a load is the value it had before
  the load, else the value on the first line of the file with that key. A second line for
  a key, and a second load of a changed file, have no effect on a key that is present.
\<close>

theorem load_first_wins:
  assumes "files fs path = Some contents"
  shows "\<exists>cfg'. RmsConfig_load path cfg fs = (Inr (), cfg') \<and> config_path cfg' = path \<and>
    config cfg' = map_of (map line_entry (lines_of contents)) ++ config cfg"
  using assms by (simp add: RmsConfig_load_def fold_load_line)

theorem load_first_wins_witness:
  "\<exists>cfg'. RmsConfig_load ''rms.cfg'' (initial_config\<lparr>config := [''timeout'' \<mapsto> ''9'']\<rparr>) sample_fs = (Inr (), cfg') \<and>
     config cfg' ''timeout'' = Some ''9''"
  using load_first_wins [of sample_fs "''rms.cfg''" _ "initial_config\<lparr>config := [''timeout'' \<mapsto> ''9'']\<rparr>"]
  by (auto simp: sample_fs_def)

text \<open>
  A lookup of a missing key is not free of effects: it returns the empty string (not
  null, as the comments say), leaves every other key as it was, and adds the key, so that
  the next save writes a line for it.
\<close>

theorem find_missing_key:
  assumes "config_path cfg \<noteq> []" "config cfg k = None"
    and "set (order ((config cfg)(k \<mapsto> []))) = insert k (dom (config cfg))"
  shows "\<exists>cfg'. RmsConfig_find k cfg = ([], cfg') \<and> (\<forall>k'. k' \<noteq> k \<longrightarrow> config cfg' k' = config cfg k') \<and>
    (\<exists>pre post. save_text order (config cfg') = pre @ config_line k [] @ [newline] @ post)"
proof -
  let ?m = "(config cfg)(k \<mapsto> [])"
  have "k \<in> set (order ?m)" using assms(3) by simp
  then obtain xs ys where "order ?m = xs @ k # ys" by (meson split_list)
  then have "\<exists>pre post. save_text order ?m = pre @ config_line k [] @ [newline] @ post"
    by (intro exI [of _ "concat (map (\<lambda>k. config_line k (the (?m k)) @ [newline]) xs)"]
        exI [of _ "concat (map (\<lambda>k. config_line k (the (?m k)) @ [newline]) ys)"]) (simp add: save_text_def)
  with assms(1,2) show ?thesis by (simp add: RmsConfig_find_def)
qed

theorem find_missing_key_witness:
  "\<exists>cfg' pre post. RmsConfig_find ''shell'' \<lparr>config = [''timeout'' \<mapsto> ''5''], config_path = ''rms.cfg''\<rparr> = ([], cfg') \<and>
     save_text (\<lambda>_. [''timeout'', ''shell'']) (config cfg') = pre @ ''shell '' @ [newline] @ post"
  using find_missing_key [of "\<lparr>config = [''timeout'' \<mapsto> ''5''], config_path = ''rms.cfg''\<rparr>" "''shell''" "\<lambda>_. [''timeout'', ''shell'']"]
  by (auto simp: config_line_def)

section \<open>Integer values\<close>

lemma is_digit_of_10: "is_digit_of 10 c \<longleftrightarrow> is_digit c"
  by (auto simp: is_digit_of_def digit_of_def hex_val_def is_digit_def digit_val_def
      less_eq_char_def split: if_splits)

lemma digits_of_10:
  assumes "\<forall>c \<in> set ds. is_digit c"
  shows "digits_of 10 ds = digits_value ds"
proof -
  have "foldl (\<lambda>a c. 10 * a + the (digit_of 10 c)) n ds = foldl (\<lambda>a c. 10 * a + digit_val c) n ds" for n
    using assms
  proof (induction ds arbitrary: n)
    case (Cons c ds)
    then have "digit_of 10 c = Some (digit_val c)"
      by (auto simp: digit_of_def hex_val_def is_digit_def digit_val_def)
    with Cons show ?case by simp
  qed simp
  then show ?thesis by (simp add: digits_of_def digits_value_def)
qed

lemma number_nat_string: "number (nat_string n) = Some (real n)"
proof -
  let ?s = "nat_string n"
  have d: "\<forall>c \<in> set ?s. is_digit c" by (rule nat_string_digits)
  have "map fold_case (take 2 ?s) \<noteq> ''0x''"
  proof
    assume "map fold_case (take 2 ?s) = ''0x''"
    then obtain a b r where "?s = a # b # r" "fold_case b = CHR ''x''"
      by (cases ?s; cases "tl ?s") auto
    with d show False
      by (auto simp: is_digit_def fold_case_def less_eq_char_def split: if_splits)
  qed
  moreover have "mantissa 10 ?s = Some (real n, [])"
  proof -
    have all: "takeWhile (is_digit_of 10) ?s = ?s" "dropWhile (is_digit_of 10) ?s = []"
      using d by (simp_all add: is_digit_of_10)
    show ?thesis unfolding mantissa_def all by (simp add: digits_of_10 [OF d])
  qed
  ultimately show ?thesis by (simp add: number_def exponent_def scale_def)
qed

lemma nat_string_not_special:
  "map fold_case (take 3 (nat_string n)) \<noteq> ''inf''" "map fold_case (take 3 (nat_string n)) \<noteq> ''nan''"
proof -
  obtain c cs where c: "nat_string n = c # cs" by (cases "nat_string n") auto
  have "is_digit c" using nat_string_digits [of n] c by simp
  then have "fold_case c = c" "c \<noteq> CHR ''i''" "c \<noteq> CHR ''n''"
    by (auto simp: is_digit_def fold_case_def less_eq_char_def)
  then show "map fold_case (take 3 (nat_string n)) \<noteq> ''inf''" "map fold_case (take 3 (nat_string n)) \<noteq> ''nan''"
    using c by auto
qed

lemma in_dbl_range_nat:
  assumes "m \<le> 2 ^ 31"
  shows "in_dbl_range (real m)"
proof -
  have "(2::real) ^ 31 < 2 ^ 1024 - 2 ^ 970" "1 / (2::real) ^ 1022 < 1" by simp_all
  moreover have "real m \<le> 2 ^ 31" using assms by (metis of_nat_le_iff of_nat_numeral of_nat_power)
  moreover have "m = 0 \<or> 1 \<le> real m" by linarith
  ultimately show ?thesis unfolding in_dbl_range_def by linarith
qed

lemma stod_to_string:
  assumes "in_i32 n"
  shows "stod (to_string n) = Inr (Num (real_of_int n))"
proof -
  obtain c cs where c: "nat_string (nat n) = c # cs" by (cases "nat_string (nat n)") auto
  have "is_digit c" using nat_string_digits [of "nat n"] c by simp
  then have pos: "take_sign (nat_string (nat n)) = (False, nat_string (nat n))"
    using c digit_not_special by auto
  have sign: "take_sign (to_string n) = (n < 0, nat_string (nat \<bar>n\<bar>))"
    using pos by (simp add: to_string_def)
  have "in_dbl_range (real (nat \<bar>n\<bar>))"
    using assms by (intro in_dbl_range_nat) (auto simp: in_i32_def)
  moreover have "real (nat \<bar>n\<bar>) = real_of_int \<bar>n\<bar>" by simp
  ultimately show ?thesis
    using sign nat_string_not_special [of "nat \<bar>n\<bar>"] skip_ws_to_string [of n "[]"]
    by (cases "n < 0") (simp_all add: stod_def number_nat_string dbl_neg_def Let_def)
qed

text \<open>
  An integer option is read back exactly: the decimal text of every 32-bit number,
  as a value of the key, is that number, although the code parses it as a \<open>double\<close>; a
  missing key is \<open>- 1\<close>.
\<close>

theorem findInt_integers:
  assumes "config_path cfg \<noteq> []"
  shows "(\<forall>n. in_i32 n \<and> config cfg k = Some (to_string n) \<longrightarrow> RmsConfig_findInt k cfg = (Inr n, cfg)) \<and>
    (config cfg k = None \<longrightarrow> fst (RmsConfig_findInt k cfg) = Inr (- 1))"
proof (intro conjI allI impI)
  fix n assume n: "in_i32 n \<and> config cfg k = Some (to_string n)"
  have "truncate (real_of_int n) = n" by (simp add: truncate_def)
  with n assms show "RmsConfig_findInt k cfg = (Inr n, cfg)"
    by (simp add: RmsConfig_findInt_def RmsConfig_find_def stod_to_string dbl_to_int_def)
qed (use assms in \<open>simp add: RmsConfig_findInt_def RmsConfig_find_def\<close>)

theorem findInt_integers_witness:
  "fst (RmsConfig_findInt ''server_port'' \<lparr>config = [''server_port'' \<mapsto> to_string 8080], config_path = ''rms.cfg''\<rparr>) = Inr 8080"
  using findInt_integers [of "\<lparr>config = [''server_port'' \<mapsto> to_string 8080], config_path = ''rms.cfg''\<rparr>" "''server_port''"]
  by (simp add: in_i32_def)

end
