(* ===== verification/Rms_Server.thy ===== *)
theory Rms_Server
  imports Rms_Client Rms_Config
begin

text \<open>
  \<open>RmsServer\<close> (\<open>server/src/rms_server.cpp\<close>) and the service factory of \<open>rms_client.cpp\<close>: the
  registry of raw client pointers, start-up, and the creation and release of the client
  objects by the RPC library. Client objects live in a heap, so that a pointer whose object
  was deleted is visible as such. Every operation holds the client mutex, except the
  printing of the clients.
\<close>

section \<open>State\<close>

record RmsServer =
  clients :: "nat list"
  client_heap :: "nat \<rightharpoonup> RmsClient"
  next_ptr :: nat
  ingestor :: "RequestIngestor option"
  database :: bool

definition new_server :: RmsServer where
  "new_server = \<lparr>clients = [], client_heap = Map.empty, next_ptr = 0, ingestor = None, database = False\<rparr>"

text \<open>\<open>getDatabase()\<close> dereferences the pointer whether or not it was set.\<close>

definition server_env :: "'w env \<Rightarrow> RmsServer \<Rightarrow> 'w env" where
  "server_env env s = (if database s then env else null_database env)"

section \<open>The registry\<close>

definition client_id :: "(nat \<rightharpoonup> RmsClient) \<Rightarrow> nat \<Rightarrow> int res" where
  "client_id h p = (case h p of None \<Rightarrow> Inl Dangling_Pointer | Some cl \<Rightarrow> getId cl)"

fun client_ids :: "(nat \<rightharpoonup> RmsClient) \<Rightarrow> nat list \<Rightarrow> int list res" where
  "client_ids h [] = Inr []"
| "client_ids h (p # ps) = rbind (client_id h p) (\<lambda>i. rbind (client_ids h ps) (\<lambda>is. Inr (i # is)))"

definition getClientsIdList :: "RmsServer \<Rightarrow> int list res" where
  "getClientsIdList s = client_ids (client_heap s) (clients s)"

fun find_client :: "(nat \<rightharpoonup> RmsClient) \<Rightarrow> int \<Rightarrow> nat list \<Rightarrow> nat option res" where
  "find_client h i [] = Inr None"
| "find_client h i (p # ps) = rbind (client_id h p) (\<lambda>j. if j = i then Inr (Some p) else find_client h i ps)"

definition getClient :: "int \<Rightarrow> RmsServer \<Rightarrow> nat option res" where
  "getClient i s = find_client (client_heap s) i (clients s)"

definition addClient :: "nat \<Rightarrow> RmsServer \<Rightarrow> RmsServer" where
  "addClient p s = s\<lparr>clients := clients s @ [p]\<rparr>"

text \<open>\<open>std::remove_if\<close> visits every pointer; all clients with the id go.\<close>

fun remove_ids :: "(nat \<rightharpoonup> RmsClient) \<Rightarrow> int \<Rightarrow> nat list \<Rightarrow> nat list res" where
  "remove_ids h i [] = Inr []"
| "remove_ids h i (p # ps) =
     rbind (client_id h p) (\<lambda>j. rbind (remove_ids h i ps) (\<lambda>qs. Inr (if j = i then qs else p # qs)))"

definition removeClient :: "int \<Rightarrow> RmsServer \<Rightarrow> unit res \<times> RmsServer" where
  "removeClient i s = (case remove_ids (client_heap s) i (clients s) of
     Inl e \<Rightarrow> (Inl e, s) | Inr ps \<Rightarrow> (Inr (), s\<lparr>clients := ps\<rparr>))"

definition clientsConnected :: "RmsServer \<Rightarrow> nat" where
  "clientsConnected s = length (clients s)"

text \<open>\<open>printf("%3d   %s\n", id, name)\<close>\<close>

definition client_row :: "int \<Rightarrow> string \<Rightarrow> string" where
  "client_row i name =
     replicate (3 - length (to_string i)) (CHR '' '') @ to_string i @ ''   '' @
     takeWhile (\<lambda>c. c \<noteq> CHR 0x00) name @ [newline]"

fun client_rows :: "(nat \<rightharpoonup> RmsClient) \<Rightarrow> nat list \<Rightarrow> string res" where
  "client_rows h [] = Inr []"
| "client_rows h (p # ps) = (case h p of
     None \<Rightarrow> Inl Dangling_Pointer
   | Some cl \<Rightarrow> rbind (getId cl) (\<lambda>i. rbind (getName cl) (\<lambda>name.
       rbind (client_rows h ps) (\<lambda>rows. Inr (client_row i name @ rows)))))"

definition printClients :: "RmsServer \<Rightarrow> string res" where
  "printClients s =
     rbind (client_rows (client_heap s) (clients s))
       (\<lambda>rows. Inr ('' ID    NAME'' @ [newline] @ ''----  ------'' @ [newline] @ rows))"

section \<open>Client objects of the RPC library\<close>

definition getHandler :: "RmsServer \<Rightarrow> nat \<times> RmsServer" where
  "getHandler s =
     (let p = next_ptr s
      in (p, addClient p (s\<lparr>client_heap := (client_heap s)(p \<mapsto> new_client), next_ptr := p + 1\<rparr>)))"

definition releaseHandler :: "nat \<Rightarrow> RmsServer \<Rightarrow> unit res \<times> RmsServer" where
  "releaseHandler p s = (case client_id (client_heap s) p of
     Inl e \<Rightarrow> (Inl e, s)
   | Inr i \<Rightarrow> (case removeClient i s of
       (Inl e, s1) \<Rightarrow> (Inl e, s1)
     | (Inr _, s1) \<Rightarrow> (Inr (), s1\<lparr>client_heap := (client_heap s1)(p := None)\<rparr>)))"

section \<open>Start-up\<close>

definition server_config_path :: string where
  "server_config_path = ''/home/larry/Programming/C++/rms_2_0/rms_server.cfg''"

text \<open>The configured ingestor and database; the SQLite object opens the configured file.\<close>

definition open_backend ::
  "('w, 'stmt) sqlite_api \<Rightarrow> 'w env \<Rightarrow> (string \<Rightarrow> 'w \<Rightarrow> bool) \<Rightarrow> string \<Rightarrow> RmsConfig \<Rightarrow> RmsServer \<Rightarrow> 'w \<Rightarrow>
     unit res \<times> RmsConfig \<times> RmsServer \<times> 'w"
where
  "open_backend api env file_exists db_type cfg s w =
     (if db_type = ''log'' then (Inr (), cfg, s\<lparr>ingestor := Some LogRequestIngestor\<rparr>, w)
      else if db_type = ''sqlite'' then
        (let (ing, w1) = new_db_ingestor env w;
             s1 = s\<lparr>ingestor := Some (Db_Ingestor ing)\<rparr>;
             (filename, cfg1) = RmsConfig_find RMS_SERVER_CONFIG_SQLITE_DB_PATH cfg
         in case RmsSqliteDatabase api env file_exists filename w1 of
              (Inl e, w2) \<Rightarrow> (Inl e, cfg1, s1, w2)
            | (Inr _, w2) \<Rightarrow> (Inr (), cfg1, s1\<lparr>database := True\<rparr>, w2))
      else (Inl (Exit 1), cfg, s, w))"

text \<open>\<open>start\<close> up to the listener, which gets the port.\<close>

definition start ::
  "('w, 'stmt) sqlite_api \<Rightarrow> 'w env \<Rightarrow> (string \<Rightarrow> 'w \<Rightarrow> bool) \<Rightarrow> file_system \<Rightarrow> RmsConfig \<Rightarrow> RmsServer \<Rightarrow> 'w \<Rightarrow>
     int res \<times> RmsConfig \<times> RmsServer \<times> 'w"
where
  "start api env file_exists fs cfg s w = (case RmsConfig_load server_config_path cfg fs of
     (Inl e, cfg1) \<Rightarrow> (Inl e, cfg1, s, w)
   | (Inr _, cfg1) \<Rightarrow>
       (let (db_type, cfg2) = RmsConfig_find RMS_SERVER_CONFIG_DB_TYPE cfg1
        in case open_backend api env file_exists db_type cfg2 s w of
             (Inl e, cfg3, s1, w1) \<Rightarrow> (Inl e, cfg3, s1, w1)
           | (Inr _, cfg3, s1, w1) \<Rightarrow>
               (let (port, cfg4) = RmsConfig_findInt RMS_REPORTER_CONFIG_SERVER_PORT cfg3
                in (port, cfg4, s1, w1))))"

section \<open>The registry as a list of identifiers\<close>

text \<open>A pointer whose client has done its handshake, and the id of that client.\<close>

definition shaken :: "(nat \<rightharpoonup> RmsClient) \<Rightarrow> nat \<Rightarrow> bool" where
  "shaken h p \<longleftrightarrow> (\<exists>cl c. h p = Some cl \<and> computer cl = Some c)"

definition id_of :: "(nat \<rightharpoonup> RmsClient) \<Rightarrow> nat \<Rightarrow> int" where
  "id_of h p = computer_id (the (computer (the (h p))))"

definition all_shaken :: "RmsServer \<Rightarrow> bool" where
  "all_shaken s \<longleftrightarrow> (\<forall>p \<in> set (clients s). shaken (client_heap s) p)"

lemma client_id_shaken [simp]: "shaken h p \<Longrightarrow> client_id h p = Inr (id_of h p)"
  by (auto simp: shaken_def client_id_def getId_def id_of_def)

lemma client_ids_shaken: "\<forall>p \<in> set ps. shaken h p \<Longrightarrow> client_ids h ps = Inr (map (id_of h) ps)"
  by (induction ps) auto

lemma find_client_shaken:
  "\<forall>p \<in> set ps. shaken h p \<Longrightarrow> find_client h i ps = Inr (find (\<lambda>p. id_of h p = i) ps)"
  by (induction ps) auto

lemma remove_ids_shaken:
  "\<forall>p \<in> set ps. shaken h p \<Longrightarrow> remove_ids h i ps = Inr (filter (\<lambda>p. id_of h p \<noteq> i) ps)"
  by (induction ps) auto

lemma getClient_shaken:
  "all_shaken s \<Longrightarrow> getClient i s = Inr (find (\<lambda>p. id_of (client_heap s) p = i) (clients s))"
  by (simp add: getClient_def all_shaken_def find_client_shaken)

lemma removeClient_shaken:
  "all_shaken s \<Longrightarrow> removeClient i s =
     (Inr (), s\<lparr>clients := filter (\<lambda>p. id_of (client_heap s) p \<noteq> i) (clients s)\<rparr>)"
  by (simp add: removeClient_def all_shaken_def remove_ids_shaken)

lemma releaseHandler_shaken:
  "all_shaken s \<Longrightarrow> shaken (client_heap s) p \<Longrightarrow> releaseHandler p s =
     (Inr (), s\<lparr>clients := filter (\<lambda>q. id_of (client_heap s) q \<noteq> id_of (client_heap s) p) (clients s),
               client_heap := (client_heap s)(p := None)\<rparr>)"
  by (simp add: releaseHandler_def removeClient_shaken)

text \<open>
  When every registered client has done its handshake, the registry is the list of
  its ids: listing returns them in order, a lookup returns the first client with the id
  and null exactly when there is none, and a removal drops exactly the clients with the id.
\<close>

theorem registry_operations:
  assumes "all_shaken s"
  shows "getClientsIdList s = Inr (map (id_of (client_heap s)) (clients s)) \<and>
    (\<exists>r. getClient i s = Inr r \<and>
       (r = None \<longleftrightarrow> i \<notin> id_of (client_heap s) ` set (clients s)) \<and>
       (\<forall>p. r = Some p \<longrightarrow> (\<exists>pre post. clients s = pre @ p # post \<and> id_of (client_heap s) p = i \<and>
          i \<notin> id_of (client_heap s) ` set pre))) \<and>
    removeClient i s = (Inr (), s\<lparr>clients := filter (\<lambda>p. id_of (client_heap s) p \<noteq> i) (clients s)\<rparr>)"
proof -
  let ?P = "\<lambda>p. id_of (client_heap s) p = i"
  have "find ?P (clients s) = None \<longleftrightarrow> i \<notin> id_of (client_heap s) ` set (clients s)"
    by (auto simp: find_None_iff)
  moreover have "\<exists>pre post. clients s = pre @ p # post \<and> ?P p \<and> i \<notin> id_of (client_heap s) ` set pre"
    if "find ?P (clients s) = Some p" for p
  proof -
    from that obtain n where n: "n < length (clients s)" "?P (clients s ! n)" "p = clients s ! n"
        "\<forall>j < n. \<not> ?P (clients s ! j)" by (auto simp: find_Some_iff)
    have "clients s = take n (clients s) @ p # drop (Suc n) (clients s)"
      using n(1,3) by (simp add: id_take_nth_drop)
    moreover have "i \<notin> id_of (client_heap s) ` set (take n (clients s))"
      using n(4) by (fastforce simp: in_set_conv_nth)
    ultimately show ?thesis using n(2,3) by blast
  qed
  ultimately show ?thesis
    using assms by (simp add: getClientsIdList_def client_ids_shaken all_shaken_def
        getClient_shaken [OF assms] removeClient_shaken [OF assms])
qed

definition sample_client :: "int \<Rightarrow> RmsClient" where
  "sample_client i = \<lparr>computer = Some (new_computer i), response_queue = []\<rparr>"

definition sample_server :: RmsServer where
  "sample_server = \<lparr>clients = [0, 1, 2], client_heap = [0 \<mapsto> sample_client 5, 1 \<mapsto> sample_client 6, 2 \<mapsto> sample_client 5],
     next_ptr = 3, ingestor = Some LogRequestIngestor, database = True\<rparr>"

lemma sample_server_shaken: "all_shaken sample_server"
  by (simp add: all_shaken_def shaken_def sample_server_def sample_client_def)

lemma sample_server_ids [simp]:
  "id_of (client_heap sample_server) 0 = 5" "id_of (client_heap sample_server) (Suc 0) = 6"
  "id_of (client_heap sample_server) 2 = 5"
  by (simp_all add: id_of_def sample_server_def sample_client_def new_computer_def in_i32_def)

theorem registry_operations_witness:
  "getClientsIdList sample_server = Inr [5, 6, 5] \<and>
   snd (removeClient 5 sample_server) = sample_server\<lparr>clients := [Suc 0]\<rparr>"
proof -
  have "clients sample_server = [0, Suc 0, 2]" by (simp add: sample_server_def)
  then show ?thesis using registry_operations [OF sample_server_shaken, of 5] by simp
qed

text \<open>
  Closing a connection frees its client object and unregisters it; when the ids of
  the registered clients are distinct, every other client stays registered, in order.
\<close>

theorem release_unregisters:
  assumes "all_shaken s" "p \<in> set (clients s)" "distinct (clients s)"
    and "inj_on (id_of (client_heap s)) (set (clients s))"
  shows "\<exists>s'. releaseHandler p s = (Inr (), s') \<and> clients s' = remove1 p (clients s) \<and>
    client_heap s' = (client_heap s)(p := None) \<and> all_shaken s'"
proof -
  have "filter (\<lambda>q. id_of (client_heap s) q \<noteq> id_of (client_heap s) p) (clients s) = filter (\<lambda>q. q \<noteq> p) (clients s)"
    using assms(2,4) by (intro filter_cong) (auto simp: inj_on_def)
  also have "\<dots> = remove1 p (clients s)"
    using assms(3) by (simp add: distinct_remove1_removeAll removeAll_filter_not_eq eq_commute)
  finally show ?thesis
    using releaseHandler_shaken [OF assms(1), of p] assms(1,2,3)
    by (auto simp: all_shaken_def shaken_def)
qed

theorem release_unregisters_witness:
  "\<exists>s'. releaseHandler (Suc 0) (sample_server\<lparr>clients := [0, Suc 0]\<rparr>) = (Inr (), s') \<and> clients s' = [0]"
proof -
  let ?s = "sample_server\<lparr>clients := [0, Suc 0]\<rparr>"
  have "all_shaken ?s" using sample_server_shaken by (simp add: all_shaken_def sample_server_def)
  from release_unregisters [OF this, of "Suc 0"] show ?thesis by auto
qed

text \<open>
  Two connections can have the same computer id, and closing one of them unregisters
  both: the other client object stays alive and its connection goes on, but no lookup of
  the id finds it any more.
\<close>

theorem release_drops_same_id:
  assumes "all_shaken s" "p \<in> set (clients s)" "q \<in> set (clients s)" "p \<noteq> q"
    and "id_of (client_heap s) p = id_of (client_heap s) q"
  shows "\<exists>s'. releaseHandler p s = (Inr (), s') \<and> client_heap s' q = client_heap s q \<and>
    client_heap s' q \<noteq> None \<and> q \<notin> set (clients s') \<and> getClient (id_of (client_heap s) q) s' = Inr None"
proof -
  have p: "shaken (client_heap s) p" "shaken (client_heap s) q" using assms by (auto simp: all_shaken_def)
  let ?s = "s\<lparr>clients := filter (\<lambda>r. id_of (client_heap s) r \<noteq> id_of (client_heap s) p) (clients s),
               client_heap := (client_heap s)(p := None)\<rparr>"
  have ids: "r \<noteq> p \<Longrightarrow> id_of ((client_heap s)(p := None)) r = id_of (client_heap s) r" for r
    by (simp add: id_of_def)
  have "all_shaken ?s" using assms(1) by (auto simp: all_shaken_def shaken_def)
  then have "getClient (id_of (client_heap s) q) ?s = Inr None"
    using assms(5) ids by (auto simp: getClient_shaken find_None_iff) (metis ids)
  with releaseHandler_shaken [OF assms(1) p(1)] p(2) assms show ?thesis
    by (auto simp: shaken_def)
qed

theorem release_drops_same_id_witness:
  "\<exists>s'. releaseHandler 0 sample_server = (Inr (), s') \<and> client_heap s' 2 \<noteq> None \<and> getClient 5 s' = Inr None"
proof -
  have "clients sample_server = [0, Suc 0, 2]" by (simp add: sample_server_def)
  with release_drops_same_id [OF sample_server_shaken, of 0 2] show ?thesis by auto
qed

text \<open>
  C39. A connection is registered before its handshake. While it has not done one, listing
  the ids, looking up an id that no earlier client has, and removing any id dereference
  its null computer, and so does closing that connection.
\<close>

theorem connection_before_handshake_unsafe:
  assumes "all_shaken s" "next_ptr s \<notin> set (clients s)" "i \<notin> id_of (client_heap s) ` set (clients s)"
    and "(p, s') = getHandler s"
  shows "clients s' = clients s @ [p] \<and> getClientsIdList s' = Inl Null_Deref \<and> getClient i s' = Inl Null_Deref \<and>
    fst (removeClient j s') = Inl Null_Deref \<and> fst (releaseHandler p s') = Inl Null_Deref"
proof -
  let ?h = "(client_heap s)(next_ptr s \<mapsto> new_client)"
  have s': "p = next_ptr s" "clients s' = clients s @ [p]" "client_heap s' = ?h"
    using assms(4) by (simp_all add: getHandler_def addClient_def Let_def)
  have new: "client_id ?h (next_ptr s) = Inl Null_Deref"
    by (simp add: client_id_def getId_def new_client_def)
  have old: "\<And>q. q \<in> set (clients s) \<Longrightarrow> client_id ?h q = Inr (id_of (client_heap s) q)"
    using assms(1,2) by (auto simp: all_shaken_def client_id_def shaken_def getId_def id_of_def)
  have "client_ids ?h (qs @ [next_ptr s]) = Inl Null_Deref" if "set qs \<subseteq> set (clients s)" for qs
    using that by (induction qs) (auto simp: new old)
  moreover have "remove_ids ?h j (qs @ [next_ptr s]) = Inl Null_Deref" if "set qs \<subseteq> set (clients s)" for qs
    using that by (induction qs) (auto simp: new old)
  moreover have "find_client ?h i (qs @ [next_ptr s]) = Inl Null_Deref" if "set qs \<subseteq> set (clients s)" for qs
    using that assms(3) by (induction qs) (auto simp: new old)
  ultimately show ?thesis
    using new by (simp add: s' getClientsIdList_def getClient_def removeClient_def releaseHandler_def)
qed

theorem connection_before_handshake_unsafe_witness:
  "fst (releaseHandler 3 (snd (getHandler sample_server))) = Inl Null_Deref"
  using connection_before_handshake_unsafe [OF sample_server_shaken, of 9 3 "snd (getHandler sample_server)" 0]
  by (simp add: sample_server_def id_of_def sample_client_def new_computer_def in_i32_def getHandler_def)

section \<open>Start-up\<close>

text \<open>
  Start-up by the value of \<open>db_type\<close>, once the configuration file has been read: with
  \<open>log\<close> the server runs without a database, with \<open>sqlite\<close> and a file that exists it opens the
  file, runs no statement and starts with the first push five minutes ahead, and with any
  other value, a missing one included, it exits with status 1.
\<close>

theorem start_by_db_type:
  assumes "RmsConfig_load server_config_path cfg fs = (Inr (), cfg1)"
    and "RmsConfig_find RMS_SERVER_CONFIG_DB_TYPE cfg1 = (t, cfg2)"
    and "start api env file_exists fs cfg s w = (r, cfg', s', w')"
    and "\<And>f w. file_exists f w" "\<And>f w. fst (sqlite3_open api f w) = SQLITE_OK"
    and "steady_now env w = (now, w1)"
  shows "(t = ''log'' \<longrightarrow> s' = s\<lparr>ingestor := Some LogRequestIngestor\<rparr> \<and> w' = w) \<and>
    (t = ''sqlite'' \<longrightarrow> (\<exists>f. s' = s\<lparr>ingestor := Some (Db_Ingestor \<lparr>tick = - 1, next_usage_push = now + minutes 5\<rparr>), database := True\<rparr> \<and>
       w' = snd (sqlite3_open api (c_str f) w1))) \<and>
    (t \<noteq> ''log'' \<and> t \<noteq> ''sqlite'' \<longrightarrow> r = Inl (Exit 1) \<and> s' = s)"
proof -
  obtain f cfg3 where f: "RmsConfig_find RMS_SERVER_CONFIG_SQLITE_DB_PATH cfg2 = (f, cfg3)" by fastforce
  have "RmsSqliteDatabase api env file_exists f w1 = (Inr (), snd (sqlite3_open api (c_str f) w1))"
    using assms(4,5) by (simp add: RmsSqliteDatabase_def case_prod_beta Let_def)
  then show ?thesis
    using assms(1-3,6) f
    by (cases "t = ''log''"; cases "t = ''sqlite''")
      (auto simp: start_def open_backend_def new_db_ingestor_def split: prod.splits)
qed

definition server_fs :: "string \<Rightarrow> file_system" where
  "server_fs db = \<lparr>files = [server_config_path \<mapsto> ''db_type '' @ db @ [newline]], writable = (\<lambda>_. True)\<rparr>"

theorem start_by_db_type_witness:
  "\<exists>r cfg' w'. start sample_api sample_env (\<lambda>_ _. True) (server_fs ''log'') initial_config new_server 0 =
     (r, cfg', new_server\<lparr>ingestor := Some LogRequestIngestor\<rparr>, w')"
proof -
  let ?cfg = "\<lparr>config = [''db_type'' \<mapsto> ''log''], config_path = server_config_path\<rparr>"
  have "lines_of (''db_type log'' @ [newline]) = [''db_type log'']"
    by (subst lines_of_line) (simp_all add: newline_def)
  then have l: "RmsConfig_load server_config_path initial_config (server_fs ''log'') = (Inr (), ?cfg)"
    by (simp add: RmsConfig_load_def server_fs_def initial_config_def load_line_def extract_word_def sentry_def
        open_stream_def skip_ws_def is_space_def fun_eq_iff)
  have f: "RmsConfig_find RMS_SERVER_CONFIG_DB_TYPE ?cfg = (''log'', ?cfg)"
    by (simp add: RmsConfig_find_def RMS_SERVER_CONFIG_DB_TYPE_def server_config_path_def)
  have t: "steady_now sample_env 0 = (0, 0)" by (simp add: sample_env_def)
  obtain r cfg' s' w' where e: "start sample_api sample_env (\<lambda>_ _. True) (server_fs ''log'') initial_config new_server 0 = (r, cfg', s', w')"
    by (metis prod_cases4)
  from start_by_db_type [OF l f e _ _ t] have "s' = new_server\<lparr>ingestor := Some LogRequestIngestor\<rparr>"
    by (simp add: SQLITE_OK_def)
  with e show ?thesis by blast
qed

end
