(* ===== verification/Rms_Terminal.thy ===== *)
theory Rms_Terminal
  imports Rms_Server
begin

text \<open>
  The command line of the server (\<open>server/src/rms_terminal.cpp\<close>): what each line does to the
  server, what it prints on the two output streams, and the loop that reads the lines. The
  prompt and the listener that \<open>exit\<close> stops are not modelled.
\<close>

section \<open>Commands\<close>

type_synonym term_output = "string \<times> string"

definition to_out :: "string \<Rightarrow> term_output" where
  "to_out s = (s, [])"

definition to_err :: "string \<Rightarrow> term_output" where
  "to_err s = ([], s)"

definition starts_with :: "string \<Rightarrow> string \<Rightarrow> bool" where
  "starts_with s p \<longleftrightarrow> take (length p) s = p"

definition RMS_2_0_SERVER_MAJOR_VERSION :: int where "RMS_2_0_SERVER_MAJOR_VERSION = 0"
definition RMS_2_0_SERVER_MINOR_VERSION :: int where "RMS_2_0_SERVER_MINOR_VERSION = 0"
definition RMS_2_0_SERVER_RELEASE_VERSION :: int where "RMS_2_0_SERVER_RELEASE_VERSION = 1"

definition server_version :: string where
  "server_version =
     to_string RMS_2_0_SERVER_MAJOR_VERSION @ ''.'' @ to_string RMS_2_0_SERVER_MINOR_VERSION @ ''.'' @
     to_string RMS_2_0_SERVER_RELEASE_VERSION"

text \<open>
  The id that \<open>sscanf\<close> with one \<open>%d\<close> leaves in a variable that was \<open>- 2\<close>, or \<open>None\<close> when the
  call returns \<open>EOF\<close>. A number that does not fit is undefined.
\<close>

definition scan_id :: "directive list \<Rightarrow> string \<Rightarrow> int option res" where
  "scan_id ds s =
     (let r = scanf ds s
      in if scan_eof r then Inr None
         else (case fst r of
             SInt n # _ \<Rightarrow> if in_i32 n then Inr (Some n) else Inl Bad_Conversion
           | _ \<Rightarrow> Inr (Some (- 2))))"

definition info_client_format :: "directive list" where
  "info_client_format = lits ''info'' @ [Blank] @ lits ''client'' @ [Blank, Int_Field]"

definition get_sys_info_format :: "directive list" where
  "get_sys_info_format = lits ''get'' @ [Blank] @ lits ''sys-info'' @ [Blank, Int_Field]"

definition no_such_client :: "int \<Rightarrow> term_output" where
  "no_such_client i = to_err (''Client with id: '' @ to_string i @ '' Does not exist'' @ endl)"

definition info_command ::
  "(VersionData \<Rightarrow> string) \<Rightarrow> string \<Rightarrow> RmsServer \<Rightarrow> term_output res"
where
  "info_command show_version cmd s =
     (if starts_with cmd ''info client'' then
        rbind (scan_id info_client_format cmd) (\<lambda>i. case i of
          None \<Rightarrow> Inr (to_err (''No client Id provided.'' @ endl))
        | Some i \<Rightarrow> rbind (getClient i s) (\<lambda>p. case p of
            None \<Rightarrow> Inr (no_such_client i)
          | Some p \<Rightarrow> (case client_heap s p of
              None \<Rightarrow> Inl Dangling_Pointer
            | Some cl \<Rightarrow> rbind (getComputerAsString show_version cl) (\<lambda>t. Inr (to_out t)))))
      else Inr ([], []))"

definition sys_info_request :: RmsResponseData where
  "sys_info_request = \<lparr>rs_data_type = kSendSystemInfo, rs_data = default_response_values\<lparr>rsv_long := 0\<rparr>\<rparr>"

definition on_client :: "nat \<Rightarrow> (RmsClient \<Rightarrow> RmsClient) \<Rightarrow> RmsServer \<Rightarrow> RmsServer" where
  "on_client p f s = (case client_heap s p of
     None \<Rightarrow> s | Some cl \<Rightarrow> s\<lparr>client_heap := (client_heap s)(p \<mapsto> f cl)\<rparr>)"

definition get_usage :: string where
  "get_usage = [CHR 0x09] @ '' sys-info <id>'' @ endl"

definition get_command :: "string \<Rightarrow> RmsServer \<Rightarrow> term_output res \<times> RmsServer" where
  "get_command cmd s =
     (if starts_with cmd ''get sys-info'' then
        (case scan_id get_sys_info_format cmd of
           Inl e \<Rightarrow> (Inl e, s)
         | Inr None \<Rightarrow> (Inr (to_err (''missing or invalid ID USAGE:'' @ endl @ get_usage)), s)
         | Inr (Some i) \<Rightarrow> (case getClient i s of
             Inl e \<Rightarrow> (Inl e, s)
           | Inr None \<Rightarrow> (Inr (no_such_client i), s)
           | Inr (Some p) \<Rightarrow>
               (if client_heap s p = None then (Inl Dangling_Pointer, s)
                else (Inr (to_out (''Get request sent. sys-info being retrieved.'' @ endl)),
                      on_client p (addResponse sys_info_request) s))))
      else (Inr (to_err (''Invalid option valid list options are'' @ endl @ get_usage)), s))"

text \<open>
  \<open>ss >> client_cmd >> id\<close>, and \<open>std::getline\<close> into the same string: a variable that an
  extraction leaves alone keeps its value.
\<close>

definition keep :: "'a \<Rightarrow> 'a option \<Rightarrow> 'a" where
  "keep old new = (case new of None \<Rightarrow> old | Some v \<Rightarrow> v)"

definition parse_exec :: "string \<Rightarrow> int \<times> string" where
  "parse_exec cmd =
     (let (word, st1) = extract_word (open_stream cmd);
          (n, st2) = extract_int st1;
          (line, st3) = extract_line st2
      in (keep (- 1) n, keep (keep [] word) line))"

definition exec_command :: "'w env \<Rightarrow> string \<Rightarrow> RmsServer \<Rightarrow> 'w \<Rightarrow> term_output res \<times> RmsServer \<times> 'w" where
  "exec_command env cmd s w =
     (let (i, client_cmd) = parse_exec cmd
      in case getClient i s of
           Inl e \<Rightarrow> (Inl e, s, w)
         | Inr None \<Rightarrow> (Inr (no_such_client i), s, w)
         | Inr (Some p) \<Rightarrow> (case client_heap s p of
             None \<Rightarrow> (Inl Dangling_Pointer, s, w)
           | Some cl \<Rightarrow>
               (let (r, cl1, w1) = runCommand (server_env env s) client_cmd cl w;
                    s1 = on_client p (\<lambda>_. cl1) s
                in case r of
                     Inl e \<Rightarrow> (Inl e, s1, w1)
                   | Inr _ \<Rightarrow> (Inr (to_out (''Running command: '' @ client_cmd @ endl)), s1, w1))))"

definition tab :: string where
  "tab = [CHR 0x09]"

definition help_text :: string where
  "help_text =
     ''RMS(Remote Management System)'' @ endl @
     ''Version: '' @ server_version @ endl @ endl @
     ''Usage:'' @ endl @
     tab @ ''help            - This message'' @ endl @
     tab @ ''version         - Server version'' @ endl @
     tab @ ''status          - Server status'' @ endl @
     tab @ ''exit            - Close the server'' @ endl @
     tab @ ''clients         - List connected clients'' @ endl @
     tab @ ''info <info>     - Gets some info about the client'' @ endl @
     tab @ ''exec <id> <cmd> - Executes a command on the client'' @ endl @
     tab @ tab @ '' info types:'' @ endl @
     tab @ tab @ tab @ '' client <id>   - print basic info about the client'' @ endl @
     tab @ ''get <req> <cid> - sends some request to the client'' @ endl @
     tab @ tab @ '' request types:'' @ endl @
     tab @ tab @ tab @ '' sys-info - sends a sys-info request'' @ endl"

definition status_text :: "RmsServer \<Rightarrow> string" where
  "status_text s =
     ''RMS INFO'' @ endl @ ''--------'' @ endl @ endl @
     ''Clients conencted: '' @ to_string (int (clientsConnected s)) @ endl"

definition version_text_line :: string where
  "version_text_line =
     ''RMS(Remote Management System) server version '' @ server_version @ endl @
     ''Created and maintained by Larry Milne a.k.a qawse3dr'' @ endl"

definition run_line ::
  "'w env \<Rightarrow> (VersionData \<Rightarrow> string) \<Rightarrow> string \<Rightarrow> RmsServer \<Rightarrow> 'w \<Rightarrow> term_output res \<times> RmsServer \<times> 'w"
where
  "run_line env show_version cmd s w =
     (if cmd = ''status'' then (Inr (to_out (status_text s)), s, w)
      else if cmd = ''version'' then (Inr (to_out version_text_line), s, w)
      else if cmd = ''clients'' then (rbind (printClients s) (\<lambda>t. Inr (to_out t)), s, w)
      else if starts_with cmd ''info'' then (info_command show_version cmd s, s, w)
      else if starts_with cmd ''get'' then (let (r, s1) = get_command cmd s in (r, s1, w))
      else if starts_with cmd ''exec'' then exec_command env cmd s w
      else if cmd = ''help'' then (Inr (to_out help_text), s, w)
      else (Inr ([], []), s, w))"

section \<open>The loop\<close>

text \<open>
  \<open>cmd\<close> is the variable the lines are read into; \<open>None\<close> is a loop that never ends.
\<close>

partial_function (option) rmsTerminal ::
  "'w env \<Rightarrow> (VersionData \<Rightarrow> string) \<Rightarrow> istream \<Rightarrow> string \<Rightarrow> term_output list \<Rightarrow> RmsServer \<Rightarrow> 'w \<Rightarrow>
     (unit res \<times> term_output list \<times> RmsServer \<times> 'w) option"
where
  "rmsTerminal env show_version st cmd outs s w =
     (case extract_line st of (line, st1) \<Rightarrow>
        if keep cmd line = ''exit'' then Some (Inr (), outs, s, w)
        else (case run_line env show_version (keep cmd line) s w of
            (Inl e, s1, w1) \<Rightarrow> Some (Inl e, outs, s1, w1)
          | (Inr out, s1, w1) \<Rightarrow> rmsTerminal env show_version st1 (keep cmd line) (outs @ [out]) s1 w1))"

section \<open>Parsing of commands\<close>

lemma space_not_digit [simp]: "\<not> is_digit (CHR '' '')"
  by (simp add: is_digit_def)

lemma parse_exec_fields:
  assumes "in_i32 i"
  shows "extract_word (open_stream (''exec '' @ to_string i @ r)) =
      (Some ''exec'', (open_stream [])\<lparr>unread := CHR '' '' # to_string i @ r\<rparr>)"
    and "stops_digits r \<Longrightarrow> extract_int ((open_stream [])\<lparr>unread := CHR '' '' # to_string i @ r\<rparr>) =
      (Some i, (open_stream [])\<lparr>unread := r, eofbit := (r = [])\<rparr>)"
proof -
  have sp: "is_space (CHR '' '')" by (simp add: is_space_def)
  show "extract_word (open_stream (''exec '' @ to_string i @ r)) =
      (Some ''exec'', (open_stream [])\<lparr>unread := CHR '' '' # to_string i @ r\<rparr>)"
    by (simp add: extract_word_def sentry_def open_stream_def is_space_def)
  assume r: "stops_digits r"
  have "i32_clamp i = i" using assms by (auto simp: i32_clamp_def in_i32_def)
  moreover have "skip_ws (CHR '' '' # to_string i @ r) = to_string i @ r"
    using skip_ws_to_string [of i r] sp by simp
  ultimately show "extract_int ((open_stream [])\<lparr>unread := CHR '' '' # to_string i @ r\<rparr>) =
      (Some i, (open_stream [])\<lparr>unread := r, eofbit := (r = [])\<rparr>)"
    using assms int_field_to_string [OF r] by (simp add: extract_int_def sentry_def open_stream_def Let_def)
qed

text \<open>
  The line \<open>exec <id> <command>\<close> is parsed to that id and to the text after it, with the
  separating blank in front; \<open>exec <id>\<close> with nothing after the number is parsed to the
  command \<open>exec\<close>, which is then stored and sent to the client as if it had been typed.
\<close>

theorem parse_exec_line:
  assumes "in_i32 i"
  shows "(newline \<notin> set t \<longrightarrow> parse_exec (''exec '' @ to_string i @ '' '' @ t) = (i, '' '' @ t)) \<and>
    parse_exec (''exec '' @ to_string i) = (i, ''exec'')"
proof (intro conjI impI)
  let ?st = "\<lambda>u e. (open_stream [])\<lparr>unread := u, eofbit := e\<rparr>"
  assume n: "newline \<notin> set t"
  have "takeWhile (\<lambda>c. c \<noteq> newline) ('' '' @ t) = '' '' @ t"
    using n by (auto simp: newline_def takeWhile_eq_all_conv)
  then have "fst (extract_line (?st ('' '' @ t) False)) = Some ('' '' @ t)"
    by (simp add: extract_line_def open_stream_def Let_def)
  then show "parse_exec (''exec '' @ to_string i @ '' '' @ t) = (i, '' '' @ t)"
    using parse_exec_fields(1) [OF assms, of "'' '' @ t"] parse_exec_fields(2) [OF assms, of "'' '' @ t"]
    by (simp add: parse_exec_def keep_def case_prod_beta)
next
  show "parse_exec (''exec '' @ to_string i) = (i, ''exec'')"
    using parse_exec_fields(1) [OF assms, of "[]"] parse_exec_fields(2) [OF assms, of "[]"]
    by (simp add: parse_exec_def keep_def extract_line_def open_stream_def)
qed

theorem parse_exec_line_witness:
  "parse_exec (''exec '' @ to_string 5 @ '' '' @ ''ls'') = (5, '' ls'') \<and> parse_exec (''exec '' @ to_string 5) = (5, ''exec'')"
  using parse_exec_line [of 5 "''ls''"] by (simp add: in_i32_def newline_def)

lemma starts_with_append [simp]: "starts_with (p @ s) p"
  by (simp add: starts_with_def)

lemma scan_get_sys_info:
  assumes "in_i32 i"
  shows "scan_id get_sys_info_format (''get sys-info '' @ to_string i) = Inr (Some i)"
proof -
  have sp: "is_space (CHR '' '')" "\<not> is_space (CHR ''s'')" by (simp_all add: is_space_def)
  have "scanf get_sys_info_format (''get sys-info '' @ to_string i) = cons_value (SInt i) ([], [], Scan_Done)"
    using scanf_int [of "[]" "[]" i] skip_ws_to_string [of i "[]"] sp
    by (simp add: get_sys_info_format_def int_field_to_string [of "[]", simplified])
  then show ?thesis using assms by (simp add: scan_id_def scan_eof_def cons_value_def)
qed

text \<open>
  The line \<open>get sys-info <id>\<close> queues exactly one request for system information, at the
  end of the queue of the first client with that id, and changes nothing else; without
  such a client it changes nothing.
\<close>

theorem get_sys_info_line:
  assumes "in_i32 i" "all_shaken s"
  shows "\<exists>out. run_line env show_version (''get sys-info '' @ to_string i) s w =
    (Inr out, (case find (\<lambda>p. id_of (client_heap s) p = i) (clients s) of
        None \<Rightarrow> s
      | Some p \<Rightarrow> s\<lparr>client_heap := (client_heap s)(p \<mapsto> addResponse sys_info_request (the (client_heap s p)))\<rparr>), w)"
proof -
  let ?cmd = "''get sys-info '' @ to_string i"
  have line: "run_line env show_version ?cmd s w = (fst (get_command ?cmd s), snd (get_command ?cmd s), w)"
    by (simp add: run_line_def starts_with_def case_prod_beta)
  show ?thesis
  proof (cases "find (\<lambda>p. id_of (client_heap s) p = i) (clients s)")
    case None
    with line scan_get_sys_info [OF assms(1)] getClient_shaken [OF assms(2)] show ?thesis
      by (simp add: get_command_def starts_with_def)
  next
    case (Some p)
    then have "p \<in> set (clients s)" by (auto simp: find_Some_iff)
    with assms(2) obtain cl where "client_heap s p = Some cl" by (auto simp: all_shaken_def shaken_def)
    with Some line scan_get_sys_info [OF assms(1)] getClient_shaken [OF assms(2)] show ?thesis
      by (simp add: get_command_def starts_with_def on_client_def)
  qed
qed

theorem get_sys_info_line_witness:
  "\<exists>out s'. run_line sample_env (\<lambda>_. []) (''get sys-info '' @ to_string 6) sample_server 0 = (Inr out, s', 0) \<and>
     response_queue (the (client_heap s' (Suc 0))) = [sys_info_request]"
proof -
  have six: "in_i32 6" by (simp add: in_i32_def)
  have f: "find (\<lambda>p. id_of (client_heap sample_server) p = 6) (clients sample_server) = Some (Suc 0)"
    by (simp add: sample_server_def id_of_def sample_client_def new_computer_def in_i32_def)
  from get_sys_info_line [OF six sample_server_shaken, of sample_env "\<lambda>_. []" 0] f show ?thesis
    by (auto simp: sample_server_def sample_client_def addResponse_def)
qed

section \<open>End of the input\<close>

text \<open>
  When the standard input ends before a line \<open>exit\<close>, the loop of the terminal never
  returns: it processes an empty line over and over.
\<close>

theorem terminal_spins_at_eof:
  "rmsTerminal env show_version (open_stream []) cmd outs s w = None"
proof -
  have spin: "\<not> (eofbit st \<and> failbit st \<and> cmd = [])"
    if "rmsTerminal env show_version st cmd outs s w = Some res" for env show_version st cmd outs s w res
  proof (rule rmsTerminal.raw_induct [where P = "\<lambda>env show_version st cmd outs s w res.
      \<not> (eofbit st \<and> failbit st \<and> cmd = [])", OF _ that])
    fix f :: "'c env \<Rightarrow> (VersionData \<Rightarrow> string) \<Rightarrow> istream \<Rightarrow> string \<Rightarrow> term_output list \<Rightarrow> RmsServer \<Rightarrow> 'c \<Rightarrow>
        (unit res \<times> term_output list \<times> RmsServer \<times> 'c) option"
      and env show_version st cmd outs s w res
    assume IH: "\<And>env show_version st cmd outs s w res. f env show_version st cmd outs s w = Some res \<Longrightarrow>
        \<not> (eofbit st \<and> failbit st \<and> cmd = [])"
      and eq: "(case extract_line st of (line, st1) \<Rightarrow>
        if keep cmd line = ''exit'' then Some (Inr (), outs, s, w)
        else (case run_line env show_version (keep cmd line) s w of
            (Inl e, s1, w1) \<Rightarrow> Some (Inl e, outs, s1, w1)
          | (Inr out, s1, w1) \<Rightarrow> f env show_version st1 (keep cmd line) (outs @ [out]) s1 w1)) = Some res"
    show "\<not> (eofbit st \<and> failbit st \<and> cmd = [])"
    proof
      assume st: "eofbit st \<and> failbit st \<and> cmd = []"
      then have "extract_line st = (None, st)" by (cases st) (simp add: extract_line_def)
      moreover have "run_line env show_version [] s w = (Inr ([], []), s, w)"
        by (simp add: run_line_def starts_with_def)
      ultimately have "f env show_version st [] (outs @ [([], [])]) s w = Some res"
        using eq st by (simp add: keep_def)
      from IH [OF this] st show False by simp
    qed
  qed
  let ?st = "\<lparr>unread = [], eofbit = True, failbit = True\<rparr>"
  have "rmsTerminal env show_version (open_stream []) cmd outs s w =
      rmsTerminal env show_version ?st [] (outs @ [([], [])]) s w"
    by (subst rmsTerminal.simps) (simp add: extract_line_def open_stream_def keep_def run_line_def starts_with_def)
  also have "\<dots> = None"
    using spin [of env show_version ?st "[]" "outs @ [([], [])]" s w]
    by (cases "rmsTerminal env show_version ?st [] (outs @ [([], [])]) s w") auto
  finally show ?thesis .
qed

end
