(* ===== verification/Server_System.thy ===== *)
theory Server_System
  imports Rms_Terminal
begin

text \<open>
  The server as a system: connections that the RPC library opens and closes, the calls of
  the service on a connection, and the lines of the terminal, in any interleaving. One step
  is one call, taken as atomic here; \<open>Query_Threads\<close>, \<open>Push_Threads\<close> and \<open>Server_Threads\<close>
  look at the threads within a call. A call on a connection needs a client object that was
  created and not released. A C++ exception inside a call is caught by the RPC library and
  the server goes on; every other failure, and an exception on the terminal thread, ends
  the process.
\<close>

section \<open>Events\<close>

datatype server_event =
    Connect
  | Handshake nat int SystemInfo
  | Report nat RmsRequest
  | Send_Sys_Info nat SystemInfo
  | Disconnect nat
  | Line string

definition call_client ::
  "nat \<Rightarrow> RmsServer \<Rightarrow> 'w \<Rightarrow> (RmsClient \<Rightarrow> 'a res \<times> RmsClient \<times> 'w) \<Rightarrow> unit res \<times> RmsServer \<times> 'w"
where
  "call_client p s w f = (case client_heap s p of
     None \<Rightarrow> (Inl Dangling_Pointer, s, w)
   | Some cl \<Rightarrow>
       (let (r, cl1, w1) = f cl
        in (case r of Inl e \<Rightarrow> Inl e | Inr _ \<Rightarrow> Inr (), s\<lparr>client_heap := (client_heap s)(p \<mapsto> cl1)\<rparr>, w1)))"

text \<open>A report also hands the request to the ingestor of the server.\<close>

definition serve_report ::
  "'w env \<Rightarrow> nat \<Rightarrow> RmsRequest \<Rightarrow> RmsServer \<Rightarrow> 'w \<Rightarrow> unit res \<times> RmsServer \<times> 'w"
where
  "serve_report env p req s w = (case client_heap s p of
     None \<Rightarrow> (Inl Dangling_Pointer, s, w)
   | Some cl \<Rightarrow> (case ingestor s of
       None \<Rightarrow> (Inl Null_Deref, s, w)
     | Some ing \<Rightarrow>
         (let (r, ing1, cl1, w1) = report (server_env env s) req ing cl w
          in (case r of Inl e \<Rightarrow> Inl e | Inr _ \<Rightarrow> Inr (),
              s\<lparr>client_heap := (client_heap s)(p \<mapsto> cl1), ingestor := Some ing1\<rparr>, w1))))"

definition server_exec ::
  "'w env \<Rightarrow> (VersionData \<Rightarrow> string) \<Rightarrow> server_event \<Rightarrow> RmsServer \<Rightarrow> 'w \<Rightarrow> unit res \<times> RmsServer \<times> 'w"
where
  "server_exec env show_version ev s w = (case ev of
     Connect \<Rightarrow> (Inr (), snd (getHandler s), w)
   | Handshake p i info \<Rightarrow> call_client p s w (\<lambda>cl. handshake (server_env env s) i info cl w)
   | Report p req \<Rightarrow> serve_report env p req s w
   | Send_Sys_Info p info \<Rightarrow> call_client p s w (\<lambda>cl. sendSysInfo (server_env env s) info cl w)
   | Disconnect p \<Rightarrow> (let (r, s1) = releaseHandler p s in (r, s1, w))
   | Line cmd \<Rightarrow>
       (let (r, s1, w1) = run_line env show_version cmd s w
        in (case r of Inl e \<Rightarrow> Inl e | Inr _ \<Rightarrow> Inr (), s1, w1)))"

fun connection :: "server_event \<Rightarrow> nat option" where
  "connection (Handshake p i info) = Some p"
| "connection (Report p req) = Some p"
| "connection (Send_Sys_Info p info) = Some p"
| "connection (Disconnect p) = Some p"
| "connection _ = None"

definition enabled :: "server_event \<Rightarrow> RmsServer \<Rightarrow> bool" where
  "enabled ev s \<longleftrightarrow> (case connection ev of None \<Rightarrow> True | Some p \<Rightarrow> client_heap s p \<noteq> None)"

definition survives :: "server_event \<Rightarrow> unit res \<Rightarrow> bool" where
  "survives ev r \<longleftrightarrow> (case r of
     Inr _ \<Rightarrow> True
   | Inl e \<Rightarrow> connection ev \<noteq> None \<and> (e = Invalid_Argument \<or> e = Out_Of_Range \<or> e = Thrift_Exception))"

inductive server_step ::
  "'w env \<Rightarrow> (VersionData \<Rightarrow> string) \<Rightarrow> RmsServer \<times> 'w \<Rightarrow> server_event \<Rightarrow> RmsServer \<times> 'w \<Rightarrow> bool"
  for env show_version
where
  call: "enabled ev s \<Longrightarrow> server_exec env show_version ev s w = (r, s', w') \<Longrightarrow> survives ev r \<Longrightarrow>
    server_step env show_version (s, w) ev (s', w')"

inductive_cases server_stepE: "server_step env show_version (s, w) ev (s', w')"
inductive_simps server_step_simps: "server_step env show_version (s, w) ev (s', w')"

inductive server_run ::
  "'w env \<Rightarrow> (VersionData \<Rightarrow> string) \<Rightarrow> RmsServer \<times> 'w \<Rightarrow> server_event list \<Rightarrow> RmsServer \<times> 'w \<Rightarrow> bool"
  for env show_version
where
  run_start: "server_run env show_version c [] c"
| run_step: "server_run env show_version c evs (s, w) \<Longrightarrow> server_step env show_version (s, w) ev (s', w') \<Longrightarrow>
    server_run env show_version c (evs @ [ev]) (s', w')"

section \<open>Usage data under the operations of a computer\<close>

lemma run_query_object:
  assumes "run_query env q ret s w k = (r, s', w')" "P s" "\<And>x w1 r s' w'. k x w1 = (r, s', w') \<Longrightarrow> P s'"
  shows "P s'"
  using assms by (cases "execute_query env q ret w"; cases "fst (execute_query env q ret w)") (auto simp: run_query_def)

lemma usage_addToDB: "addToDB env c w = (r, c', w') \<Longrightarrow> usage_info c' = usage_info c"
  unfolding addToDB_def
proof (erule run_query_object)
  fix x w1 r c' w'
  assume e: "(if success x then case last_id x of None \<Rightarrow> (Inl Indeterminate_Value, c, w1)
      | Some i \<Rightarrow> (let (r, devs, w2) = insert_storage env i (storage_info c) w1;
                   c1 = c\<lparr>computer_id := i, storage_info := devs\<rparr>
               in case r of Inl e \<Rightarrow> (Inl e, c1, w2) | Inr _ \<Rightarrow> (Inr (success x), c1, w2))
      else (Inr False, c, w1)) = (r, c', w')"
  show "usage_info c' = usage_info c"
  proof (cases "success x \<and> last_id x \<noteq> None")
    case True
    then obtain i where i: "last_id x = Some i" by blast
    obtain r1 devs w2 where "insert_storage env i (storage_info c) w1 = (r1, devs, w2)" by (metis prod_cases3)
    with e True i show ?thesis by (cases r1) (auto simp: Let_def)
  qed (use e in \<open>auto split: if_splits option.splits\<close>)
qed simp

lemma usage_update_devices: "update_devices env ok c w = (r, c', w') \<Longrightarrow> usage_info c' = usage_info c"
  by (auto simp: update_devices_def split: prod.splits)

lemma usage_updateDB: "updateDB env c w = (r, c', w') \<Longrightarrow> usage_info c' = usage_info c"
proof -
  assume e: "updateDB env c w = (r, c', w')"
  show ?thesis
  proof (cases "computer_id c \<noteq> - 1 \<and> sys_info_dirty c")
    case True
    with e have "run_query env (update_computer_query env (sys_info c) (computer_id c)) False c w (\<lambda>res w1.
          update_devices env (success res) (if success res then c\<lparr>sys_info_dirty := False\<rparr> else c) w1) = (r, c', w')"
      by (simp add: updateDB_def)
    then show ?thesis
      by (rule run_query_object [where P = "\<lambda>c'. usage_info c' = usage_info c"])
        (auto dest: usage_update_devices split: if_splits)
  qed (use e usage_update_devices [of env True c w r c' w'] in \<open>auto simp: updateDB_def split: if_splits\<close>)
qed

lemma usage_load_storage: "load_storage env c w = (r, c', w') \<Longrightarrow> usage_info c' = usage_info c"
  unfolding load_storage_def
  by (erule run_query_object) (auto simp: Let_def split: if_splits prod.splits sum.splits)

lemma usage_getFromDB: "getFromDB env c w = (r, c', w') \<Longrightarrow> usage_info c' = usage_info c"
proof (cases "computer_id c = - 1")
  case False
  assume "getFromDB env c w = (r, c', w')"
  with False have "run_query env (fmt_query env RMS_DB_FETCH_COMPUTER_BY_ID [FInt (computer_id c)]) False c w
        (\<lambda>res w1.
           if success res \<and> length (table_rows res) = 1 then
             (let (r, si) = load_columns (column_names res) (table_rows res ! 0)
                              [0..<length (column_names res)] (sys_info c);
                  c1 = c\<lparr>sys_info := si\<rparr>
              in case r of Inl e \<Rightarrow> (Inl e, c1, w1) | Inr _ \<Rightarrow> load_storage env c1 w1)
           else if success res then addToDB env c w1
           else (Inr False, c, w1)) = (r, c', w')"
    by (simp add: getFromDB_def)
  then show ?thesis
  proof (rule run_query_object [where P = "\<lambda>c'. usage_info c' = usage_info c"])
    fix x w1 r c' w'
    assume e: "(if success x \<and> length (table_rows x) = 1 then
             (let (r, si) = load_columns (column_names x) (table_rows x ! 0)
                              [0..<length (column_names x)] (sys_info c);
                  c1 = c\<lparr>sys_info := si\<rparr>
              in case r of Inl e \<Rightarrow> (Inl e, c1, w1) | Inr _ \<Rightarrow> load_storage env c1 w1)
           else if success x then addToDB env c w1
           else (Inr False, c, w1)) = (r, c', w')"
    obtain r1 si where l: "load_columns (column_names x) (table_rows x ! 0)
        [0..<length (column_names x)] (sys_info c) = (r1, si)" by fastforce
    show "usage_info c' = usage_info c"
      using e l usage_addToDB [of env c w1 r c' w'] usage_load_storage [of env "c\<lparr>sys_info := si\<rparr>" w1 r c' w']
      by (cases r1) (auto simp: Let_def split: if_splits)
  qed simp
qed (simp add: getFromDB_def)

lemma usage_ok_ingest_values:
  assumes "ingest_values env d (Some c) w = (r, pc', w')" "usage_ok c"
  shows "\<exists>c'. pc' = Some c' \<and> usage_ok c'"
proof -
  note cpu = usage_ok_add_cpu and ram = usage_ok_add_ram [OF assms(2)]
  show ?thesis
  proof (cases "rq_data_type d")
    case kRamUsage
    with assms ram [of "rqv_ram_data (rq_data d)"] show ?thesis
      by (auto simp: ingest_values_def split: prod.splits)
  next
    case kExecutorResult
    with assms(1) have "run_query env (update_executor_query env (rqv_executor_result (rq_data d))) False (Some c) w (\<lambda>res w1.
         if \<not> success res \<and> Some c = None then (Inl Null_Deref, Some c, w1) else (Inr (), Some c, w1)) = (r, pc', w')"
      by (simp add: ingest_values_def)
    then show ?thesis
      by (rule run_query_object [where P = "\<lambda>x. \<exists>c'. x = Some c' \<and> usage_ok c'"]) (auto simp: assms(2))
  qed (use assms cpu in \<open>auto simp: ingest_values_def\<close>)
qed

section \<open>The invariant\<close>

definition client_ok :: "RmsClient \<Rightarrow> bool" where
  "client_ok cl \<longleftrightarrow> (\<forall>c. computer cl = Some c \<longrightarrow> usage_ok c)"

definition ingestor_ok :: "RequestIngestor option \<Rightarrow> bool" where
  "ingestor_ok ing \<longleftrightarrow> (\<forall>db. ing = Some (Db_Ingestor db) \<longrightarrow> tick_ok db)"

definition server_ok :: "RmsServer \<Rightarrow> bool" where
  "server_ok s \<longleftrightarrow> distinct (clients s) \<and> set (clients s) \<subseteq> dom (client_heap s) \<and>
     (\<forall>p \<in> dom (client_heap s). p < next_ptr s) \<and> (\<forall>cl \<in> ran (client_heap s). client_ok cl) \<and>
     ingestor_ok (ingestor s)"

lemma server_ok_update:
  assumes "server_ok s" "client_heap s p = Some cl" "client_ok cl1"
  shows "server_ok (s\<lparr>client_heap := (client_heap s)(p \<mapsto> cl1)\<rparr>)"
  using assms by (auto simp: server_ok_def ran_def)

lemma server_ok_client: "server_ok s \<Longrightarrow> client_heap s p = Some cl \<Longrightarrow> client_ok cl"
  by (auto simp: server_ok_def ran_def)

lemma client_ok_frame [simp]:
  "client_ok (cl\<lparr>response_queue := q\<rparr>) = client_ok cl" "client_ok (addResponse r cl) = client_ok cl"
  "client_ok (cl\<lparr>computer := Some c\<rparr>) = usage_ok c" "client_ok new_client"
  by (simp_all add: client_ok_def addResponse_def new_client_def)

lemma remove_ids_filter: "remove_ids h i ps = Inr qs \<Longrightarrow> qs = filter (\<lambda>p. client_id h p \<noteq> Inr i) ps"
  by (induction ps arbitrary: qs) auto

lemma handshake_client_ok:
  assumes "handshake env i info cl w = (r, cl', w')"
  shows "client_ok cl'"
proof (cases "i = - 1")
  case True
  obtain r1 c1 w1 where a: "addToDB env (setSysInfo info (new_computer i)) w = (r1, c1, w1)" by (metis prod_cases3)
  have "usage_ok c1" using usage_ok_cong [OF usage_addToDB [OF a]] usage_ok_cong [of "setSysInfo info (new_computer i)" "new_computer i"]
    by simp
  with assms a True show ?thesis by (cases r1) (auto simp: handshake_def)
next
  case False
  obtain r1 c1 w1 where g: "getFromDB env (new_computer i) w = (r1, c1, w1)" by (metis prod_cases3)
  have ok1: "usage_ok c1" using usage_ok_cong [OF usage_getFromDB [OF g]] by simp
  obtain r2 c2 w2 where u: "updateDB env (setSysInfo info c1) w1 = (r2, c2, w2)" by (metis prod_cases3)
  have "usage_ok c2" using usage_ok_cong [OF usage_updateDB [OF u]] usage_ok_cong [of "setSysInfo info c1" c1] ok1 by simp
  with assms g u ok1 False show ?thesis by (cases r1; cases r2) (auto simp: handshake_def)
qed

lemma sendSysInfo_client_ok:
  assumes "sendSysInfo env info cl w = (r, cl', w')" "client_ok cl"
  shows "client_ok cl'"
proof (cases "computer cl")
  case (Some c)
  obtain r2 c2 w2 where u: "updateDB env (setSysInfo info c) w = (r2, c2, w2)" by (metis prod_cases3)
  have "usage_ok c2" using usage_ok_cong [OF usage_updateDB [OF u]] usage_ok_cong [of "setSysInfo info c" c] assms(2) Some
    by (simp add: client_ok_def)
  with assms(1) u Some show ?thesis by (cases r2) (auto simp: sendSysInfo_def)
qed (use assms in \<open>simp add: sendSysInfo_def\<close>)

lemma runCommand_client_ok:
  assumes "runCommand env cmd cl w = (r, cl', w')" "client_ok cl"
  shows "client_ok cl'"
proof (cases "getId cl")
  case (Inr i)
  obtain now w1 where t: "time_now env w = (now, w1)" by fastforce
  with assms(1) Inr have "run_query env (insert_executor_query env i now cmd) True cl w1 (\<lambda>res w2.
          if success res then
            (case last_id res of
               None \<Rightarrow> (Inl Indeterminate_Value, cl, w2)
             | Some i \<Rightarrow> (Inr (), addResponse (command_response i cmd) cl, w2))
          else (Inr (), cl, w2)) = (r, cl', w')" by (simp add: runCommand_def)
  then show ?thesis
    by (rule run_query_object [where P = client_ok]) (use assms(2) in \<open>auto split: if_splits option.splits\<close>)
qed (use assms in \<open>simp add: runCommand_def\<close>)

lemma push_tick_range:
  "tick_ok ing \<Longrightarrow> hours_ok env \<Longrightarrow> 0 \<le> push_tick env ing w \<and> push_tick env ing w \<le> 23"
  by (auto simp: tick_ok_def hours_ok_def push_tick_def)

lemma tick_ok_usage_push:
  assumes "usage_push env ing pc w = (r, ing', w')" "tick_ok ing" "hours_ok env"
  shows "tick_ok ing'"
proof -
  obtain now w1 where n: "steady_now env w = (now, w1)" by fastforce
  show ?thesis
  proof (cases "next_usage_push ing < now")
    case True
    show ?thesis
    proof (cases pc)
      case None
      with assms n True show ?thesis
        by (auto simp: usage_push_def tick_ok_def hours_ok_def split: prod.splits if_splits)
          (smt (verit))+
    next
      case (Some c)
      with usage_push_due [OF n True, of c r ing' w'] assms push_tick_range [OF assms(2,3), of w1]
      show ?thesis by (auto simp: tick_ok_def split: sum.splits if_splits)
    qed
  next
    case False
    with usage_push_not_due [OF n, of ing pc] assms(1,2) show ?thesis by simp
  qed
qed

lemma ingestRequestData_ok:
  assumes "ingestRequestData env d ing pc w = (r, ing', pc', w')" "tick_ok ing" "hours_ok env"
    and "\<forall>c. pc = Some c \<longrightarrow> usage_ok c"
  shows "tick_ok ing' \<and> (\<forall>c. pc' = Some c \<longrightarrow> usage_ok c)"
proof -
  obtain r1 comp1 w1 where v: "ingest_values env d pc w = (r1, comp1, w1)" by (metis prod_cases3)
  have c1: "\<forall>c. comp1 = Some c \<longrightarrow> usage_ok c"
  proof (cases pc)
    case None
    have "comp1 = None"
      using v None
      by (cases "rq_data_type d") (auto simp: ingest_values_def run_query_def split: if_splits prod.splits sum.splits)
    then show ?thesis by simp
  next
    case (Some c)
    with v assms(4) usage_ok_ingest_values [of env d c w r1 comp1 w1] show ?thesis by auto
  qed
  obtain r2 ing1 w2 where p: "usage_push env ing comp1 w1 = (r2, ing1, w2)" by (metis prod_cases3)
  from v p assms(1,2) c1 tick_ok_usage_push [OF p assms(2,3)] show ?thesis
    by (cases r1) (auto simp: ingestRequestData_def)
qed

lemma ingest_items_ok:
  assumes "ingest_items env ds ing pc w = (r, ing', pc', w')" "tick_ok ing" "hours_ok env"
    and "\<forall>c. pc = Some c \<longrightarrow> usage_ok c"
  shows "tick_ok ing' \<and> (\<forall>c. pc' = Some c \<longrightarrow> usage_ok c)"
  using assms
proof (induction ds arbitrary: ing pc w)
  case (Cons d ds)
  obtain r1 ing1 comp1 w1 where d: "ingestRequestData env d ing pc w = (r1, ing1, comp1, w1)" by (metis prod_cases4)
  note ok1 = ingestRequestData_ok [OF d Cons.prems(2-4)]
  show ?case
  proof (cases r1)
    case (Inl e)
    with d Cons.prems(1) ok1 show ?thesis by simp
  next
    case (Inr u)
    with d Cons.prems(1) have "ingest_items env ds ing1 comp1 w1 = (r, ing', pc', w')" by simp
    with Cons.IH ok1 Cons.prems(3) show ?thesis by blast
  qed
qed simp

lemma report_ok:
  assumes "report env req ing cl w = (r, ing', cl', w')" "ingestor_ok (Some ing)" "hours_ok env" "client_ok cl"
  shows "ingestor_ok (Some ing') \<and> client_ok cl'"
proof -
  obtain now w1 where t: "time_now env w = (now, w1)" by fastforce
  obtain x ing1 c1 w2 where i: "ingestRequest env req ing (computer cl) w1 = (x, ing1, c1, w2)" by (metis prod_cases4)
  have "computer (snd (drain res cl)) = computer cl" for res by (simp add: drain_all)
  then have r: "ing' = ing1" "cl' = cl\<lparr>response_queue := [], computer := c1\<rparr>"
    using assms(1) t i by (simp_all add: report_def drain_all)
  have "ingestor_ok (Some ing1) \<and> (\<forall>c. c1 = Some c \<longrightarrow> usage_ok c)"
  proof (cases ing)
    case LogRequestIngestor
    with i assms(2,4) show ?thesis by (auto simp: ingestRequest_def client_ok_def)
  next
    case (Db_Ingestor db)
    obtain y db1 c2 w3 where it: "ingest_items env (rq_items req) db (computer cl) w1 = (y, db1, c2, w3)" by (metis prod_cases4)
    have "tick_ok db" using assms(2) Db_Ingestor by (simp add: ingestor_ok_def)
    moreover have "\<forall>c. computer cl = Some c \<longrightarrow> usage_ok c" using assms(4) by (simp add: client_ok_def)
    ultimately have "tick_ok db1 \<and> (\<forall>c. c2 = Some c \<longrightarrow> usage_ok c)"
      using ingest_items_ok [OF it _ assms(3)] by blast
    moreover have "ing1 = Db_Ingestor db1" "c1 = c2" using i it Db_Ingestor by (simp_all add: ingestRequest_def)
    ultimately show ?thesis by (simp add: ingestor_ok_def)
  qed
  with r show ?thesis by (auto simp: client_ok_def)
qed

section \<open>Preservation\<close>

lemma server_ok_getHandler: "server_ok s \<Longrightarrow> server_ok (snd (getHandler s))"
  by (auto simp: server_ok_def getHandler_def addClient_def Let_def ran_def less_Suc_eq dest: domI)

lemma server_ok_on_client:
  assumes "server_ok s" "\<And>cl. client_heap s p = Some cl \<Longrightarrow> client_ok (f cl)"
  shows "server_ok (on_client p f s)"
  using assms server_ok_update by (auto simp: on_client_def split: option.splits)

lemma server_ok_call_client:
  assumes "server_ok s" "call_client p s w f = (r, s', w')"
    and "\<And>cl x cl1 w1. client_heap s p = Some cl \<Longrightarrow> f cl = (x, cl1, w1) \<Longrightarrow> client_ok cl1"
  shows "server_ok s'"
proof (cases "client_heap s p")
  case (Some cl)
  obtain x cl1 w1 where "f cl = (x, cl1, w1)" by (metis prod_cases3)
  with Some assms(2,3) server_ok_update [OF assms(1) Some, of cl1] show ?thesis
    by (simp add: call_client_def)
qed (use assms in \<open>simp add: call_client_def\<close>)

lemma server_ok_removeClient:
  assumes "server_ok s" "removeClient i s = (r, s')"
  shows "server_ok s' \<and> client_heap s' = client_heap s \<and>
    (\<forall>p. client_id (client_heap s) p = Inr i \<and> r = Inr () \<longrightarrow> p \<notin> set (clients s'))"
  using assms remove_ids_filter
  by (fastforce simp: removeClient_def server_ok_def split: sum.splits)

lemma server_ok_release:
  assumes "server_ok s" "releaseHandler p s = (r, s')"
  shows "server_ok s'"
proof (cases "client_id (client_heap s) p")
  case (Inr i)
  obtain r1 s1 where rm: "removeClient i s = (r1, s1)" by fastforce
  note ok = server_ok_removeClient [OF assms(1) rm]
  show ?thesis
  proof (cases r1)
    case (Inl e)
    with rm Inr ok assms(2) show ?thesis by (simp add: releaseHandler_def)
  next
    case (Inr u)
    have s': "s' = s1\<lparr>client_heap := (client_heap s1)(p := None)\<rparr>"
      using rm Inr \<open>client_id (client_heap s) p = Inr i\<close> assms(2) by (simp add: releaseHandler_def)
    have "p \<notin> set (clients s1)" using ok Inr \<open>client_id (client_heap s) p = Inr i\<close> by simp
    moreover have "ran ((client_heap s)(p := None)) \<subseteq> ran (client_heap s)" by (auto simp: ran_def)
    ultimately show ?thesis using ok s' by (auto simp: server_ok_def)
  qed
qed (use assms in \<open>simp add: releaseHandler_def\<close>)

lemma server_ok_report:
  assumes "server_ok s" "serve_report env p req s w = (r, s', w')" "hours_ok (server_env env s)"
  shows "server_ok s'"
proof (cases "client_heap s p")
  case (Some cl)
  show ?thesis
  proof (cases "ingestor s")
    case ing: (Some ing)
    obtain x ing1 cl1 w1 where rep: "report (server_env env s) req ing cl w = (x, ing1, cl1, w1)" by (metis prod_cases4)
    have "ingestor_ok (Some ing1) \<and> client_ok cl1"
      using report_ok [OF rep _ assms(3)] server_ok_client [OF assms(1) Some] assms(1) ing
      by (simp add: server_ok_def)
    with server_ok_update [OF assms(1) Some, of cl1] Some ing rep assms(2) show ?thesis
      by (auto simp: serve_report_def server_ok_def)
  qed (use Some assms in \<open>simp add: serve_report_def\<close>)
qed (use assms in \<open>simp add: serve_report_def\<close>)

lemma server_ok_get_command: "server_ok s \<Longrightarrow> server_ok (snd (get_command cmd s))"
proof -
  assume s: "server_ok s"
  then have "server_ok (on_client p (addResponse sys_info_request) s)" for p
    using server_ok_client [OF s] by (intro server_ok_on_client) simp_all
  with s show ?thesis
    by (auto simp: get_command_def split: sum.splits option.splits)
qed

lemma server_ok_exec_command:
  assumes "server_ok s" "exec_command env cmd s w = (r, s', w')"
  shows "server_ok s'"
proof -
  obtain i c where pe: "parse_exec cmd = (i, c)" by fastforce
  show ?thesis
  proof (cases "\<exists>p cl. getClient i s = Inr (Some p) \<and> client_heap s p = Some cl")
    case True
    then obtain p cl where p: "getClient i s = Inr (Some p)" "client_heap s p = Some cl" by blast
    obtain x cl1 w1 where rc: "runCommand (server_env env s) c cl w = (x, cl1, w1)" by (metis prod_cases3)
    have "client_ok cl1" using runCommand_client_ok [OF rc] server_ok_client [OF assms(1) p(2)] by simp
    then have "server_ok (on_client p (\<lambda>_. cl1) s)" by (intro server_ok_on_client [OF assms(1)])
    with assms(2) pe p rc show ?thesis by (cases x) (simp_all add: exec_command_def)
  next
    case False
    with assms pe show ?thesis
      by (auto simp: exec_command_def split: sum.splits option.splits)
  qed
qed

lemma server_ok_run_line:
  assumes "server_ok s" "run_line env show_version cmd s w = (r, s', w')"
  shows "server_ok s'"
  using assms(2) server_ok_get_command [OF assms(1), of cmd] server_ok_exec_command [OF assms(1), of env cmd w r s' w'] assms(1)
  by (auto simp: run_line_def case_prod_beta split: if_splits)

lemma server_ok_exec:
  assumes "server_ok s" "server_exec env show_version ev s w = (r, s', w')" "hours_ok env"
  shows "server_ok s'"
proof (cases ev)
  case Connect
  with assms server_ok_getHandler [OF assms(1)] show ?thesis by (simp add: server_exec_def)
next
  case (Handshake p i info)
  with assms(2) have "call_client p s w (\<lambda>cl. handshake (server_env env s) i info cl w) = (r, s', w')"
    by (simp add: server_exec_def)
  then show ?thesis by (rule server_ok_call_client [OF assms(1)]) (rule handshake_client_ok)
next
  case (Report p req)
  have "hours_ok (server_env env s)" using assms(3) by (simp add: server_env_def hours_ok_def null_database_def)
  with Report assms(2) server_ok_report [OF assms(1), of env p req w r s' w'] show ?thesis
    by (simp add: server_exec_def)
next
  case (Send_Sys_Info p info)
  with assms(2) have "call_client p s w (\<lambda>cl. sendSysInfo (server_env env s) info cl w) = (r, s', w')"
    by (simp add: server_exec_def)
  then show ?thesis
    by (rule server_ok_call_client [OF assms(1)]) (rule sendSysInfo_client_ok, use server_ok_client [OF assms(1)] in auto)
next
  case (Disconnect p)
  with assms(2) have "releaseHandler p s = (r, s')"
    by (simp add: server_exec_def split: prod.splits)
  then show ?thesis by (rule server_ok_release [OF assms(1)])
next
  case (Line cmd)
  obtain x s1 w1 where l: "run_line env show_version cmd s w = (x, s1, w1)" by (metis prod_cases3)
  with Line assms(2) server_ok_run_line [OF assms(1) l] show ?thesis by (simp add: server_exec_def)
qed

lemma server_run_ok:
  "server_run env show_version c evs c' \<Longrightarrow> hours_ok env \<Longrightarrow> server_ok (fst c) \<Longrightarrow> server_ok (fst c')"
proof (induction rule: server_run.induct)
  case (run_step c evs s w ev s' w')
  then have "server_ok s" by simp
  with run_step.hyps(2) run_step.prems(1) show ?case
    by (auto elim!: server_stepE intro: server_ok_exec)
qed

lemma client_id_not_dangling: "p \<in> dom h \<Longrightarrow> client_id h p \<noteq> Inl Dangling_Pointer"
  by (auto simp: client_id_def getId_def split: option.splits)

lemma registry_no_dangling:
  assumes "server_ok s"
  shows "getClientsIdList s \<noteq> Inl Dangling_Pointer" "getClient i s \<noteq> Inl Dangling_Pointer"
    "fst (removeClient i s) \<noteq> Inl Dangling_Pointer" "printClients s \<noteq> Inl Dangling_Pointer"
proof -
  have sub: "set (clients s) \<subseteq> dom (client_heap s)" using assms by (simp add: server_ok_def)
  note nd = client_id_not_dangling [of _ "client_heap s"]
  have 1: "set ps \<subseteq> dom (client_heap s) \<Longrightarrow> client_ids (client_heap s) ps \<noteq> Inl Dangling_Pointer" for ps
    using nd by (induction ps) (auto simp: rbind_eq_Inl)
  have 2: "set ps \<subseteq> dom (client_heap s) \<Longrightarrow> find_client (client_heap s) i ps \<noteq> Inl Dangling_Pointer" for ps
    using nd by (induction ps) (auto simp: rbind_eq_Inl split: if_splits)
  have 3: "set ps \<subseteq> dom (client_heap s) \<Longrightarrow> remove_ids (client_heap s) i ps \<noteq> Inl Dangling_Pointer" for ps
    using nd by (induction ps) (auto simp: rbind_eq_Inl)
  have 4: "set ps \<subseteq> dom (client_heap s) \<Longrightarrow> client_rows (client_heap s) ps \<noteq> Inl Dangling_Pointer" for ps
    by (induction ps) (auto simp: rbind_eq_Inl getId_def getName_def split: option.splits)
  show "getClientsIdList s \<noteq> Inl Dangling_Pointer" "getClient i s \<noteq> Inl Dangling_Pointer"
    "fst (removeClient i s) \<noteq> Inl Dangling_Pointer" "printClients s \<noteq> Inl Dangling_Pointer"
    using 1 [OF sub] 2 [OF sub] 3 [OF sub] 4 [OF sub]
    by (auto simp: getClientsIdList_def getClient_def removeClient_def printClients_def rbind_eq_Inl split: sum.splits)
qed

text \<open>
  C1. Under every interleaving of connections, calls, disconnections and terminal lines,
  with any database, the server keeps its invariant: the registry has no duplicates, every
  registered pointer is a live client object and no operation of the registry meets a
  dangling one, every usage container holds at most 61 points and there is one per kind and
  id, and the tick of the ingestor is an hour of the day or not yet set.
\<close>

theorem reachable_server_ok:
  assumes "server_run env show_version (s0, w0) evs (s, w)" "hours_ok env" "server_ok s0"
  shows "server_ok s \<and> getClientsIdList s \<noteq> Inl Dangling_Pointer \<and> getClient i s \<noteq> Inl Dangling_Pointer \<and>
    fst (removeClient i s) \<noteq> Inl Dangling_Pointer \<and> printClients s \<noteq> Inl Dangling_Pointer"
proof -
  have "server_ok s" using server_run_ok [OF assms(1,2)] assms(3) by simp
  with registry_no_dangling [OF this] show ?thesis by blast
qed

lemma server_ok_new [simp]: "server_ok new_server" "server_ok (new_server\<lparr>ingestor := Some LogRequestIngestor\<rparr>)"
  by (simp_all add: server_ok_def new_server_def ingestor_ok_def)

lemma sample_env_hours: "hours_ok sample_env"
  by (simp add: hours_ok_def sample_env_def)

theorem reachable_server_ok_witness:
  "\<exists>s w. server_run sample_env (\<lambda>_. []) (new_server, 0) [Connect, Connect] (s, w) \<and> clients s = [0, 1] \<and> server_ok s"
proof -
  let ?s1 = "snd (getHandler new_server)" and ?s2 = "snd (getHandler (snd (getHandler new_server)))"
  have step: "server_step sample_env (\<lambda>_. []) (s, w) Connect (snd (getHandler s), w)" for s w
    by (simp add: server_step_simps server_exec_def enabled_def survives_def)
  have run: "server_run sample_env (\<lambda>_. []) (new_server, 0) ([] @ [Connect] @ [Connect]) (?s2, 0)"
    using run_step [OF run_step [OF run_start step] step] by simp
  have c: "clients ?s2 = [0, 1]" by (simp add: getHandler_def addClient_def new_server_def)
  from run c reachable_server_ok [OF run sample_env_hours, of 0] show ?thesis
    by (intro exI [of _ ?s2] exI [of _ "0::nat"]) simp
qed

end
