(* ===== verification/Server_Threads.thy ===== *)
theory Server_Threads
  imports Server_System
begin

text \<open>
  The lines of the terminal that use a client (\<open>info client\<close>, \<open>get sys-info\<close>, \<open>exec\<close> of
  \<open>rms_terminal.cpp\<close>) as two steps of the terminal thread: \<open>getClient\<close> holds the client mutex
  for the lookup only, and the raw pointer it returns is used after that. Between the two
  the threads of the connections go on, and the one of that client may close and free it.
\<close>

section \<open>A line in two steps\<close>

datatype held_line = Held_Info nat | Held_Get nat | Held_Exec nat string

fun held_ptr :: "held_line \<Rightarrow> nat" where
  "held_ptr (Held_Info p) = p"
| "held_ptr (Held_Get p) = p"
| "held_ptr (Held_Exec p cmd) = p"

definition found_client :: "nat option res \<Rightarrow> nat option" where
  "found_client r = (case r of Inr (Some p) \<Rightarrow> Some p | _ \<Rightarrow> None)"

definition scanned_client :: "int option res \<Rightarrow> RmsServer \<Rightarrow> nat option" where
  "scanned_client r s = (case r of Inr (Some i) \<Rightarrow> found_client (getClient i s) | _ \<Rightarrow> None)"

text \<open>Up to the end of \<open>getClient\<close>: the client that the rest of the line is about, if there is one.\<close>

definition lookup_line :: "string \<Rightarrow> RmsServer \<Rightarrow> held_line option" where
  "lookup_line cmd s =
     (if starts_with cmd ''info'' then
        (if starts_with cmd ''info client''
         then map_option Held_Info (scanned_client (scan_id info_client_format cmd) s) else None)
      else if starts_with cmd ''get'' then
        (if starts_with cmd ''get sys-info''
         then map_option Held_Get (scanned_client (scan_id get_sys_info_format cmd) s) else None)
      else if starts_with cmd ''exec'' then
        (let (i, client_cmd) = parse_exec cmd in map_option (\<lambda>p. Held_Exec p client_cmd) (found_client (getClient i s)))
      else None)"

text \<open>The rest of the line, in the state the server has by then.\<close>

definition use_line ::
  "'w env \<Rightarrow> (VersionData \<Rightarrow> string) \<Rightarrow> held_line \<Rightarrow> RmsServer \<Rightarrow> 'w \<Rightarrow> term_output res \<times> RmsServer \<times> 'w"
where
  "use_line env show_version h s w = (case client_heap s (held_ptr h) of
     None \<Rightarrow> (Inl Dangling_Pointer, s, w)
   | Some cl \<Rightarrow> (case h of
       Held_Info p \<Rightarrow> (rbind (getComputerAsString show_version cl) (\<lambda>t. Inr (to_out t)), s, w)
     | Held_Get p \<Rightarrow>
         (Inr (to_out (''Get request sent. sys-info being retrieved.'' @ endl)), on_client p (addResponse sys_info_request) s, w)
     | Held_Exec p client_cmd \<Rightarrow>
         (let (r, cl1, w1) = runCommand (server_env env s) client_cmd cl w
          in (rbind r (\<lambda>_. Inr (to_out (''Running command: '' @ client_cmd @ endl))), on_client p (\<lambda>_. cl1) s, w1))))"

lemma starts_with_first: "starts_with cmd p \<Longrightarrow> p \<noteq> [] \<Longrightarrow> cmd \<noteq> [] \<and> hd cmd = hd p"
  by (cases cmd; cases p) (auto simp: starts_with_def)

text \<open>
  A line of the terminal is its lookup and then its use: when nothing happens between the
  two it does what \<open>run_line\<close> says, and a line that finds no client changes nothing.
\<close>

theorem line_in_two_steps:
  "case lookup_line cmd s of
     None \<Rightarrow> \<exists>r. run_line env show_version cmd s w = (r, s, w)
   | Some h \<Rightarrow> run_line env show_version cmd s w = use_line env show_version h s w"
proof -
  note first = starts_with_first [of cmd]
  consider (info) "starts_with cmd ''info''" | (get) "starts_with cmd ''get''" | (exec) "starts_with cmd ''exec''"
    | (other) "\<not> starts_with cmd ''info''" "\<not> starts_with cmd ''get''" "\<not> starts_with cmd ''exec''" by blast
  then show ?thesis
  proof cases
    case info
    then have "run_line env show_version cmd s w = (info_command show_version cmd s, s, w)"
      using first [of "''info''"] by (auto simp: run_line_def)
    with info show ?thesis
      by (auto simp: lookup_line_def info_command_def scanned_client_def found_client_def use_line_def
        split: sum.splits option.splits)
  next
    case get
    then have no: "\<not> starts_with cmd ''info''" using first [of "''get''"] first [of "''info''"] by auto
    have "run_line env show_version cmd s w = (fst (get_command cmd s), snd (get_command cmd s), w)"
      using get no first [of "''get''"] by (auto simp: run_line_def case_prod_beta)
    with get no show ?thesis
      by (auto simp: lookup_line_def get_command_def scanned_client_def found_client_def use_line_def
        split: sum.splits option.splits)
  next
    case exec
    then have no: "\<not> starts_with cmd ''info''" "\<not> starts_with cmd ''get''"
      using first [of "''exec''"] first [of "''info''"] first [of "''get''"] by auto
    have "run_line env show_version cmd s w = exec_command env cmd s w"
      using exec no first [of "''exec''"] by (auto simp: run_line_def)
    with exec no show ?thesis
      by (auto simp: lookup_line_def exec_command_def found_client_def use_line_def Let_def case_prod_beta
        split: sum.splits option.splits)
  next
    case other
    then show ?thesis by (simp add: lookup_line_def run_line_def)
  qed
qed

section \<open>Between the two\<close>

definition same_objects :: "RmsServer \<Rightarrow> RmsServer \<Rightarrow> bool" where
  "same_objects s s' \<longleftrightarrow> dom (client_heap s') = dom (client_heap s) \<and> next_ptr s' = next_ptr s"

lemma same_objects_refl [simp]: "same_objects s s"
  by (simp add: same_objects_def)

lemma same_objects_on_client [simp]: "same_objects s (on_client p f s)"
  by (auto simp: same_objects_def on_client_def split: option.splits)

lemma same_objects_use_line: "use_line env show_version h s w = (r, s', w') \<Longrightarrow> same_objects s s'"
  by (cases h) (auto simp: use_line_def case_prod_beta Let_def split: option.splits)

lemma same_objects_run_line: "run_line env show_version cmd s w = (r, s', w') \<Longrightarrow> same_objects s s'"
  using line_in_two_steps [where cmd = cmd and s = s and env = env and show_version = show_version and w = w]
  by (auto split: option.splits dest: same_objects_use_line)

lemma client_id_error: "client_id h p = Inl e \<Longrightarrow> e = Dangling_Pointer \<or> e = Null_Deref"
  by (auto simp: client_id_def getId_def split: option.splits)

lemma remove_ids_error: "remove_ids h i ps = Inl e \<Longrightarrow> e = Dangling_Pointer \<or> e = Null_Deref"
  by (induction ps) (auto simp: rbind_eq_Inl dest: client_id_error)

lemma releaseHandler_error: "releaseHandler p s = (Inl e, s') \<Longrightarrow> e = Dangling_Pointer \<or> e = Null_Deref"
  by (auto simp: releaseHandler_def removeClient_def split: sum.splits dest: client_id_error remove_ids_error)

lemma releaseHandler_heap:
  "releaseHandler p s = (Inr u, s') \<Longrightarrow> dom (client_heap s') = dom (client_heap s) - {p} \<and> next_ptr s' = next_ptr s"
  by (auto simp: releaseHandler_def removeClient_def split: sum.splits if_splits)

text \<open>
  The objects that exist after an event: a connection adds a fresh one, the closing of a
  connection takes that one away, nothing else creates or frees a client.
\<close>

lemma objects_after:
  assumes "server_step env show_version (s, w) ev (s', w')" "p < next_ptr s"
  shows "(p \<in> dom (client_heap s') \<longleftrightarrow> p \<in> dom (client_heap s) \<and> ev \<noteq> Disconnect p) \<and> p < next_ptr s'"
proof -
  from assms(1) obtain r where en: "enabled ev s" and ex: "server_exec env show_version ev s w = (r, s', w')"
    and sv: "survives ev r" by (auto elim: server_stepE)
  show ?thesis
  proof (cases ev)
    case Connect
    with ex assms(2) show ?thesis by (auto simp: server_exec_def getHandler_def addClient_def Let_def)
  next
    case (Handshake q i info)
    with ex assms(2) show ?thesis by (auto simp: server_exec_def call_client_def split: option.splits prod.splits if_splits)
  next
    case (Report q req)
    with ex assms(2) show ?thesis by (auto simp: server_exec_def serve_report_def split: option.splits prod.splits if_splits)
  next
    case (Send_Sys_Info q info)
    with ex assms(2) show ?thesis by (auto simp: server_exec_def call_client_def split: option.splits prod.splits if_splits)
  next
    case (Disconnect q)
    with ex have rel: "releaseHandler q s = (r, s')" by (simp add: server_exec_def split: prod.splits)
    obtain u where "r = Inr u"
      using sv releaseHandler_error [of q s _ s'] rel by (cases r) (auto simp: survives_def)
    with releaseHandler_heap [of q s u s'] rel Disconnect assms(2) show ?thesis by auto
  next
    case (Line cmd)
    obtain x s1 w1 where l: "run_line env show_version cmd s w = (x, s1, w1)" by (metis prod_cases3)
    from same_objects_run_line [OF l] Line ex l assms(2) show ?thesis by (simp add: server_exec_def same_objects_def)
  qed
qed

lemma objects_after_run:
  "server_run env show_version c evs c' \<Longrightarrow> p < next_ptr (fst c) \<Longrightarrow> p \<in> dom (client_heap (fst c)) \<Longrightarrow>
     (p \<in> dom (client_heap (fst c')) \<longleftrightarrow> Disconnect p \<notin> set evs) \<and> p < next_ptr (fst c')"
proof (induction rule: server_run.induct)
  case (run_step c evs s w ev s' w')
  then show ?case using objects_after [OF run_step.hyps(2), of p] by auto
qed simp

lemma found_live: "server_ok s \<Longrightarrow> getClient i s = Inr (Some p) \<Longrightarrow> p \<in> dom (client_heap s)"
proof -
  have "find_client h i ps = Inr (Some p) \<Longrightarrow> p \<in> set ps" for h ps
    by (induction ps) (auto simp: rbind_eq_Inr split: if_splits)
  then show "server_ok s \<Longrightarrow> getClient i s = Inr (Some p) \<Longrightarrow> p \<in> dom (client_heap s)"
    by (auto simp: server_ok_def getClient_def)
qed

lemma lookup_live: "server_ok s \<Longrightarrow> lookup_line cmd s = Some h \<Longrightarrow> held_ptr h \<in> dom (client_heap s)"
  by (auto simp: lookup_line_def scanned_client_def found_client_def Let_def split: if_splits sum.splits option.splits prod.splits
    dest!: found_live)

definition queries_live :: "'w env \<Rightarrow> bool" where
  "queries_live env \<longleftrightarrow> (\<forall>q ret w. fst (execute_query env q ret w) \<noteq> Inl Dangling_Pointer)"

lemma runCommand_live:
  assumes "queries_live env"
  shows "fst (runCommand env cmd cl w) \<noteq> Inl Dangling_Pointer"
proof (cases "getId cl")
  case (Inl e)
  then show ?thesis by (auto simp: runCommand_def getId_def split: option.splits)
next
  case (Inr i)
  obtain now w1 where t: "time_now env w = (now, w1)" by fastforce
  obtain x w2 where q: "execute_query env (insert_executor_query env i now cmd) True w1 = (x, w2)" by fastforce
  have "x \<noteq> Inl Dangling_Pointer" using assms q unfolding queries_live_def by (metis fst_conv)
  with Inr t q show ?thesis by (cases x) (auto simp: runCommand_def run_query_def split: option.splits)
qed

lemma use_line_live:
  assumes "queries_live env" "held_ptr h \<in> dom (client_heap s)"
  shows "fst (use_line env show_version h s w) \<noteq> Inl Dangling_Pointer"
proof -
  obtain cl where cl: "client_heap s (held_ptr h) = Some cl" using assms(2) by blast
  have env: "queries_live (server_env env s)"
    using assms(1) by (simp add: queries_live_def server_env_def null_database_def)
  show ?thesis
    using cl runCommand_live [OF env]
    by (cases h) (auto simp: use_line_def rbind_eq_Inl getComputerAsString_def case_prod_beta Let_def split: option.splits)
qed

text \<open>
  C21. The client that a line found can be gone when the line uses it, and this is exactly when
  its connection was closed in between, whatever the other threads did: then the terminal
  dereferences the pointer of a freed object; otherwise the line runs on that object. (The
  objects of the model have distinct addresses; if the freed one is reused the line hits
  another client instead.)
\<close>

theorem held_client_freed:
  assumes "server_run env show_version (s0, w0) before (s, w)" "server_ok s0" "hours_ok env" "queries_live env"
    and "lookup_line cmd s = Some h" "server_run env show_version (s, w) between (s', w')"
  shows "fst (use_line env show_version h s' w') = Inl Dangling_Pointer \<longleftrightarrow> Disconnect (held_ptr h) \<in> set between"
proof -
  have ok: "server_ok s" using server_run_ok [OF assms(1,3)] assms(2) by simp
  have live: "held_ptr h \<in> dom (client_heap s)" by (rule lookup_live [OF ok assms(5)])
  then have "held_ptr h < next_ptr s" using ok by (simp add: server_ok_def)
  from objects_after_run [OF assms(6), of "held_ptr h"] this live
  have "held_ptr h \<in> dom (client_heap s') \<longleftrightarrow> Disconnect (held_ptr h) \<notin> set between" by simp
  moreover have "held_ptr h \<notin> dom (client_heap s') \<Longrightarrow> use_line env show_version h s' w' = (Inl Dangling_Pointer, s', w')"
    by (simp add: use_line_def domIff)
  ultimately show ?thesis using use_line_live [OF assms(4), of h s' show_version w'] by auto
qed

lemma sample_server_ok: "server_ok sample_server"
  by (auto simp: server_ok_def sample_server_def sample_client_def client_ok_def ingestor_ok_def ran_def split: if_splits)

theorem held_client_freed_witness:
  "\<exists>h s'. lookup_line (''exec '' @ to_string 6) sample_server = Some h \<and>
     server_run sample_env (\<lambda>_. []) (sample_server, 0) [Disconnect 1] (s', 0) \<and>
     fst (use_line sample_env (\<lambda>_. []) h s' 0) = Inl Dangling_Pointer"
proof -
  let ?line = "''exec '' @ to_string 6" and ?s = "sample_server\<lparr>clients := [0, 2], client_heap := (client_heap sample_server)(1 := None)\<rparr>"
  have six: "in_i32 6" by (simp add: in_i32_def)
  have "getClient 6 sample_server = Inr (Some 1)"
    unfolding getClient_shaken [OF sample_server_shaken] by (simp add: sample_server_def id_of_def sample_client_def new_computer_def in_i32_def)
  then have l: "lookup_line ?line sample_server = Some (Held_Exec 1 ''exec'')"
    using parse_exec_fields(1) [OF six, of "[]"] parse_exec_fields(2) [OF six, of "[]"]
    by (simp add: lookup_line_def starts_with_def found_client_def parse_exec_def keep_def extract_line_def open_stream_def)
  have sh: "shaken (client_heap sample_server) 1" using sample_server_shaken by (simp add: all_shaken_def sample_server_def)
  have "releaseHandler 1 sample_server = (Inr (), ?s)"
    unfolding releaseHandler_shaken [OF sample_server_shaken sh]
    by (simp add: sample_server_def id_of_def sample_client_def new_computer_def in_i32_def)
  then have "server_step sample_env (\<lambda>_. []) (sample_server, 0) (Disconnect 1) (?s, 0)"
    using sh by (auto simp: server_step_simps enabled_def server_exec_def survives_def shaken_def)
  from run_step [OF run_start this] have r: "server_run sample_env (\<lambda>_. []) (sample_server, 0) [Disconnect 1] (?s, 0)" by simp
  have "queries_live sample_env" "hours_ok sample_env" by (simp_all add: queries_live_def hours_ok_def sample_env_def)
  from held_client_freed [OF run_start sample_server_ok this(2,1) l r] l r show ?thesis by auto
qed

section \<open>The list of the clients\<close>

text \<open>
  \<open>printClients\<close> iterates over the vector without the mutex, with the end taken at the start:
  row \<open>k\<close> reads the vector as it is by then.
\<close>

definition print_row :: "RmsServer \<Rightarrow> nat \<Rightarrow> string res" where
  "print_row s k =
     (if k < length (clients s) then (case client_heap s (clients s ! k) of
        None \<Rightarrow> Inl Dangling_Pointer
      | Some cl \<Rightarrow> rbind (getId cl) (\<lambda>i. rbind (getName cl) (\<lambda>name. Inr (client_row i name))))
      else Inl Out_Of_Bounds)"

fun print_rows :: "(nat \<Rightarrow> RmsServer) \<Rightarrow> nat \<Rightarrow> nat \<Rightarrow> string res" where
  "print_rows seen 0 k = Inr []"
| "print_rows seen (Suc n) k =
     rbind (print_row (seen k) k) (\<lambda>row. rbind (print_rows seen n (Suc k)) (\<lambda>rows. Inr (row @ rows)))"

definition print_interleaved :: "RmsServer \<Rightarrow> (nat \<Rightarrow> RmsServer) \<Rightarrow> string res" where
  "print_interleaved s seen =
     rbind (print_rows seen (length (clients s)) 0)
       (\<lambda>rows. Inr ('' ID    NAME'' @ [newline] @ ''----  ------'' @ [newline] @ rows))"

lemma rbind_assoc: "rbind (rbind m f) g = rbind m (\<lambda>x. rbind (f x) g)"
  by (cases m) simp_all

lemma print_rows_drop: "print_rows (\<lambda>_. s) n k = client_rows (client_heap s) (take n (drop k (clients s)))"
  if "n + k \<le> length (clients s)" for s
  using that
proof (induction n arbitrary: k)
  case (Suc n)
  then have "drop k (clients s) = clients s ! k # drop (Suc k) (clients s)" by (simp add: Cons_nth_drop_Suc)
  with Suc show ?case by (simp add: print_row_def rbind_assoc split: option.splits)
qed simp

text \<open>
  When nothing happens meanwhile, the rows that the list of the clients prints one by one
  are those of \<open>printClients\<close>.
\<close>

theorem print_alone: "print_interleaved s (\<lambda>_. s) = printClients s"
  by (simp add: print_interleaved_def printClients_def print_rows_drop)

lemma print_row_shaken:
  assumes "all_shaken s" "k < length (clients s)"
  shows "\<exists>row. print_row s k = Inr row"
proof -
  have "shaken (client_heap s) (clients s ! k)" using assms by (simp add: all_shaken_def)
  then show ?thesis using assms(2) by (auto simp: shaken_def print_row_def getId_def getName_def)
qed

lemma print_rows_stop:
  assumes "\<And>j. k \<le> j \<Longrightarrow> j < k + n \<Longrightarrow> \<exists>row. print_row (seen j) j = Inr row" "print_row (seen (k + n)) (k + n) = Inl e"
  shows "print_rows seen (Suc n) k = Inl e"
  using assms
proof (induction n arbitrary: k)
  case (Suc n)
  obtain row where "print_row (seen k) k = Inr row" using Suc.prems(1) [of k] by auto
  moreover have "print_rows seen (Suc n) (Suc k) = Inl e" using Suc.prems by (intro Suc.IH) simp_all
  ultimately show ?case by simp
qed simp

text \<open>
  When a connection is closed while the clients are listed, before the last row is
  printed, the loop goes on to the old end of the vector and reads past the new one.
\<close>

theorem print_while_closing:
  assumes "all_shaken s" "p \<in> set (clients s)" "releaseHandler p s = (r, s')"
  shows "print_interleaved s (\<lambda>k. if Suc k < length (clients s) then s else s') = Inl Out_Of_Bounds"
proof -
  have sh: "shaken (client_heap s) p" using assms(1,2) by (simp add: all_shaken_def)
  have "clients s' = filter (\<lambda>q. id_of (client_heap s) q \<noteq> id_of (client_heap s) p) (clients s)"
    using assms(3) releaseHandler_shaken [OF assms(1) sh] by auto
  moreover have "length (filter (\<lambda>q. id_of (client_heap s) q \<noteq> id_of (client_heap s) p) (clients s)) < length (clients s)"
    using assms(2) by (intro length_filter_less) simp_all
  ultimately have short: "length (clients s') < length (clients s)" by simp
  then obtain n where n: "length (clients s) = Suc n" by (cases "length (clients s)") simp_all
  let ?seen = "\<lambda>k. if Suc k < length (clients s) then s else s'"
  have "print_rows ?seen (Suc n) 0 = Inl Out_Of_Bounds"
  proof (rule print_rows_stop)
    fix j
    assume "j < 0 + n"
    with n print_row_shaken [OF assms(1), of j] show "\<exists>row. print_row (?seen j) j = Inr row" by simp
  next
    show "print_row (?seen (0 + n)) (0 + n) = Inl Out_Of_Bounds" using n short by (simp add: print_row_def)
  qed
  with n show ?thesis by (simp add: print_interleaved_def)
qed

theorem print_while_closing_witness:
  "\<exists>s'. releaseHandler 1 sample_server = (Inr (), s') \<and>
     print_interleaved sample_server (\<lambda>k. if Suc k < 3 then sample_server else s') = Inl Out_Of_Bounds"
proof -
  have m: "1 \<in> set (clients sample_server)" "length (clients sample_server) = 3" by (simp_all add: sample_server_def)
  have "shaken (client_heap sample_server) 1" using sample_server_shaken m by (simp add: all_shaken_def)
  from releaseHandler_shaken [OF sample_server_shaken this]
  obtain s' where "releaseHandler 1 sample_server = (Inr (), s')" by blast
  with print_while_closing [OF sample_server_shaken m(1) this] m(2) show ?thesis by auto
qed

end
