(* ===== verification/Query_Threads.thy ===== *)
theory Query_Threads
  imports Rms_Sqlite
begin

text \<open>
  \<open>executeQuery\<close> (\<open>server/src/database/rms_sqlite_database.cpp\<close>) as the steps of a thread: the server
  has one thread for each connection and one for the terminal, all of them use one database
  handle without a lock, and SQLite makes each of its calls atomic but not the sequence.
  A thread that runs alone computes what \<open>Rms_Sqlite\<close> says; with others, the id of an
  inserted row can be that of a row that another thread inserted.
\<close>

section \<open>One thread\<close>

text \<open>Between the calls of the library. \<open>Stepped\<close> also keeps the id its own statement got.\<close>

datatype 'stmt query_pc =
    Called
  | Prepared 'stmt
  | Stepped 'stmt int
  | Fetching int 'stmt "string list" "string list list"
  | Fetched 'stmt "string list" "string list list"
  | Finalizing 'stmt RmsQueryResult
  | Returned RmsQueryResult

definition query_step ::
  "('w, 'stmt) sqlite_api \<Rightarrow> string \<Rightarrow> bool \<Rightarrow> 'stmt query_pc \<Rightarrow> 'w \<Rightarrow> 'stmt query_pc \<times> 'w"
where
  "query_step api query return_insert_id p w = (case p of
     Called \<Rightarrow>
       (let (rc, st, w1) = sqlite3_prepare_v2 api query w
        in (if rc \<noteq> SQLITE_OK
            then Returned \<lparr>success = False, last_id = None, column_names = [], table_rows = []\<rparr>
            else Prepared st, w1))
   | Prepared st \<Rightarrow>
       (let n = sqlite3_column_count api st; (rc, st1, w1) = sqlite3_step api st w
        in (if n = 0 then Stepped st1 (sqlite3_last_insert_rowid api w1)
            else Fetching rc st1 (map (sqlite3_column_name api st) [0..<n]) [], w1))
   | Stepped st own \<Rightarrow>
       (Finalizing st \<lparr>success = True, last_id = insert_id api return_insert_id w, column_names = [], table_rows = []\<rparr>, w)
   | Fetching rc st names rows \<Rightarrow>
       (if rc = SQLITE_ROW then
          (let (rc1, st1, w1) = sqlite3_step api st w
           in (Fetching rc1 st1 names (rows @ [row_of api (length names) st]), w1))
        else (Fetched st names rows, w))
   | Fetched st names rows \<Rightarrow>
       (Finalizing st \<lparr>success = True, last_id = insert_id api return_insert_id w, column_names = names, table_rows = rows\<rparr>, w)
   | Finalizing st res \<Rightarrow> (Returned res, sqlite3_finalize api st w)
   | Returned res \<Rightarrow> (p, w))"

text \<open>The thread alone, for a number of steps.\<close>

fun query_steps ::
  "('w, 'stmt) sqlite_api \<Rightarrow> string \<Rightarrow> bool \<Rightarrow> nat \<Rightarrow> 'stmt query_pc \<times> 'w \<Rightarrow> 'stmt query_pc \<times> 'w"
where
  "query_steps api query ret 0 c = c"
| "query_steps api query ret (Suc k) c = query_steps api query ret k (query_step api query ret (fst c) (snd c))"

lemma query_steps_add: "query_steps api q ret (j + k) c = query_steps api q ret k (query_steps api q ret j c)"
  by (induction j arbitrary: c) simp_all

lemma query_steps_Returned: "query_steps api q ret k (Returned res, w) = (Returned res, w)"
  by (induction k) (simp_all add: query_step_def)

lemma query_steps_fetch:
  assumes "cursor_rows api n rc st w rows st' w'" "length names = n"
  shows "query_steps api q ret (Suc (length rows)) (Fetching rc st names acc, w) = (Fetched st' names (acc @ rows), w')"
  using assms
proof (induction arbitrary: acc rule: cursor_rows.induct)
  case (cursor_end rc st w)
  then show ?case by (simp add: query_step_def)
next
  case (cursor_row st w rc1 st1 w1 rows st2 w2)
  from cursor_row.IH [OF cursor_row.prems, of "acc @ [row_of api n st]"] cursor_row.hyps(1) cursor_row.prems
  show ?case by (simp add: query_step_def)
qed

lemma query_steps_fetch_ends:
  assumes "query_steps api q ret k (Fetching rc st names acc, w) = (Returned res, w')"
  shows "\<exists>rows st' w1. cursor_rows api (length names) rc st w rows st' w1"
  using assms
proof (induction k arbitrary: rc st acc w)
  case (Suc k)
  show ?case
  proof (cases "rc = SQLITE_ROW")
    case True
    obtain rc1 st1 w1 where s: "sqlite3_step api st w = (rc1, st1, w1)" by (metis prod_cases3)
    with Suc.prems True have "query_steps api q ret k (Fetching rc1 st1 names (acc @ [row_of api (length names) st]), w1) = (Returned res, w')"
      by (simp add: query_step_def)
    from Suc.IH [OF this] s True show ?thesis by (blast intro: cursor_row)
  qed (blast intro: cursor_end)
qed simp

lemma query_returns:
  assumes "executeQuery api q ret w = (Inr res, w')"
  shows "\<exists>k. query_steps api q ret k (Called, w) = (Returned res, w')"
  using assms
proof (cases rule: executeQuery_cases)
  case (prepare_failed rc st)
  then show ?thesis by (intro exI [of _ 1]) (simp add: query_step_def)
next
  case (no_columns st w1 rc1 st1 w2)
  with assms have "w' = sqlite3_finalize api st1 w2" by (simp add: executeQuery_def)
  with no_columns show ?thesis by (intro exI [of _ 4]) (simp add: query_step_def numeral_eq_Suc)
next
  case (rows st w1 rc1 st1 w2 rs st2 w3)
  let ?n = "sqlite3_column_count api st"
  let ?names = "map (sqlite3_column_name api st) [0..<?n]"
  from rows(4) have "fetch_rows api ?n rc1 st1 w2 [] = Some (rs, st2, w3)" using fetch_rows_complete by fastforce
  with assms rows have w': "w' = sqlite3_finalize api st2 w3" by (simp add: executeQuery_def)
  have "query_steps api q ret 2 (Called, w) = (Fetching rc1 st1 ?names [], w2)"
    using rows by (simp add: query_step_def numeral_eq_Suc)
  moreover have "query_steps api q ret (Suc (length rs)) (Fetching rc1 st1 ?names [], w2) = (Fetched st2 ?names rs, w3)"
    using query_steps_fetch [OF rows(4), of ?names q ret "[]"] by simp
  moreover have "query_steps api q ret 2 (Fetched st2 ?names rs, w3) = (Returned res, w')"
    using rows(5) w' by (simp add: query_step_def numeral_eq_Suc)
  ultimately have "query_steps api q ret (2 + (Suc (length rs) + 2)) (Called, w) = (Returned res, w')"
    by (simp only: query_steps_add)
  then show ?thesis by blast
qed simp

lemma query_steps_determined:
  assumes "query_steps api q ret j c = (Returned a, v)" "query_steps api q ret k c = (Returned b, u)"
  shows "a = b \<and> v = u"
proof -
  have "query_steps api q ret (j + k) c = (Returned a, v)" using assms(1) by (simp add: query_steps_add query_steps_Returned)
  moreover have "query_steps api q ret (k + j) c = (Returned b, u)" using assms(2) by (simp add: query_steps_add query_steps_Returned)
  ultimately show ?thesis by (simp add: add.commute)
qed

lemma query_returned:
  assumes "query_steps api q ret k (Called, w) = (Returned res, w')"
  shows "\<exists>r w1. executeQuery api q ret w = (Inr r, w1)"
proof -
  obtain x w1 where x: "executeQuery api q ret w = (x, w1)" by fastforce
  then show ?thesis
  proof (cases rule: executeQuery_cases)
    case (diverges st v rc1 st1)
    let ?n = "sqlite3_column_count api st"
    have n: "?n \<noteq> 0" using x diverges by (auto simp: executeQuery_def Let_def split: if_splits)
    have "query_steps api q ret 2 (Called, w) = (Fetching rc1 st1 (map (sqlite3_column_name api st) [0..<?n]) [], w1)"
      using diverges n by (simp add: query_step_def numeral_eq_Suc)
    then have "query_steps api q ret k (Fetching rc1 st1 (map (sqlite3_column_name api st) [0..<?n]) [], w1) = (Returned res, w')"
      using query_steps_add [of api q ret 2 k "(Called, w)"] query_steps_add [of api q ret k 2 "(Called, w)"] assms
      by (simp add: query_steps_Returned add.commute)
    from query_steps_fetch_ends [OF this] have "fetch_rows api ?n rc1 st1 w1 [] \<noteq> None"
      using fetch_rows_complete by fastforce
    with diverges show ?thesis by simp
  qed (use x in auto)
qed

text \<open>
  A thread that no other one disturbs computes what \<open>executeQuery\<close> computes in one go: the
  call returns a result exactly when some number of the thread's steps reaches that result,
  and it leaves the database in the same state.
\<close>

theorem query_alone:
  "executeQuery api q ret w = (Inr res, w') \<longleftrightarrow> (\<exists>k. query_steps api q ret k (Called, w) = (Returned res, w'))"
proof
  assume "\<exists>k. query_steps api q ret k (Called, w) = (Returned res, w')"
  then obtain k where k: "query_steps api q ret k (Called, w) = (Returned res, w')" ..
  obtain r w1 where e: "executeQuery api q ret w = (Inr r, w1)" using query_returned [OF k] by blast
  with query_returns [OF e] query_steps_determined [OF k] show "executeQuery api q ret w = (Inr res, w')" by blast
qed (rule query_returns)

section \<open>Several threads\<close>

text \<open>Each thread with its statement; an event is the number of the thread that makes a step.\<close>

record ('w, 'stmt) query_world =
  shared_db :: 'w
  queries :: "(string \<times> 'stmt query_pc) list"

definition thread_step :: "('w, 'stmt) sqlite_api \<Rightarrow> nat \<Rightarrow> ('w, 'stmt) query_world \<Rightarrow> ('w, 'stmt) query_world" where
  "thread_step api i s =
     (let (q, p) = queries s ! i; (p1, w1) = query_step api q True p (shared_db s)
      in s\<lparr>shared_db := w1, queries := (queries s)[i := (q, p1)]\<rparr>)"

inductive query_run ::
  "('w, 'stmt) sqlite_api \<Rightarrow> (nat \<Rightarrow> ('w, 'stmt) query_world \<Rightarrow> bool) \<Rightarrow>
     ('w, 'stmt) query_world \<Rightarrow> nat list \<Rightarrow> ('w, 'stmt) query_world \<Rightarrow> bool"
  for api allowed s
where
  query_none: "query_run api allowed s [] s"
| query_more: "query_run api allowed s sched s1 \<Longrightarrow> i < length (queries s1) \<Longrightarrow> allowed i s1 \<Longrightarrow>
    query_run api allowed s (sched @ [i]) (thread_step api i s1)"

definition start_queries :: "string list \<Rightarrow> 'w \<Rightarrow> ('w, 'stmt) query_world" where
  "start_queries qs w = \<lparr>shared_db = w, queries = map (\<lambda>q. (q, Called)) qs\<rparr>"

text \<open>A lock around each query: nobody else makes a step between the steps of a query.\<close>

fun between_calls :: "'stmt query_pc \<Rightarrow> bool" where
  "between_calls Called = True"
| "between_calls (Returned res) = True"
| "between_calls _ = False"

definition one_query_at_a_time :: "nat \<Rightarrow> ('w, 'stmt) query_world \<Rightarrow> bool" where
  "one_query_at_a_time i s \<longleftrightarrow> (\<forall>j < length (queries s). j \<noteq> i \<longrightarrow> between_calls (snd (queries s ! j)))"


section \<open>With a lock\<close>

text \<open>The specification: the queries one after the other, with their results.\<close>

inductive serial_run ::
  "('w, 'stmt) sqlite_api \<Rightarrow> string list \<Rightarrow> 'w \<Rightarrow> (nat \<times> RmsQueryResult) list \<Rightarrow> 'w \<Rightarrow> bool"
  for api qs w
where
  serial_none: "serial_run api qs w [] w"
| serial_more: "serial_run api qs w done w1 \<Longrightarrow> executeQuery api (qs ! i) True w1 = (Inr r, w2) \<Longrightarrow>
    serial_run api qs w (done @ [(i, r)]) w2"

definition returned_ok :: "(nat \<times> RmsQueryResult) list \<Rightarrow> ('w, 'stmt) query_world \<Rightarrow> bool" where
  "returned_ok done s \<longleftrightarrow> (\<forall>i < length (queries s). \<forall>r. snd (queries s ! i) = Returned r \<longrightarrow> (i, r) \<in> set done)"

text \<open>
  The state of a run with a lock: the finished queries were serial, and what one unfinished
  query has done so far started where they ended.
\<close>

definition serial_state ::
  "('w, 'stmt) sqlite_api \<Rightarrow> string list \<Rightarrow> 'w \<Rightarrow> ('w, 'stmt) query_world \<Rightarrow> bool"
where
  "serial_state api qs w s \<longleftrightarrow> map fst (queries s) = qs \<and>
     (\<exists>done w0. serial_run api qs w done w0 \<and> returned_ok done s \<and>
        ((\<forall>i < length qs. between_calls (snd (queries s ! i))) \<and> shared_db s = w0 \<or>
         (\<exists>i < length qs. \<exists>k. \<not> between_calls (snd (queries s ! i)) \<and>
            query_steps api (qs ! i) True k (Called, w0) = (snd (queries s ! i), shared_db s))))"

lemma query_step_not_Called: "fst (query_step api q ret p w) \<noteq> Called"
  by (cases p) (auto simp: query_step_def Let_def split: prod.splits)

lemma between_cases: "between_calls p \<longleftrightarrow> p = Called \<or> (\<exists>r. p = Returned r)"
  by (cases p) simp_all

lemma thread_step_queries:
  assumes "query_step api (fst (queries s ! i)) True (snd (queries s ! i)) (shared_db s) = (p, w)"
  shows "thread_step api i s = s\<lparr>shared_db := w, queries := (queries s)[i := (fst (queries s ! i), p)]\<rparr>"
  using assms by (cases "queries s ! i") (simp add: thread_step_def)

text \<open>Where a thread that is not finished stands when nobody else is inside a query.\<close>

lemma serial_state_progress:
  assumes "serial_state api qs w s" "i < length qs" "one_query_at_a_time i s" "\<forall>r. snd (queries s ! i) \<noteq> Returned r"
  obtains "done" w0 k where "serial_run api qs w done w0" "returned_ok done s"
    "query_steps api (qs ! i) True k (Called, w0) = (snd (queries s ! i), shared_db s)"
proof -
  have len: "length (queries s) = length qs" using assms(1) unfolding serial_state_def by (metis length_map)
  from assms(1) obtain "done" w0 where d: "serial_run api qs w done w0" "returned_ok done s"
    and c: "(\<forall>j < length qs. between_calls (snd (queries s ! j))) \<and> shared_db s = w0 \<or>
      (\<exists>j < length qs. \<exists>k. \<not> between_calls (snd (queries s ! j)) \<and>
         query_steps api (qs ! j) True k (Called, w0) = (snd (queries s ! j), shared_db s))"
    unfolding serial_state_def by blast
  from c show thesis
  proof (elim disjE exE conjE)
    assume "\<forall>j < length qs. between_calls (snd (queries s ! j))" "shared_db s = w0"
    then have "between_calls (snd (queries s ! i))" "shared_db s = w0" using assms(2) by blast+
    with assms(4) have "query_steps api (qs ! i) True 0 (Called, w0) = (snd (queries s ! i), shared_db s)"
      by (auto simp: between_cases)
    with d show thesis by (rule that)
  next
    fix j k
    assume j: "j < length qs" "\<not> between_calls (snd (queries s ! j))"
      and q: "query_steps api (qs ! j) True k (Called, w0) = (snd (queries s ! j), shared_db s)"
    from j assms(3) len have "j = i" unfolding one_query_at_a_time_def by metis
    with d q show thesis by (blast intro: that)
  qed
qed

lemma returned_ok_set:
  assumes "returned_ok done s" "set done \<subseteq> set done'" "\<And>r. p = Returned r \<Longrightarrow> (i, r) \<in> set done'"
  shows "returned_ok done' (s\<lparr>shared_db := w, queries := (queries s)[i := (q, p)]\<rparr>)"
  unfolding returned_ok_def
proof (intro allI impI)
  fix j r
  let ?s = "s\<lparr>shared_db := w, queries := (queries s)[i := (q, p)]\<rparr>"
  assume j: "j < length (queries ?s)" "snd (queries ?s ! j) = Returned r"
  show "(j, r) \<in> set done'"
  proof (cases "j = i")
    case True
    with j assms(3) show ?thesis by simp
  next
    case False
    with j assms(1,2) show ?thesis by (auto simp: returned_ok_def)
  qed
qed

lemma serial_state_step:
  assumes "serial_state api qs w s" "i < length (queries s)" "one_query_at_a_time i s"
  shows "serial_state api qs w (thread_step api i s)"
proof (cases "\<exists>r. snd (queries s ! i) = Returned r")
  case True
  then have "thread_step api i s = s"
    using assms(2) by (cases "queries s ! i") (auto simp: thread_step_def query_step_def list_update_same_conv)
  with assms(1) show ?thesis by simp
next
  case False
  have map: "map fst (queries s) = qs" using assms(1) unfolding serial_state_def by blast
  then have i: "i < length qs" "fst (queries s ! i) = qs ! i" "length (queries s) = length qs" using assms(2) by auto
  obtain "done" w0 k where d: "serial_run api qs w done w0" "returned_ok done s"
    "query_steps api (qs ! i) True k (Called, w0) = (snd (queries s ! i), shared_db s)"
    using serial_state_progress [OF assms(1) i(1) assms(3)] False by blast
  obtain p w1 where p: "query_step api (qs ! i) True (snd (queries s ! i)) (shared_db s) = (p, w1)" by fastforce
  let ?s = "s\<lparr>shared_db := w1, queries := (queries s)[i := (qs ! i, p)]\<rparr>"
  have s': "thread_step api i s = ?s" using thread_step_queries [of api s i p w1] p i(2) by simp
  have steps: "query_steps api (qs ! i) True (k + 1) (Called, w0) = (p, w1)"
    using d(3) p by (simp only: query_steps_add) simp
  have map': "map fst (queries ?s) = qs" using map i by (simp add: map_update list_update_same_conv)
  have others: "between_calls (snd (queries ?s ! j))" if "j < length qs" "j \<noteq> i" for j
    using assms(3) that i(3) unfolding one_query_at_a_time_def by simp
  have "p \<noteq> Called" using query_step_not_Called [of api "qs ! i" True "snd (queries s ! i)" "shared_db s"] p by auto
  show ?thesis
  proof (cases "\<exists>r. p = Returned r")
    case True
    then obtain r where r: "p = Returned r" ..
    have "executeQuery api (qs ! i) True w0 = (Inr r, w1)" unfolding query_alone using steps r by blast
    from serial_more [OF d(1) this] have "serial_run api qs w (done @ [(i, r)]) w1" .
    moreover have "returned_ok (done @ [(i, r)]) ?s"
      by (rule returned_ok_set [OF d(2)]) (auto simp: r)
    moreover have "between_calls (snd (queries ?s ! j))" if "j < length qs" for j
      using others [OF that] r i by (cases "j = i") simp_all
    ultimately show ?thesis unfolding s' serial_state_def using map' by (auto intro!: exI)
  next
    case running: False
    have "returned_ok done ?s" by (rule returned_ok_set [OF d(2)]) (use running in auto)
    moreover have "\<not> between_calls (snd (queries ?s ! i))" using running \<open>p \<noteq> Called\<close> i by (simp add: between_cases)
    moreover have "query_steps api (qs ! i) True (k + 1) (Called, w0) = (snd (queries ?s ! i), shared_db ?s)"
      using steps i by simp
    ultimately show ?thesis unfolding s' serial_state_def using map' d(1) i(1) by blast
  qed
qed

lemma serial_state_run:
  "query_run api one_query_at_a_time s0 sched s \<Longrightarrow> serial_state api qs w s0 \<Longrightarrow> serial_state api qs w s"
  by (induction rule: query_run.induct) (auto intro: serial_state_step)

lemma serial_state_start: "serial_state api qs w (start_queries qs w)"
  by (auto simp: serial_state_def start_queries_def returned_ok_def o_def intro!: exI [of _ "[]"] exI [of _ w] serial_none)

text \<open>
  With a lock around each query, which the code does not take, the threads would be serial:
  in every interleaving the results that threads have are those of the queries executed
  one after the other, in some order, each in the database that the previous one left.
\<close>

theorem locked_queries_serial:
  assumes "query_run api one_query_at_a_time (start_queries qs w) sched s"
  shows "\<exists>done w0. serial_run api qs w done w0 \<and>
    (\<forall>i < length qs. \<forall>r. snd (queries s ! i) = Returned r \<longrightarrow> (i, r) \<in> set done) \<and>
    ((\<forall>i < length qs. between_calls (snd (queries s ! i))) \<longrightarrow> shared_db s = w0)"
proof -
  have st: "serial_state api qs w s" by (rule serial_state_run [OF assms serial_state_start])
  then have "length (queries s) = length qs" unfolding serial_state_def by (metis length_map)
  with st show ?thesis unfolding serial_state_def returned_ok_def by metis
qed

section \<open>Without one\<close>

lemma query_run_fold:
  "query_run api (\<lambda>_ _. True) s0 pre s \<Longrightarrow> \<forall>i \<in> set sched. i < length (queries s) \<Longrightarrow>
     query_run api (\<lambda>_ _. True) s0 (pre @ sched) (fold (thread_step api) sched s)"
proof (induction sched arbitrary: pre s)
  case (Cons i sched)
  have "length (queries (thread_step api i s)) = length (queries s)" by (simp add: thread_step_def case_prod_beta)
  with Cons.IH [of "pre @ [i]" "thread_step api i s"] Cons.prems query_more [of api "\<lambda>_ _. True" s0 pre s i] show ?case by simp
qed simp

lemmas query_run_all = query_run_fold [OF query_none, simplified append_Nil]

text \<open>A library that only counts its rows.\<close>

definition counting_api :: "(nat, unit) sqlite_api" where
  "counting_api = \<lparr>sqlite3_open = (\<lambda>_ w. (0, w)), sqlite3_close = (\<lambda>w. w),
     sqlite3_prepare_v2 = (\<lambda>q w. (0, (), w)), sqlite3_column_count = (\<lambda>_. 0), sqlite3_column_name = (\<lambda>_ _. []),
     sqlite3_step = (\<lambda>_ w. (101, (), Suc w)), sqlite3_column_text = (\<lambda>_ _. None),
     sqlite3_last_insert_rowid = int, sqlite3_finalize = (\<lambda>_ w. w)\<rparr>"

lemma counting_api_simps [simp]:
  "sqlite3_prepare_v2 counting_api q w = (SQLITE_OK, (), w)" "sqlite3_column_count counting_api st = 0"
  "sqlite3_step counting_api st w = (101, (), Suc w)" "sqlite3_last_insert_rowid counting_api w = int w"
  "sqlite3_finalize counting_api st w = w"
  by (simp_all add: counting_api_def SQLITE_OK_def)

lemma given_id:
  "last_id r = Some i \<Longrightarrow> success r \<Longrightarrow> storage_info c = [] \<Longrightarrow>
     computer_id (fst (snd (addToDB (env\<lparr>execute_query := (\<lambda>_ _ u. (Inr r, u))\<rparr>) c v))) = i"
  by (simp add: addToDB_def run_query_def)

text \<open>The id an insert returns when it is executed alone: the one after its own step.\<close>

lemma insert_alone:
  assumes "sqlite3_prepare_v2 api q w = (SQLITE_OK, st, w0)" "sqlite3_column_count api st = 0"
    "sqlite3_step api st w0 = (rc, st', v0)"
  shows "fst (executeQuery api q True w) = Inr \<lparr>success = True,
    last_id = Some (to_i32 (sqlite3_last_insert_rowid api v0)), column_names = [], table_rows = []\<rparr>"
  using assms by (simp add: executeQuery_def insert_id_def)

text \<open>
  C8. Without a lock, as it is, two inserts can get the same id, whatever the library. Let
  the first thread prepare and step its statement, which leaves the database \<open>v0\<close>, and then the
  second one, which leaves \<open>v1\<close>, before either asks for its id: both get the id of the second row, the last
  one of \<open>v1\<close>. Executed alone the first one gets the id of its own row, the last one of \<open>v0\<close>. Two new
  computers added with these results both have the id of the second.
\<close>

theorem insert_ids_mixed_up:
  assumes "sqlite3_prepare_v2 api qa w = (SQLITE_OK, sta, w0)" "sqlite3_column_count api sta = 0"
    "sqlite3_step api sta w0 = (rca, sta', v0)"
    and "sqlite3_prepare_v2 api qb v0 = (SQLITE_OK, stb, w1)" "sqlite3_column_count api stb = 0"
    "sqlite3_step api stb w1 = (rcb, stb', v1)"
  shows "\<exists>s a b. query_run api (\<lambda>_ _. True) (start_queries [qa, qb] w) [0, 0, 1, 1, 0, 1, 0, 1] s \<and>
    queries s = [(qa, Returned a), (qb, Returned b)] \<and>
    last_id a = Some (to_i32 (sqlite3_last_insert_rowid api v1)) \<and>
    last_id b = Some (to_i32 (sqlite3_last_insert_rowid api v1)) \<and>
    (\<exists>r. fst (executeQuery api qa True w) = Inr r \<and> last_id r = Some (to_i32 (sqlite3_last_insert_rowid api v0))) \<and>
    (\<forall>env c v res. storage_info c = [] \<and> res \<in> {a, b} \<longrightarrow>
      computer_id (fst (snd (addToDB (env\<lparr>execute_query := (\<lambda>_ _ u. (Inr res, u))\<rparr>) c v))) =
        to_i32 (sqlite3_last_insert_rowid api v1))"
proof -
  let ?r = "\<lparr>success = True, last_id = insert_id api True v1, column_names = [], table_rows = []\<rparr>"
  let ?s = "fold (thread_step api) [0, 0, 1, 1, 0, 1, 0, 1] (start_queries [qa, qb] w)"
  have "queries ?s = [(qa, Returned ?r), (qb, Returned ?r)]"
    by (simp add: start_queries_def thread_step_def query_step_def assms)
  moreover have "query_run api (\<lambda>_ _. True) (start_queries [qa, qb] w) [0, 0, 1, 1, 0, 1, 0, 1] ?s"
    by (rule query_run_all) (simp add: start_queries_def)
  moreover have "last_id ?r = Some (to_i32 (sqlite3_last_insert_rowid api v1))" by (simp add: insert_id_def)
  moreover note insert_alone [OF assms(1-3)]
  ultimately show ?thesis by (intro exI [of _ ?s] exI [of _ ?r]) (simp add: given_id del: fold_simps)
qed

theorem insert_ids_mixed_up_witness:
  "\<exists>s a b r. query_run counting_api (\<lambda>_ _. True) (start_queries [''A'', ''B''] 0) [0, 0, 1, 1, 0, 1, 0, 1] s \<and>
     queries s = [(''A'', Returned a), (''B'', Returned b)] \<and> last_id a = Some 2 \<and> last_id b = Some 2 \<and>
     fst (executeQuery counting_api ''A'' True 0) = Inr r \<and> last_id r = Some 1"
proof -
  have ids: "to_i32 1 = 1" "to_i32 2 = 2" by (simp_all add: to_i32_id in_i32_def)
  from insert_ids_mixed_up [of counting_api "''A''" 0 "()" 0 101 "()" 1 "''B''" "()" 1 101 "()" 2] show ?thesis
    unfolding counting_api_simps by (fastforce simp: ids)
qed

lemma query_run_snoc:
  assumes "query_run api allowed s0 sched (fold (thread_step api) sched s0)" "i < length (queries (fold (thread_step api) sched s0))"
    and "allowed i (fold (thread_step api) sched s0)"
  shows "query_run api allowed s0 (sched @ [i]) (fold (thread_step api) (sched @ [i]) s0)"
  using query_more [OF assms] by simp

lemma one_insert_locked:
  "query_run counting_api one_query_at_a_time (start_queries [''A'', ''B''] 0) [0, 0, 0, 0]
     (fold (thread_step counting_api) [0, 0, 0, 0] (start_queries [''A'', ''B''] 0))"
proof -
  let ?run = "\<lambda>l. query_run counting_api one_query_at_a_time (start_queries [''A'', ''B''] 0) l
     (fold (thread_step counting_api) l (start_queries [''A'', ''B''] 0))"
  note defs = start_queries_def thread_step_def query_step_def one_query_at_a_time_def nth_Cons numeral_eq_Suc
  have "?run []" by (simp add: query_none)
  from query_run_snoc [OF this, of 0] have "?run ([] @ [0])" by (simp add: defs less_Suc_eq split: nat.splits)
  from query_run_snoc [OF this, of 0] have "?run (([] @ [0]) @ [0])" by (simp add: defs less_Suc_eq split: nat.splits)
  from query_run_snoc [OF this, of 0] have "?run ((([] @ [0]) @ [0]) @ [0])" by (simp add: defs less_Suc_eq split: nat.splits)
  from query_run_snoc [OF this, of 0] have "?run (((([] @ [0]) @ [0]) @ [0]) @ [0])" by (simp add: defs less_Suc_eq split: nat.splits)
  then show ?thesis by simp
qed

theorem locked_queries_serial_witness:
  "\<exists>done w0 r. serial_run counting_api [''A'', ''B''] 0 done w0 \<and> (0, r) \<in> set done \<and> last_id r = Some 1"
proof -
  let ?s = "fold (thread_step counting_api) [0, 0, 0, 0] (start_queries [''A'', ''B''] 0)"
  let ?r = "\<lparr>success = True, last_id = Some 1, column_names = [], table_rows = []\<rparr>"
  have r: "snd (queries ?s ! 0) = Returned ?r"
    by (simp add: start_queries_def thread_step_def query_step_def insert_id_def to_i32_id in_i32_def)
  from locked_queries_serial [OF one_insert_locked] obtain "done" w0 where
    d: "serial_run counting_api [''A'', ''B''] 0 done w0"
      "\<forall>i < length [''A'', ''B'']. \<forall>r. snd (queries ?s ! i) = Returned r \<longrightarrow> (i, r) \<in> set done" by blast
  have "(0, ?r) \<in> set done" by (rule d(2) [rule_format, OF _ r]) simp
  moreover have "last_id ?r = Some 1" by simp
  ultimately show ?thesis using d(1) by blast
qed

end
