(* ===== verification/Push_Threads.thy ===== *)
theory Push_Threads
  imports Rms_Ingestor
begin

text \<open>
  The hourly push at the end of \<open>ingestRequestData\<close> (\<open>request_db_ingestor.cpp\<close>) as the steps of a
  thread. The server makes a thread for each connection (\<open>TThreadedServer\<close> in
  \<open>client_handler.cpp\<close>) and all of them use one ingestor; the comment in \<open>RmsClient::report\<close>
  asks for serial calls, and nothing makes them so.
\<close>

section \<open>One thread\<close>

datatype push_pc = Arrived | Due | Ticked | Pushed | Tick_Advanced | Push_Done "unit res"

definition next_hour :: "int \<Rightarrow> int" where
  "next_hour t = (if t = 23 then 0 else t + 1)"

definition push_step ::
  "'w env \<Rightarrow> RmsComputer option \<Rightarrow> push_pc \<times> DbRequestIngestor \<times> 'w \<Rightarrow> push_pc \<times> DbRequestIngestor \<times> 'w"
where
  "push_step env computer st = (case st of (p, ing, w) \<Rightarrow> (case p of
     Arrived \<Rightarrow>
       (let (now, w1) = steady_now env w
        in (if now > next_usage_push ing then Due else Push_Done (Inr ()), ing, w1))
   | Due \<Rightarrow>
       (if tick ing = - 1
        then (let (tt, w1) = time_now env w in (Ticked, ing\<lparr>tick := tm_hour (local_time env tt)\<rparr>, w1))
        else (Ticked, ing, w))
   | Ticked \<Rightarrow> (case computer of
         None \<Rightarrow> (Push_Done (Inl Null_Deref), ing, w)
       | Some c \<Rightarrow> (case pushUsageToDB env (tick ing) c w of
           (Inl e, w1) \<Rightarrow> (Push_Done (Inl e), ing, w1)
         | (Inr _, w1) \<Rightarrow> (Pushed, ing, w1)))
   | Pushed \<Rightarrow> (Tick_Advanced, ing\<lparr>tick := next_hour (tick ing)\<rparr>, w)
   | Tick_Advanced \<Rightarrow> (Push_Done (Inr ()), ing\<lparr>next_usage_push := next_usage_push ing + hours 1\<rparr>, w)
   | Push_Done r \<Rightarrow> st))"

text \<open>
  A thread that runs alone makes in five steps what \<open>usage_push\<close> does: the same result, the
  same ingestor and the same world, on every path.
\<close>

theorem push_alone:
  "(push_step env computer ^^ 5) (Arrived, ing, w) =
     (case usage_push env ing computer w of (r, ing1, w1) \<Rightarrow> (Push_Done r, ing1, w1))"
proof -
  obtain now w1 where n: "steady_now env w = (now, w1)" by fastforce
  obtain tt w2 where t: "time_now env w1 = (tt, w2)" by fastforce
  show ?thesis
  proof (cases computer)
    case None
    with n t show ?thesis by (simp add: push_step_def usage_push_def numeral_eq_Suc)
  next
    case (Some c)
    obtain x w3 where x: "pushUsageToDB env (tick ing) c w1 = (x, w3)" by fastforce
    obtain y w4 where y: "pushUsageToDB env (tm_hour (local_time env tt)) c w2 = (y, w4)" by fastforce
    from Some n t x y show ?thesis
      by (cases x; cases y) (simp_all add: push_step_def usage_push_def next_hour_def numeral_eq_Suc)
  qed
qed

section \<open>The threads of the connections\<close>

text \<open>The log says which thread pushed under which tick.\<close>

record 'w push_world =
  shared_ingestor :: DbRequestIngestor
  push_env_state :: 'w
  pushers :: "(RmsComputer option \<times> push_pc) list"
  push_log :: "(nat \<times> int) list"

datatype push_event = Item nat "RmsComputer option" | Go nat

definition push_enabled :: "push_event \<Rightarrow> 'w push_world \<Rightarrow> bool" where
  "push_enabled ev s = (case ev of
     Item i c \<Rightarrow> i < length (pushers s) \<and> (\<exists>r. snd (pushers s ! i) = Push_Done r)
   | Go i \<Rightarrow> i < length (pushers s))"

definition push_exec :: "'w env \<Rightarrow> push_event \<Rightarrow> 'w push_world \<Rightarrow> 'w push_world" where
  "push_exec env ev s = (case ev of
     Item i c \<Rightarrow> s\<lparr>pushers := (pushers s)[i := (c, Arrived)]\<rparr>
   | Go i \<Rightarrow>
       (let (c, p) = pushers s ! i; (p1, ing1, w1) = push_step env c (p, shared_ingestor s, push_env_state s)
        in s\<lparr>shared_ingestor := ing1, push_env_state := w1, pushers := (pushers s)[i := (c, p1)],
             push_log := push_log s @ (if p1 = Pushed \<and> p \<noteq> Pushed then [(i, tick (shared_ingestor s))] else [])\<rparr>))"

lemma pushers_exec: "length (pushers (push_exec env ev s)) = length (pushers s)"
  by (cases ev) (simp_all add: push_exec_def case_prod_beta Let_def)

inductive push_run ::
  "'w env \<Rightarrow> (push_event \<Rightarrow> 'w push_world \<Rightarrow> bool) \<Rightarrow> 'w push_world \<Rightarrow> push_event list \<Rightarrow> 'w push_world \<Rightarrow> bool"
  for env allowed s
where
  push_none: "push_run env allowed s [] s"
| push_more: "push_run env allowed s evs s1 \<Longrightarrow> push_enabled ev s1 \<Longrightarrow> allowed ev s1 \<Longrightarrow>
    push_run env allowed s (evs @ [ev]) (push_exec env ev s1)"

definition idle_pushers :: "nat \<Rightarrow> DbRequestIngestor \<Rightarrow> 'w \<Rightarrow> 'w push_world" where
  "idle_pushers n ing w = \<lparr>shared_ingestor = ing, push_env_state = w,
     pushers = replicate n (None, Push_Done (Inr ())), push_log = []\<rparr>"

fun event_thread :: "push_event \<Rightarrow> nat" where
  "event_thread (Item i c) = i"
| "event_thread (Go i) = i"

text \<open>What the comment asks for: one call at a time.\<close>

definition one_push_at_a_time :: "push_event \<Rightarrow> 'w push_world \<Rightarrow> bool" where
  "one_push_at_a_time ev s \<longleftrightarrow>
     (\<forall>j < length (pushers s). j \<noteq> event_thread ev \<longrightarrow> (\<exists>r. snd (pushers s ! j) = Push_Done r))"

section \<open>Serial calls\<close>

fun hourly :: "int list \<Rightarrow> bool" where
  "hourly (t # u # ts) \<longleftrightarrow> u = next_hour t \<and> hourly (u # ts)"
| "hourly _ = True"

lemma hourly_snoc: "hourly (ts @ [t]) \<longleftrightarrow> hourly ts \<and> (ts \<noteq> [] \<longrightarrow> t = next_hour (last ts))"
  by (induction ts rule: hourly.induct) auto

text \<open>
  Where the shared ingestor stands when the one thread inside is at \<open>p\<close>, \<open>n\<close> being the due time at
  the start and \<open>ts\<close> the ticks of the pushes so far.
\<close>

definition schedule_at :: "int \<Rightarrow> push_pc \<Rightarrow> int list \<Rightarrow> DbRequestIngestor \<Rightarrow> bool" where
  "schedule_at n p ts ing \<longleftrightarrow> hourly ts \<and> (\<forall>t \<in> set ts. 0 \<le> t \<and> t \<le> 23) \<and> tick_ok ing \<and>
     (case p of
        Pushed \<Rightarrow> ts \<noteq> [] \<and> tick ing = last ts \<and> next_usage_push ing = n + hours (int (length ts) - 1)
      | Tick_Advanced \<Rightarrow> ts \<noteq> [] \<and> tick ing = next_hour (last ts) \<and> next_usage_push ing = n + hours (int (length ts) - 1)
      | _ \<Rightarrow> (ts \<noteq> [] \<longrightarrow> tick ing = next_hour (last ts)) \<and> next_usage_push ing = n + hours (int (length ts)) \<and>
             (p = Ticked \<longrightarrow> 0 \<le> tick ing))"

lemma schedule_done: "schedule_at n (Push_Done r) ts ing \<longleftrightarrow> schedule_at n Arrived ts ing"
  by (simp add: schedule_at_def)

lemma next_hour_range: "0 \<le> t \<Longrightarrow> t \<le> 23 \<Longrightarrow> 0 \<le> next_hour t \<and> next_hour t \<le> 23 \<and> next_hour t \<noteq> - 1"
  by (simp add: next_hour_def)

lemma schedule_step:
  assumes "schedule_at n p ts ing" "hours_ok env" "push_step env c (p, ing, w) = (p1, ing1, w1)"
  shows "schedule_at n p1 (ts @ (if p1 = Pushed \<and> p \<noteq> Pushed then [tick ing] else [])) ing1"
proof (cases p)
  case Arrived
  with assms show ?thesis by (auto simp: push_step_def schedule_at_def Let_def split: prod.splits if_splits)
next
  case Due
  have h: "- 1 \<le> tm_hour (local_time env t)" "0 \<le> tm_hour (local_time env t)" "tm_hour (local_time env t) \<le> 23" for t
    using assms(2) by (auto simp: hours_ok_def intro: order_trans [of _ 0])
  have "next_hour (last ts) \<noteq> - 1" if "ts \<noteq> []" "\<forall>t \<in> set ts. 0 \<le> t \<and> t \<le> 23"
    using that by (intro next_hour_range [THEN conjunct2, THEN conjunct2]) simp_all
  with Due assms(1,3) h show ?thesis
    by (auto simp: push_step_def schedule_at_def tick_ok_def Let_def split: prod.splits if_splits)
next
  case Ticked
  with assms show ?thesis
    by (auto simp: push_step_def schedule_at_def tick_ok_def hourly_snoc Let_def split: prod.splits if_splits option.splits sum.splits)
next
  case Pushed
  with assms next_hour_range [of "last ts"] show ?thesis
    by (auto simp: push_step_def schedule_at_def tick_ok_def)
next
  case Tick_Advanced
  with assms show ?thesis by (auto simp: push_step_def schedule_at_def hours_def tick_ok_def)
next
  case (Push_Done r)
  with assms show ?thesis by (auto simp: push_step_def)
qed

definition schedule_state :: "int \<Rightarrow> 'w push_world \<Rightarrow> bool" where
  "schedule_state n s \<longleftrightarrow> (\<forall>i < length (pushers s).
     (\<forall>j < length (pushers s). j \<noteq> i \<longrightarrow> (\<exists>r. snd (pushers s ! j) = Push_Done r)) \<longrightarrow>
     schedule_at n (snd (pushers s ! i)) (map snd (push_log s)) (shared_ingestor s))"


lemma schedule_state_exec:
  assumes "schedule_state n s" "hours_ok env" "push_enabled ev s" "one_push_at_a_time ev s"
  shows "schedule_state n (push_exec env ev s)"
proof -
  let ?e = "event_thread ev" and ?log = "map snd (push_log s)"
  have e: "?e < length (pushers s)" using assms(3) by (cases ev) (simp_all add: push_enabled_def)
  have at: "schedule_at n (snd (pushers s ! ?e)) ?log (shared_ingestor s)"
    using assms(1,4) e by (simp add: schedule_state_def one_push_at_a_time_def)
  obtain c p where cp: "pushers s ! ?e = (c, p)" by fastforce
  have at1: "schedule_at n (snd (pushers (push_exec env ev s) ! ?e)) (map snd (push_log (push_exec env ev s)))
      (shared_ingestor (push_exec env ev s))"
  proof (cases ev)
    case (Item i c')
    with assms(3) at e show ?thesis by (auto simp: push_enabled_def push_exec_def schedule_done)
  next
    case (Go i)
    obtain p1 ing1 w1 where st: "push_step env c (p, shared_ingestor s, push_env_state s) = (p1, ing1, w1)" by (metis prod_cases3)
    from schedule_step [OF at [unfolded cp snd_conv] assms(2) st] Go cp st e show ?thesis by (auto simp: push_exec_def split: if_splits)
  qed
  have others: "pushers (push_exec env ev s) ! j = pushers s ! j" if "j \<noteq> ?e" for j
    using that by (cases ev) (simp_all add: push_exec_def case_prod_beta Let_def)
  show ?thesis
    unfolding schedule_state_def pushers_exec
  proof (intro allI impI)
    fix i
    assume i: "i < length (pushers s)"
      and d: "\<forall>j < length (pushers s). j \<noteq> i \<longrightarrow> (\<exists>r. snd (pushers (push_exec env ev s) ! j) = Push_Done r)"
    show "schedule_at n (snd (pushers (push_exec env ev s) ! i)) (map snd (push_log (push_exec env ev s)))
        (shared_ingestor (push_exec env ev s))"
    proof (cases "i = ?e")
      case False
      then obtain r where "snd (pushers (push_exec env ev s) ! ?e) = Push_Done r" using d e by blast
      moreover obtain r' where "snd (pushers s ! i) = Push_Done r'"
        using assms(4) i False unfolding one_push_at_a_time_def by blast
      ultimately show ?thesis using at1 others [OF False] by (simp add: schedule_done)
    qed (use at1 in simp)
  qed
qed

lemma schedule_state_run:
  assumes "push_run env one_push_at_a_time s evs s'" "hours_ok env" "schedule_state n s"
  shows "schedule_state n s'"
  using assms by (induction rule: push_run.induct) (simp_all add: schedule_state_exec)

text \<open>The steps that do not fail, and what each leaves.\<close>

lemma push_step_ok:
  "steady_now env w = (now, w1) \<Longrightarrow> next_usage_push ing < now \<Longrightarrow> push_step env c (Arrived, ing, w) = (Due, ing, w1)"
  "tick ing \<noteq> - 1 \<Longrightarrow> push_step env c (Due, ing, w) = (Ticked, ing, w)"
  "pushUsageToDB env (tick ing) k w = (Inr x, w1) \<Longrightarrow> push_step env (Some k) (Ticked, ing, w) = (Pushed, ing, w1)"
  "push_step env c (Pushed, ing, w) = (Tick_Advanced, ing\<lparr>tick := next_hour (tick ing)\<rparr>, w)"
  "push_step env c (Tick_Advanced, ing, w) = (Push_Done (Inr ()), ing\<lparr>next_usage_push := next_usage_push ing + hours 1\<rparr>, w)"
  by (simp_all add: push_step_def)

definition push_state :: "DbRequestIngestor \<Rightarrow> 'w \<Rightarrow> (RmsComputer option \<times> push_pc) list \<Rightarrow> (nat \<times> int) list \<Rightarrow> 'w push_world" where
  "push_state ing w ps lg = \<lparr>shared_ingestor = ing, push_env_state = w, pushers = ps, push_log = lg\<rparr>"

lemma push_exec_Item: "push_exec env (Item i c) (push_state ing w ps lg) = push_state ing w (ps[i := (c, Arrived)]) lg"
  by (simp add: push_exec_def push_state_def)

lemma push_exec_Go:
  "ps ! i = (c, p) \<Longrightarrow> push_step env c (p, ing, w) = (p1, ing1, w1) \<Longrightarrow>
     push_exec env (Go i) (push_state ing w ps lg) =
       push_state ing1 w1 (ps[i := (c, p1)]) (lg @ (if p1 = Pushed \<and> p \<noteq> Pushed then [(i, tick ing)] else []))"
  by (simp add: push_exec_def push_state_def)

lemma push_run_go:
  "push_run env allowed s0 pre s \<Longrightarrow> \<forall>i \<in> set is. i < length (pushers s) \<Longrightarrow>
     \<forall>i \<in> set is. \<forall>s1. length (pushers s1) = length (pushers s) \<longrightarrow> allowed (Go i) s1 \<Longrightarrow>
     push_run env allowed s0 (pre @ map Go is) (fold (push_exec env) (map Go is) s)"
proof (induction "is" arbitrary: pre s)
  case (Cons i "is")
  with push_more [of env allowed s0 pre s "Go i"] Cons.IH [of "pre @ [Go i]" "push_exec env (Go i) s"]
  show ?case by (simp add: push_enabled_def pushers_exec)
qed simp

text \<open>
  C19. When no thread enters the push while another is in it, the threads of all connections
  together push once for each hour: however they take turns, the pushes were made under
  consecutive hours of the day, and the next one is due one hour per push after the first.
\<close>

theorem serial_pushes_hourly:
  assumes "push_run env one_push_at_a_time (idle_pushers k ing w) evs s" "hours_ok env" "tick ing = - 1" "0 < k"
    and "\<forall>i < length (pushers s). \<exists>r. snd (pushers s ! i) = Push_Done r"
  shows "hourly (map snd (push_log s)) \<and> (\<forall>t \<in> set (map snd (push_log s)). 0 \<le> t \<and> t \<le> 23) \<and>
    next_usage_push (shared_ingestor s) = next_usage_push ing + hours (int (length (push_log s))) \<and>
    (push_log s \<noteq> [] \<longrightarrow> tick (shared_ingestor s) = next_hour (snd (last (push_log s))))"
proof -
  have "schedule_state (next_usage_push ing) (idle_pushers k ing w)"
    using assms(3) by (simp add: schedule_state_def idle_pushers_def schedule_at_def tick_ok_def hours_def)
  from schedule_state_run [OF assms(1,2) this] have st: "schedule_state (next_usage_push ing) s" .
  have "length (pushers s) = k"
    using assms(1) by (induction rule: push_run.induct) (simp_all add: idle_pushers_def pushers_exec)
  with st assms(4,5) have "schedule_at (next_usage_push ing) (snd (pushers s ! 0)) (map snd (push_log s)) (shared_ingestor s)"
    by (simp add: schedule_state_def)
  moreover obtain r where "snd (pushers s ! 0) = Push_Done r" using assms(4,5) \<open>length (pushers s) = k\<close> by blast
  ultimately show ?thesis by (auto simp: schedule_at_def last_map)
qed

theorem serial_pushes_hourly_witness:
  "\<exists>s. push_run sample_env one_push_at_a_time (idle_pushers 1 \<lparr>tick = - 1, next_usage_push = - 5\<rparr> 0)
       (Item 0 (Some (new_computer 5)) # map Go [0, 0, 0, 0, 0]) s \<and>
     push_log s = [(0, 5)] \<and> tick (shared_ingestor s) = 6 \<and> next_usage_push (shared_ingestor s) = hours 1 - 5"
proof -
  let ?c = "new_computer 5" and ?idle = "idle_pushers 1 \<lparr>tick = - 1, next_usage_push = - 5\<rparr> (0::nat)"
  let ?arrived = "push_exec sample_env (Item 0 (Some ?c)) ?idle"
  let ?s = "fold (push_exec sample_env) (map Go [0, 0, 0, 0, 0]) ?arrived"
  have u: "usage_info ?c = []" by (simp add: new_computer_def)
  have p: "pushUsageToDB sample_env h ?c w = (Inr True, w)" for h w by (simp add: pushUsageToDB_def u sample_env_def)
  have h: "hours_ok sample_env" by (simp add: hours_ok_def sample_env_def)
  have "push_run sample_env one_push_at_a_time ?idle ([] @ [Item 0 (Some ?c)]) ?arrived"
    by (rule push_more [OF push_none]) (simp_all add: push_enabled_def idle_pushers_def one_push_at_a_time_def)
  from push_run_go [OF this, of "[0, 0, 0, 0, 0]"]
  have r: "push_run sample_env one_push_at_a_time ?idle (Item 0 (Some ?c) # map Go [0, 0, 0, 0, 0]) ?s"
    by (simp add: pushers_exec idle_pushers_def one_push_at_a_time_def)
  have s1: "?arrived = push_state \<lparr>tick = - 1, next_usage_push = - 5\<rparr> 0 [(Some ?c, Arrived)] []"
    by (simp add: idle_pushers_def push_state_def push_exec_def)
  have d: "push_step sample_env c (Due, \<lparr>tick = - 1, next_usage_push = n\<rparr>, w) = (Ticked, \<lparr>tick = 5, next_usage_push = n\<rparr>, w)" for c n and w :: nat
    by (simp add: push_step_def sample_env_def)
  have n: "steady_now sample_env w = (0, w)" for w by (simp add: sample_env_def)
  have s: "?s = push_state \<lparr>tick = 6, next_usage_push = hours 1 - 5\<rparr> 0 [(Some ?c, Push_Done (Inr ()))] [(0, 5)]"
    unfolding s1 by (simp add: push_exec_Go [OF _ push_step_ok(1) [OF n]] push_exec_Go [OF _ d]
      push_exec_Go [OF _ push_step_ok(3) [OF p]] push_exec_Go [OF _ push_step_ok(4)] push_exec_Go [OF _ push_step_ok(5)]
      next_hour_def)
  have "\<forall>i < length (pushers ?s). \<exists>r. snd (pushers ?s ! i) = Push_Done r" unfolding s by (simp add: push_state_def)
  from serial_pushes_hourly [OF r h _ _ this] s
  have "next_usage_push (shared_ingestor ?s) = - 5 + hours 1 \<and> tick (shared_ingestor ?s) = next_hour 5"
    by (simp add: push_state_def)
  then show ?thesis using r s by (intro exI [of _ ?s]) (simp add: push_state_def next_hour_def)
qed

section \<open>Overlapping calls\<close>

definition overlapping :: "RmsComputer \<Rightarrow> RmsComputer \<Rightarrow> push_event list" where
  "overlapping c d = [Item 0 (Some c), Item 1 (Some d)] @ map Go [0, 1, 0, 1, 0, 1, 0, 1, 0, 1]"

text \<open>
  C20. As it is, when two connections are past the check together both push under the same hour,
  and both advance the schedule: the next hour of the day is skipped for every client, and
  nothing is pushed until an hour later than due.
\<close>

theorem overlapping_pushes_skip_hour:
  assumes "0 \<le> tick ing" "\<And>w. fst (steady_now env w) > next_usage_push ing"
    and "\<And>w. fst (pushUsageToDB env (tick ing) c w) = Inr x" "\<And>w. fst (pushUsageToDB env (tick ing) d w) = Inr y"
  shows "\<exists>s. push_run env (\<lambda>_ _. True) (idle_pushers 2 ing w) (overlapping c d) s \<and>
    push_log s = [(0, tick ing), (1, tick ing)] \<and>
    shared_ingestor s = \<lparr>tick = next_hour (next_hour (tick ing)), next_usage_push = next_usage_push ing + hours 2\<rparr> \<and>
    map snd (pushers s) = [Push_Done (Inr ()), Push_Done (Inr ())]"
proof -
  let ?s = "fold (push_exec env) (overlapping c d) (idle_pushers 2 ing w)"
  have t: "tick ing \<noteq> - 1" using assms(1) by simp
  obtain n0 w0 where n0: "steady_now env w = (n0, w0)" by fastforce
  obtain n1 w1 where n1: "steady_now env w0 = (n1, w1)" by fastforce
  have due: "n0 > next_usage_push ing" "n1 > next_usage_push ing" using assms(2) [of w] assms(2) [of w0] n0 n1 by simp_all
  obtain w2 where p0: "pushUsageToDB env (tick ing) c w1 = (Inr x, w2)"
    using assms(3) [of w1] by (cases "pushUsageToDB env (tick ing) c w1") simp
  obtain w3 where p1: "pushUsageToDB env (tick ing) d w2 = (Inr y, w3)"
    using assms(4) [of w2] by (cases "pushUsageToDB env (tick ing) d w2") simp
  let ?ing = "ing\<lparr>tick := next_hour (next_hour (tick ing)), next_usage_push := next_usage_push ing + hours 2\<rparr>"
  have final: "?s = push_state ?ing w3 [(Some c, Push_Done (Inr ())), (Some d, Push_Done (Inr ()))] [(0, tick ing), (1, tick ing)]"
    by (simp add: overlapping_def idle_pushers_def push_state_def [symmetric] numeral_2_eq_2 push_exec_Item
      push_exec_Go [OF _ push_step_ok(1) [OF n0 due(1)]] push_exec_Go [OF _ push_step_ok(1) [OF n1 due(2)]]
      push_exec_Go [OF _ push_step_ok(2) [OF t]] push_exec_Go [OF _ push_step_ok(3) [OF p0]] push_exec_Go [OF _ push_step_ok(3) [OF p1]]
      push_exec_Go [OF _ push_step_ok(4)] push_exec_Go [OF _ push_step_ok(5)] hours_def add.commute)
  have "push_run env (\<lambda>_ _. True) (idle_pushers 2 ing w) ([] @ [Item 0 (Some c)]) (push_exec env (Item 0 (Some c)) (idle_pushers 2 ing w))"
    by (rule push_more [OF push_none]) (simp_all add: push_enabled_def idle_pushers_def numeral_2_eq_2)
  then have "push_run env (\<lambda>_ _. True) (idle_pushers 2 ing w) (([] @ [Item 0 (Some c)]) @ [Item 1 (Some d)])
      (push_exec env (Item 1 (Some d)) (push_exec env (Item 0 (Some c)) (idle_pushers 2 ing w)))"
    by (rule push_more) (simp_all add: push_enabled_def push_exec_def idle_pushers_def numeral_2_eq_2)
  from push_run_go [OF this, of "[0, 1, 0, 1, 0, 1, 0, 1, 0, 1]"]
  have "push_run env (\<lambda>_ _. True) (idle_pushers 2 ing w) (overlapping c d) ?s"
    by (simp add: overlapping_def pushers_exec idle_pushers_def)
  with final show ?thesis by (intro exI [of _ ?s]) (simp add: push_state_def)
qed

theorem overlapping_pushes_skip_hour_witness:
  "\<exists>s. push_run sample_env (\<lambda>_ _. True) (idle_pushers 2 \<lparr>tick = 23, next_usage_push = - 5\<rparr> 0)
       (overlapping (new_computer 5) (new_computer 6)) s \<and>
     push_log s = [(0, 23), (1, 23)] \<and> tick (shared_ingestor s) = 1"
proof -
  have u: "usage_info (new_computer i) = []" for i by (simp add: new_computer_def)
  have p: "fst (pushUsageToDB sample_env h (new_computer i) w) = Inr True" for h i w by (simp add: pushUsageToDB_def u sample_env_def)
  from overlapping_pushes_skip_hour [of "\<lparr>tick = 23, next_usage_push = - 5\<rparr>" sample_env "new_computer 5" True "new_computer 6" True 0] p
  show ?thesis by (auto simp: sample_env_def next_hour_def)
qed

end
