(* ===== verification/Storage_Reload.thy ===== *)
theory Storage_Reload
  imports Rms_Client
begin

text \<open>
  What a reconnecting client finds: the rows that the connections before it stored are read
  back by \<open>getFromDB\<close>, the information it reports is compared with them, and \<open>updateDB\<close> writes
  the differences (\<open>handshake\<close> of \<open>rms_client.cpp\<close> with the operations of \<open>rms_computer.cpp\<close>).
\<close>

section \<open>The rows of the devices\<close>

text \<open>The columns of \<open>storage_table\<close> and the row that holds \<open>d\<close> for computer \<open>cid\<close>.\<close>

definition storage_columns :: "string list" where
  "storage_columns =
     [''storage_info_id'', ''computer_id'', ''dev_path'', ''fs_type'', ''mount_point'', ''free'', ''total'', ''connected'']"

definition storage_row :: "int \<Rightarrow> RmsStorageInfo \<Rightarrow> string list" where
  "storage_row cid d =
     [to_string (storage_info_id d), to_string cid, dev_path d, fs_type d, mount_point d,
      to_string (uint (free d)), to_string (uint (total d)), to_string (of_bool (connected d))]"

definition device_in_range :: "RmsStorageInfo \<Rightarrow> bool" where
  "device_in_range d \<longleftrightarrow> in_i32 (storage_info_id d) \<and> in_i32 (uint (total d))"

text \<open>The free space is not read back, and no device counts as connected.\<close>

definition reloaded :: "RmsStorageInfo \<Rightarrow> RmsStorageInfo" where
  "reloaded d = d\<lparr>free := 0, connected := False, dirty := False\<rparr>"

lemma load_storage_row:
  assumes "device_in_range d"
  shows "load_storage_columns storage_columns (storage_row cid d) [0..<length storage_columns] new_storage_info =
    Inr ((reloaded d)\<lparr>connected := False\<rparr>)"
proof -
  have idx: "[0..<length storage_columns] = [0, 1, 2, 3, 4, 5, 6, 7]" by (simp add: storage_columns_def upt_rec)
  from assms show ?thesis
    unfolding idx
    by (cases d) (simp add: storage_columns_def storage_row_def load_storage_column_def device_in_range_def
        new_storage_info_def reloaded_def)
qed

lemma load_storage_rows_stored:
  "\<forall>d \<in> set devs. device_in_range d \<Longrightarrow>
     load_storage_rows storage_columns (map (storage_row cid) devs) acc = (Inr (), acc @ map reloaded devs)"
  by (induction devs arbitrary: acc) (simp_all add: load_storage_row reloaded_def)

section \<open>A reconnecting client\<close>

text \<open>The two queries of \<open>getFromDB\<close> answer with the rows of the computer.\<close>

definition answers_with :: "'w env \<Rightarrow> string \<Rightarrow> string list \<Rightarrow> string list list \<Rightarrow> bool" where
  "answers_with env q names rows \<longleftrightarrow> (\<forall>w. \<exists>r w'. execute_query env q False w = (Inr r, w') \<and> success r \<and>
     column_names r = names \<and> table_rows r = rows)"

definition holds_computer :: "'w env \<Rightarrow> int \<Rightarrow> SystemInfo \<Rightarrow> RmsStorageInfo list \<Rightarrow> bool" where
  "holds_computer env i s devs \<longleftrightarrow>
     answers_with env (fmt_query env RMS_DB_FETCH_COMPUTER_BY_ID [FInt i]) computer_columns [computer_row (arch_to_string env) i s] \<and>
     answers_with env (fmt_query env RMS_DB_FETCH_STORAGE_BY_COMPUTER_ID [FInt i]) storage_columns (map (storage_row i) devs)"

lemma answers_withE:
  assumes "answers_with env q names rows"
  obtains r w' where "execute_query env q False w = (Inr r, w')" "success r" "column_names r = names" "table_rows r = rows"
  using assms unfolding answers_with_def by blast

lemma getFromDB_stored:
  assumes "holds_computer env i s devs" "info_in_range s" "\<forall>d \<in> set devs. device_in_range d"
    and "in_i32 i" "i \<noteq> - 1"
  shows "\<exists>si w'. getFromDB (traced env) (new_computer i) (w, l) =
      (Inr True, (new_computer i)\<lparr>sys_info := si, storage_info := map reloaded devs\<rparr>,
       (w', l @ [fmt_query env RMS_DB_FETCH_COMPUTER_BY_ID [FInt i], fmt_query env RMS_DB_FETCH_STORAGE_BY_COMPUTER_ID [FInt i]])) \<and>
     load_columns computer_columns (computer_row (arch_to_string env) i s) [0..<length computer_columns] (sys_info (new_computer i)) = (Inr (), si)"
proof -
  let ?f = "fmt_query env RMS_DB_FETCH_COMPUTER_BY_ID [FInt i]" and ?g = "fmt_query env RMS_DB_FETCH_STORAGE_BY_COMPUTER_ID [FInt i]"
  have a: "answers_with env ?f computer_columns [computer_row (arch_to_string env) i s]"
    and b: "answers_with env ?g storage_columns (map (storage_row i) devs)" using assms(1) by (simp_all add: holds_computer_def)
  obtain r w1 where r: "execute_query env ?f False w = (Inr r, w1)" "success r" "column_names r = computer_columns"
      "table_rows r = [computer_row (arch_to_string env) i s]" by (rule answers_withE [OF a])
  obtain t w2 where t: "execute_query env ?g False w1 = (Inr t, w2)" "success t" "column_names t = storage_columns"
      "table_rows t = map (storage_row i) devs" by (rule answers_withE [OF b])
  obtain si where si: "load_columns computer_columns (computer_row (arch_to_string env) i s) [0..<length computer_columns]
      (sys_info (new_computer i)) = (Inr (), si)"
    using load_columns_row [OF assms(2)] by blast
  have id: "computer_id (new_computer i) = i" "storage_info (new_computer i) = []" using assms(4) by (simp_all add: new_computer_def)
  have "load_storage (traced env) ((new_computer i)\<lparr>sys_info := si\<rparr>) (w1, l @ [?f]) =
      (Inr True, (new_computer i)\<lparr>sys_info := si, storage_info := map reloaded devs\<rparr>, (w2, l @ [?f, ?g]))"
    using t id load_storage_rows_stored [OF assms(3), of i "[]"]
    by (cases devs) (simp_all add: load_storage_def run_query_def new_computer_def)
  then show ?thesis
    using r si id assms(5) by (intro exI [of _ si] exI [of _ w2]) (simp add: getFromDB_def run_query_def)
qed

lemma refresh_reloaded:
  assumes "reflects d x" "\<not> dirty d"
  shows "StorageInfoToRmsStorageInfo (reloaded d) x = d\<lparr>dirty := (free d \<noteq> 0)\<rparr>"
  using assms by (cases d) (auto simp: StorageInfoToRmsStorageInfo_def reloaded_def reflects_def)

lemma refresh_all_reloaded:
  "list_all2 reflects devs xs \<Longrightarrow> \<forall>d \<in> set devs. \<not> dirty d \<Longrightarrow>
     map2 StorageInfoToRmsStorageInfo (map reloaded devs) xs = map (\<lambda>d. d\<lparr>dirty := (free d \<noteq> 0)\<rparr>) devs"
  by (induction rule: list_all2_induct) (simp_all add: refresh_reloaded)

lemma update_queries_frame:
  "update_storage_query env (d\<lparr>dirty := x\<rparr>) = update_storage_query env d"
  "update_computer_query env (s\<lparr>sys_network_info := ns, sys_storage_info := ds\<rparr>) i = update_computer_query env s i"
  by (simp_all add: update_storage_query_def update_computer_query_def)

lemma free_devices_dirty:
  "filter dirty (map (\<lambda>d. d\<lparr>dirty := (free d \<noteq> 0)\<rparr>) devs) = map (\<lambda>d. d\<lparr>dirty := True\<rparr>) (filter (\<lambda>d. free d \<noteq> 0) devs)"
  by (induction devs) simp_all

lemma clean_device: "\<not> dirty d \<Longrightarrow> d\<lparr>dirty := False\<rparr> = d"
  by (cases d) simp

lemma clean_devices: "\<forall>d \<in> set devs. \<not> dirty d \<Longrightarrow> map (\<lambda>d. d\<lparr>dirty := False\<rparr>) devs = devs"
  by (rule map_idI) (simp add: clean_device)

text \<open>
  C13. The record of a computer survives a restart of the server: when the database holds the
  information \<open>s\<close> and the devices of computer \<open>i\<close>, and the client reconnects with that id and
  still reports them, it keeps its id, every device is restored with its database id and its
  contents, and after two queries the only statements are an UPDATE of the computer when its
  architecture is not x86-64 and one UPDATE for each device that has free space.
\<close>

theorem reconnect_restores:
  assumes "holds_computer env i s devs" "all_succeed env" "in_i32 i" "i \<noteq> - 1"
    and "info_in_range s" "\<And>a. arch_to_string env a = ''kX86_64'' \<longleftrightarrow> a = kX86_64"
    and "\<forall>d \<in> set devs. device_in_range d \<and> \<not> dirty d"
    and "list_all2 reflects devs (sys_storage_info s)" "distinct (map si_dev (sys_storage_info s))"
  shows "\<exists>c' w'. handshake (traced env) i s cl (w, l) =
      (Inr i, cl\<lparr>computer := Some c'\<rparr>,
       (w', l @ [fmt_query env RMS_DB_FETCH_COMPUTER_BY_ID [FInt i], fmt_query env RMS_DB_FETCH_STORAGE_BY_COMPUTER_ID [FInt i]] @
            (if arch (cpu_info s) = kX86_64 then [] else [update_computer_query env s i]) @
            map (update_storage_query env) (filter (\<lambda>d. free d \<noteq> 0) devs))) \<and>
    computer_id c' = i \<and> storage_info c' = devs \<and> sys_info c' = s\<lparr>sys_network_info := [], sys_storage_info := []\<rparr> \<and>
    \<not> sys_info_dirty c'"
proof -
  let ?fs = "[fmt_query env RMS_DB_FETCH_COMPUTER_BY_ID [FInt i], fmt_query env RMS_DB_FETCH_STORAGE_BY_COMPUTER_ID [FInt i]]"
  have range: "\<forall>d \<in> set devs. device_in_range d" and clean: "\<forall>d \<in> set devs. \<not> dirty d" using assms(7) by blast+
  obtain si w1 where g: "getFromDB (traced env) (new_computer i) (w, l) =
      (Inr True, (new_computer i)\<lparr>sys_info := si, storage_info := map reloaded devs\<rparr>, (w1, l @ ?fs))"
    and si: "load_columns computer_columns (computer_row (arch_to_string env) i s) [0..<length computer_columns]
      (sys_info (new_computer i)) = (Inr (), si)"
    using getFromDB_stored [OF assms(1,5) range assms(3,4)] by blast
  let ?c = "setSysInfo s ((new_computer i)\<lparr>sys_info := si, storage_info := map reloaded devs\<rparr>)"
  have "isSysInfoDirty si s = (arch (cpu_info s) \<noteq> kX86_64)"
    using reload_row_dirty_iff [OF assms(5,6), of i] si by simp
  then have dirt: "sys_info_dirty ?c = (arch (cpu_info s) \<noteq> kX86_64)" by simp
  have "map dev_path (map reloaded devs) = map si_dev (sys_storage_info s)"
    using assms(8) by (induction rule: list_all2_induct) (simp_all add: reloaded_def reflects_def)
  then have st: "storage_info ?c = map (\<lambda>d. d\<lparr>dirty := (free d \<noteq> 0)\<rparr>) devs"
    using storage_tab.fold_refresh_all [OF _ assms(9)] refresh_all_reloaded [OF assms(8) clean] by simp
  have id: "computer_id ?c = i" using assms(3) by (simp add: new_computer_def)
  obtain w2 where u: "updateDB (traced env) ?c (w1, l @ ?fs) =
      (Inr True, ?c\<lparr>sys_info_dirty := False, storage_info := map (\<lambda>d. d\<lparr>dirty := False\<rparr>) (storage_info ?c)\<rparr>,
       (w2, (l @ ?fs) @ updateDB_statements env ?c))"
    using updateDB_trace [OF assms(2), of ?c w1 "l @ ?fs"] id assms(4) by auto
  have "updateDB_statements env ?c =
      (if arch (cpu_info s) = kX86_64 then [] else [update_computer_query env s i]) @
      map (update_storage_query env) (filter (\<lambda>d. free d \<noteq> 0) devs)"
    unfolding updateDB_statements_def st free_devices_dirty dirt id by (simp add: update_queries_frame o_def)
  moreover have "map (\<lambda>d. d\<lparr>dirty := False\<rparr>) (storage_info ?c) = devs" unfolding st using clean_devices [OF clean] by (simp add: o_def)
  ultimately show ?thesis
    using g u id assms(4) by (intro exI [of _ "?c\<lparr>sys_info_dirty := False, storage_info := devs\<rparr>"] exI [of _ w2])
      (simp add: handshake_def on_computer_def)
qed

definition sample_stored :: RmsStorageInfo where
  "sample_stored = (fresh_storage sample_disk)\<lparr>storage_info_id := 7, dirty := False\<rparr>"

definition stored_env :: "nat env" where
  "stored_env = sample_env\<lparr>arch_to_string := sample_show_arch,
     execute_query := (\<lambda>q ret n. (Inr
       (if q = fmt_query sample_env RMS_DB_FETCH_COMPUTER_BY_ID [FInt 5]
        then sample_result\<lparr>column_names := computer_columns, table_rows := [computer_row sample_show_arch 5 sample_info]\<rparr>
        else if q = fmt_query sample_env RMS_DB_FETCH_STORAGE_BY_COMPUTER_ID [FInt 5]
        then sample_result\<lparr>column_names := storage_columns, table_rows := [storage_row 5 sample_stored]\<rparr>
        else sample_result), Suc n))\<rparr>"

lemma stored_env_query: "fmt_query stored_env = fmt_query sample_env"
  by (simp add: fmt_query_def fun_eq_iff stored_env_def)

lemma stored_env_holds: "holds_computer stored_env 5 sample_info [sample_stored]"
proof -
  have "fmt_query sample_env RMS_DB_FETCH_STORAGE_BY_COMPUTER_ID [FInt 5] \<noteq> fmt_query sample_env RMS_DB_FETCH_COMPUTER_BY_ID [FInt 5]"
    by (simp add: fmt_query_def sample_env_def c_str_def RMS_DB_FETCH_STORAGE_BY_COMPUTER_ID_def RMS_DB_FETCH_COMPUTER_BY_ID_def)
  then show ?thesis
    unfolding holds_computer_def answers_with_def stored_env_query by (simp add: stored_env_def sample_result_def)
qed

theorem reconnect_restores_witness:
  "\<exists>c' w'. fst (handshake (traced stored_env) 5 sample_info new_client (0, [])) = Inr 5 \<and>
     fst (snd (handshake (traced stored_env) 5 sample_info new_client (0, []))) = new_client\<lparr>computer := Some c'\<rparr> \<and>
     storage_info c' = [sample_stored] \<and> \<not> sys_info_dirty c'"
proof -
  have ok: "all_succeed stored_env" by (simp add: all_succeed_def stored_env_def sample_result_def)
  have arch: "arch_to_string stored_env a = ''kX86_64'' \<longleftrightarrow> a = kX86_64" for a
    by (simp add: stored_env_def sample_show_arch)
  have range: "info_in_range sample_info"
    by (simp add: info_in_range_def version_in_range_def sample_info_def default_system_info_def
      default_version_def default_cpu_info_def in_i32_def)
  have dev: "\<forall>d \<in> set [sample_stored]. device_in_range d \<and> \<not> dirty d"
    by (simp add: device_in_range_def sample_stored_def sample_disk_def in_i32_def)
  have rep: "list_all2 reflects [sample_stored] (sys_storage_info sample_info)" "distinct (map si_dev (sys_storage_info sample_info))"
    by (simp_all add: sample_info_def sample_stored_def reflects_def)
  show ?thesis
    using reconnect_restores [OF stored_env_holds ok _ _ range arch dev rep, of new_client 0 "[]"]
    by (auto simp: in_i32_def)
qed

end
