(* ===== verification/Sql_Text.thy ===== *)
theory Sql_Text
  imports Rms_Ingestor Rms_Client
begin

text \<open>
  The texts of the statements. The server builds every statement with \<open>fmt::format\<close> from the
  templates of \<open>rms_database.h\<close>; what the formatting library does with a call whose arguments
  match the fields is stated here as documented, and used as an assumption.
\<close>

section \<open>Templates and arguments\<close>

fun arg_spec :: "fmt_arg \<Rightarrow> char" where
  "arg_spec (FInt n) = CHR ''d''"
| "arg_spec (FStr s) = CHR ''s''"
| "arg_spec (FDbl d) = CHR ''f''"

text \<open>A number prints in decimal, a string as it is; the text of a \<open>double\<close> is a parameter.\<close>

fun arg_text :: "(dbl \<Rightarrow> string) \<Rightarrow> fmt_arg \<Rightarrow> string" where
  "arg_text show_dbl (FInt n) = to_string n"
| "arg_text show_dbl (FStr s) = s"
| "arg_text show_dbl (FDbl d) = show_dbl d"

text \<open>\<open>None\<close> when the arguments are not as many as the fields, or of another kind.\<close>

fun replace_fields :: "(dbl \<Rightarrow> string) \<Rightarrow> string \<Rightarrow> fmt_arg list \<Rightarrow> string option" where
  "replace_fields show_dbl [] args = (if args = [] then Some [] else None)"
| "replace_fields show_dbl (c # s) args =
     (if c = CHR ''{'' then (case args of
        [] \<Rightarrow> None
      | a # rest \<Rightarrow>
          (if take 3 s = [CHR '':'', arg_spec a, CHR ''}'']
           then map_option ((@) (arg_text show_dbl a)) (replace_fields show_dbl (drop 3 s) rest) else None))
      else if c = CHR ''}'' then None
      else map_option ((#) c) (replace_fields show_dbl s args))"

definition fmt_documented :: "(dbl \<Rightarrow> string) \<Rightarrow> 'w env \<Rightarrow> bool" where
  "fmt_documented show_dbl env \<longleftrightarrow>
     (\<forall>t args s. replace_fields show_dbl t args = Some s \<longrightarrow> fmt_format env t args = s)"

lemma fmt_query_text:
  "fmt_documented show_dbl env \<Longrightarrow> replace_fields show_dbl t args = Some s \<Longrightarrow> fmt_query env t args = c_str s"
  by (simp add: fmt_documented_def fmt_query_def)

lemmas templates =
  RMS_DB_TYPE_FMT_STRING_def RMS_DB_TYPE_FMT_INT_def RMS_DB_TYPE_FMT_FLOAT_def RMS_DB_TYPE_FMT_VERSION_def
  RMS_DB_TYPE_FMT_DATE_def sq_def
  RMS_DB_INSERT_COMPUTER_TABLE_def RMS_DB_UPDATE_COMPUTER_TABLE_def RMS_DB_FETCH_COMPUTER_BY_ID_def
  RMS_DB_INSERT_STORAGE_TABLE_def RMS_DB_UPDATE_STORAGE_TABLE_def RMS_DB_FETCH_STORAGE_BY_COMPUTER_ID_def
  RMS_DB_INSERT_USAGE_TABLE_def RMS_DB_INSERT_USAGE_TABLE_WITH_ID_def RMS_DB_UPDATE_USAGE_TABLE_def
  RMS_DB_UPDATE_USAGE_TABLE_WITH_ID_def RMS_DB_DOES_USAGE_ENTRY_EXIST_def
  RMS_DB_DOES_USAGE_ENTRY_EXIST_WITH_ID_def RMS_DB_INSERT_EXECUTOR_TABLE_def RMS_DB_UPDATE_EXECUTOR_TABLE_def

lemma executor_statement:
  "replace_fields show_dbl RMS_DB_INSERT_EXECUTOR_TABLE [FInt cid, FInt now, FStr cmd] =
     Some (''INSERT INTO executor_table(computer_id, start_time, name)values ( '' @ to_string cid @ '','' @
       to_string now @ '','' @ sq @ cmd @ sq @ '');'')"
  by (simp add: templates)

lemma documented_agree:
  assumes "fmt_documented show_dbl env" "fmt_documented show_dbl env'" "replace_fields show_dbl t args \<noteq> None"
  shows "fmt_query env t args = fmt_query env' t args"
  using assms(3) fmt_query_text [OF assms(1)] fmt_query_text [OF assms(2)] by fastforce

lemma storage_fields_match:
  "replace_fields show_dbl RMS_DB_INSERT_STORAGE_TABLE [FInt i, FStr a, FStr b, FStr c, FInt j, FInt k] \<noteq> None"
  "replace_fields show_dbl RMS_DB_UPDATE_STORAGE_TABLE [FInt i, FInt j, FInt k, FStr a, FStr b, FInt l] \<noteq> None"
  "replace_fields show_dbl RMS_DB_FETCH_STORAGE_BY_COMPUTER_ID [FInt i] \<noteq> None"
  by (simp_all add: templates)

lemma computer_fields_match:
  "replace_fields show_dbl RMS_DB_INSERT_COMPUTER_TABLE
     [FStr a, FStr b, FInt i1, FInt i2, FInt i3, FInt j1, FInt j2, FInt j3, FStr c, FStr d, FInt k, FInt l, FStr e] \<noteq> None"
  "replace_fields show_dbl RMS_DB_UPDATE_COMPUTER_TABLE
     ([FStr a, FStr b] @ version_args v @ version_args u @ [FStr c, FStr d, FInt k, FInt l, FStr e, FInt m]) \<noteq> None"
  "replace_fields show_dbl RMS_DB_FETCH_COMPUTER_BY_ID [FInt i] \<noteq> None"
  by (simp_all add: templates version_args_def)

lemma usage_fields_match:
  "replace_fields show_dbl RMS_DB_DOES_USAGE_ENTRY_EXIST (date_args d @ [FInt k]) \<noteq> None"
  "replace_fields show_dbl RMS_DB_DOES_USAGE_ENTRY_EXIST_WITH_ID (date_args d @ [FInt k, FInt i]) \<noteq> None"
  "replace_fields show_dbl RMS_DB_INSERT_USAGE_TABLE (date_args d @ [FInt k]) \<noteq> None"
  "replace_fields show_dbl RMS_DB_INSERT_USAGE_TABLE_WITH_ID (date_args d @ [FInt k, FInt i]) \<noteq> None"
  "replace_fields show_dbl RMS_DB_UPDATE_USAGE_TABLE ([FInt t, FDbl x] @ date_args d @ [FInt k]) \<noteq> None"
  "replace_fields show_dbl RMS_DB_UPDATE_USAGE_TABLE_WITH_ID ([FInt t, FDbl x] @ date_args d @ [FInt k, FInt i]) \<noteq> None"
  by (simp_all add: templates date_args_def)

lemma executor_fields_match:
  "replace_fields show_dbl RMS_DB_INSERT_EXECUTOR_TABLE [FInt i, FInt j, FStr a] \<noteq> None"
  "replace_fields show_dbl RMS_DB_UPDATE_EXECUTOR_TABLE [FInt i, FInt j, FInt k, FInt l] \<noteq> None"
  by (simp_all add: templates)

lemmas fields_match = storage_fields_match computer_fields_match usage_fields_match executor_fields_match

text \<open>
  C23. Every statement that the server formats gives its template as many arguments as it has
  fields, each of the kind of its field, so that the documented behaviour of the formatting
  library determines the text: two libraries that behave as documented give the same one.
\<close>

theorem statements_well_formed:
  assumes "fmt_documented show_dbl env" "fmt_documented show_dbl env'" "arch_to_string env' = arch_to_string env"
  shows "insert_computer_query env' s = insert_computer_query env s \<and>
    update_computer_query env' s i = update_computer_query env s i \<and>
    fmt_query env' RMS_DB_FETCH_COMPUTER_BY_ID [FInt i] = fmt_query env RMS_DB_FETCH_COMPUTER_BY_ID [FInt i] \<and>
    insert_storage_query env' i dev = insert_storage_query env i dev \<and>
    update_storage_query env' dev = update_storage_query env dev \<and>
    fmt_query env' RMS_DB_FETCH_STORAGE_BY_COMPUTER_ID [FInt i] = fmt_query env RMS_DB_FETCH_STORAGE_BY_COMPUTER_ID [FInt i] \<and>
    usage_exists_query env' d u = usage_exists_query env d u \<and>
    usage_insert_query env' d u = usage_insert_query env d u \<and>
    usage_update_query env' d j u = usage_update_query env d j u \<and>
    insert_executor_query env' i now cmd = insert_executor_query env i now cmd \<and>
    update_executor_query env' r = update_executor_query env r"
proof -
  note agree = documented_agree [OF assms(2,1)]
  show ?thesis
    unfolding insert_computer_query_def update_computer_query_def insert_storage_query_def update_storage_query_def
      usage_exists_query_def usage_insert_query_def usage_update_query_def insert_executor_query_def
      update_executor_query_def assms(3)
    by (intro conjI if_cong refl agree fields_match)
qed

section \<open>The text of a command\<close>

text \<open>The rest of an SQL string literal after its opening quote; a doubled quote stands for one.\<close>

fun read_literal :: "string \<Rightarrow> (string \<times> string) option" where
  "read_literal [] = None"
| "read_literal (c # s) =
     (if c = CHR 0x27 then
        (case s of
           d # r \<Rightarrow> if d = CHR 0x27 then map_option (apfst ((#) c)) (read_literal r) else Some ([], s)
         | [] \<Rightarrow> Some ([], []))
      else map_option (apfst ((#) c)) (read_literal s))"

lemma read_literal_end: "s \<noteq> [] \<Longrightarrow> hd s \<noteq> CHR 0x27 \<Longrightarrow> read_literal (CHR 0x27 # s) = Some ([], s)"
  by (cases s) simp_all

lemma read_literal_plain:
  "CHR 0x27 \<notin> set a \<Longrightarrow> s \<noteq> [] \<Longrightarrow> hd s \<noteq> CHR 0x27 \<Longrightarrow> read_literal (a @ CHR 0x27 # s) = Some (a, s)"
proof (induction a)
  case Nil
  then show ?case by (simp add: read_literal_end del: read_literal.simps)
qed (auto simp del: append_assoc)

text \<open>
  C24. A command is put into its INSERT as it is. Without a quote in it, the database reads it
  back as the third value of the row; a command with a single quote ends the value there, and
  what the operator typed after the quote is read as SQL; a null byte cuts the statement off
  inside the value.
\<close>

theorem command_in_statement:
  assumes "fmt_documented show_dbl env"
  shows "\<exists>pre. CHR 0x27 \<notin> set pre \<and> CHR 0x00 \<notin> set pre \<and>
    (CHR 0x00 \<notin> set cmd \<longrightarrow> insert_executor_query env i now cmd = pre @ sq @ cmd @ sq @ '');'') \<and>
    (CHR 0x00 \<in> set cmd \<longrightarrow> insert_executor_query env i now cmd = pre @ sq @ takeWhile (\<lambda>c. c \<noteq> CHR 0x00) cmd) \<and>
    (CHR 0x27 \<notin> set cmd \<longrightarrow> read_literal (cmd @ sq @ '');'') = Some (cmd, '');'')) \<and>
    (\<forall>a b. cmd = a @ CHR 0x27 # b \<and> CHR 0x27 \<notin> set a \<and> b \<noteq> [] \<and> hd b \<noteq> CHR 0x27 \<longrightarrow>
       read_literal (cmd @ sq @ '');'') = Some (a, b @ sq @ '');''))"
proof -
  let ?pre = "''INSERT INTO executor_table(computer_id, start_time, name)values ( '' @ to_string i @ '','' @ to_string now @ '',''"
  have special: "CHR 0x27 \<notin> set (to_string n)" "CHR 0x00 \<notin> set (to_string n)" for n
    using to_string_chars [of "CHR 0x27" n] to_string_chars [of "CHR 0x00" n] by (auto simp: is_digit_def)
  then have pre: "CHR 0x27 \<notin> set ?pre" "CHR 0x00 \<notin> set ?pre" by auto
  have q: "insert_executor_query env i now cmd = c_str (?pre @ sq @ cmd @ sq @ '');'')"
    unfolding insert_executor_query_def fmt_query_text [OF assms executor_statement] by simp
  have whole: "c_str (x @ y) = x @ c_str y" if "CHR 0x00 \<notin> set x" for x y
    using that by (auto simp: c_str_def takeWhile_append)
  have cut: "c_str (x @ y) = c_str x" if "CHR 0x00 \<in> set x" for x y
    using that by (auto simp: c_str_def takeWhile_append)
  have sq0: "CHR 0x00 \<notin> set sq" "c_str (sq @ '');'') = sq @ '');''" by (simp_all add: sq_def c_str_def)
  have "insert_executor_query env i now cmd = ?pre @ sq @ c_str (cmd @ sq @ '');'')"
    unfolding q whole [OF pre(2)] whole [OF sq0(1)] by (rule refl)
  moreover have "c_str (cmd @ sq @ '');'') = (if CHR 0x00 \<in> set cmd then c_str cmd else cmd @ sq @ '');'')"
    using whole [of cmd "sq @ '');''"] cut [of cmd "sq @ '');''"] sq0 by simp
  moreover have "read_literal (a @ CHR 0x27 # b @ sq @ '');'') = Some (a, b @ sq @ '');'')"
    if "CHR 0x27 \<notin> set a" "b \<noteq> []" "hd b \<noteq> CHR 0x27" for a b
    using that by (intro read_literal_plain) simp_all
  moreover have "CHR 0x27 \<notin> set cmd \<Longrightarrow> read_literal (cmd @ sq @ '');'') = Some (cmd, '');'')"
    using read_literal_plain [of cmd "'');''"] by (simp add: sq_def)
  ultimately show ?thesis using pre by (intro exI [of _ ?pre]) (auto simp: c_str_def)
qed

definition documented_env :: "nat env" where
  "documented_env = sample_env\<lparr>fmt_format := (\<lambda>t args. case replace_fields (\<lambda>_. ''0.0'') t args of None \<Rightarrow> [] | Some s \<Rightarrow> s)\<rparr>"

lemma documented_env: "fmt_documented (\<lambda>_. ''0.0'') documented_env"
  by (simp add: fmt_documented_def documented_env_def)

theorem statements_well_formed_witness:
  "insert_executor_query (documented_env\<lparr>fmt_format := (\<lambda>t args. case replace_fields (\<lambda>_. ''0.0'') t args of None \<Rightarrow> ''?'' | Some s \<Rightarrow> s)\<rparr>) 5 0 ''ls'' = insert_executor_query documented_env 5 0 ''ls''"
proof -
  have "fmt_documented (\<lambda>_. ''0.0'') (documented_env\<lparr>fmt_format := (\<lambda>t args. case replace_fields (\<lambda>_. ''0.0'') t args of None \<Rightarrow> ''?'' | Some s \<Rightarrow> s)\<rparr>)"
    by (simp add: fmt_documented_def documented_env_def)
  from statements_well_formed [OF documented_env this] show ?thesis by simp
qed

theorem command_in_statement_witness:
  "(\<exists>pre. insert_executor_query documented_env 5 0 ''ls'' = pre @ sq @ ''ls'' @ sq @ '');'') \<and>
   read_literal (''echo '' @ sq @ ''a'' @ sq @ '');'') = Some (''echo '', ''a'' @ sq @ '');'')"
proof -
  have 1: "\<exists>pre. insert_executor_query documented_env 5 0 ''ls'' = pre @ sq @ ''ls'' @ sq @ '');''"
    using command_in_statement [OF documented_env, of "''ls''" 5 0] by auto
  have "\<forall>a b. ''echo '' @ sq @ ''a'' = a @ CHR 0x27 # b \<and> CHR 0x27 \<notin> set a \<and> b \<noteq> [] \<and> hd b \<noteq> CHR 0x27 \<longrightarrow>
      read_literal ((''echo '' @ sq @ ''a'') @ sq @ '');'') = Some (a, b @ sq @ '');'')"
    using command_in_statement [OF documented_env, of "''echo '' @ sq @ ''a''" 5 0] by blast
  from this [rule_format, of "''echo ''" "''a''"] 1 show ?thesis by (simp add: sq_def)
qed

end
