(* ===== verification/Client_Handler.thy ===== *)
theory Client_Handler
  imports Rms_Terminal
begin

text \<open>
  \<open>ClientHandler\<close> (\<open>server/src/client_handler.cpp\<close>), which owns the RPC server and the thread
  it runs in, and the life of the server process: \<open>main\<close> (\<open>server/src/main.cpp\<close>) with
  \<open>RmsServer::start\<close> and \<open>RmsServer::stop\<close>. The RPC server is a library: \<open>listens\<close> says whether its
  \<open>serve\<close> can listen on a port, which it cannot on one that is invalid or in use, and
  \<open>returns\<close> whether \<open>serve\<close> returns after \<open>stop\<close>: it waits until the calls of the connected clients
  have ended, and a stop that comes before it listens is lost. Without a stop it does not
  return. An exception that leaves a thread, a join of one that cannot be joined, and the
  destruction of or assignment to one that was not joined end the process with an abort.
\<close>

section \<open>The listener\<close>

text \<open>\<open>rpc_server\<close> says, when there is one, whether it was told to stop.\<close>

record ClientHandler =
  running :: bool
  rpc_server :: "bool option"
  listen_port :: int
  accept_joinable :: bool

definition new_handler :: ClientHandler where
  "new_handler = \<lparr>running = False, rpc_server = None, listen_port = 0, accept_joinable = False\<rparr>"

definition abort :: "'a res" where
  "abort = Inl (Exit 134)"

definition startListener :: "int \<Rightarrow> ClientHandler \<Rightarrow> ClientHandler res" where
  "startListener port h =
     (if accept_joinable h then abort
      else Inr \<lparr>running = True, rpc_server = Some False, listen_port = port, accept_joinable = True\<rparr>)"

text \<open>The thread of the listener: a failure of \<open>serve\<close> to listen is an exception that it does not catch.\<close>

definition acceptClients :: "(int \<Rightarrow> bool) \<Rightarrow> ClientHandler \<Rightarrow> unit res" where
  "acceptClients listens h = (if listens (listen_port h) then Inr () else abort)"

definition stopListening :: "bool \<Rightarrow> ClientHandler \<Rightarrow> ClientHandler res" where
  "stopListening returns h = (case rpc_server h of
     None \<Rightarrow> Inl Null_Deref
   | Some _ \<Rightarrow>
       (if \<not> accept_joinable h then abort
        else if returns then Inr (h\<lparr>running := False, rpc_server := Some True, accept_joinable := False\<rparr>)
        else Inl No_Return))"

text \<open>\<open>wait\<close> joins the thread, which ends only if the server was told to stop.\<close>

definition wait_listener :: "ClientHandler \<Rightarrow> ClientHandler res" where
  "wait_listener h =
     (if \<not> accept_joinable h then abort
      else if rpc_server h = Some True then Inr (h\<lparr>accept_joinable := False\<rparr>)
      else Inl No_Return)"

definition destroy_handler :: "ClientHandler \<Rightarrow> unit res" where
  "destroy_handler h = (if accept_joinable h then abort else Inr ())"

section \<open>The process\<close>

text \<open>\<open>RmsServer::stop\<close>, and the function of \<open>main.cpp\<close> that the line \<open>exit\<close> calls.\<close>

definition stop_server :: "bool \<Rightarrow> ClientHandler \<Rightarrow> (int \<times> ClientHandler) res" where
  "stop_server returns h = rbind (stopListening returns h) (\<lambda>h1. Inr (0, h1))"

definition rms_exit_handler :: "bool \<Rightarrow> int \<Rightarrow> ClientHandler \<Rightarrow> (int \<times> ClientHandler) res" where
  "rms_exit_handler returns sig h = rbind (stop_server returns h) (\<lambda>(_, h1). Inr (0, h1))"

text \<open>
  \<open>exit\<close> in the terminal calls this and leaves the loop. The signals are blocked and no
  one waits for them, so without a terminal nothing calls \<open>stop\<close>. The result is the exit
  code; \<open>None\<close> is a terminal loop that never ends. A thread that cannot listen ends the
  process as soon as it runs. The calls of connected clients run beside the terminal
  (\<open>Server_System\<close>); here they only count for \<open>returns\<close>.
\<close>

definition server_main ::
  "('w, 'stmt) sqlite_api \<Rightarrow> 'w env \<Rightarrow> (string \<Rightarrow> 'w \<Rightarrow> bool) \<Rightarrow> file_system \<Rightarrow> (VersionData \<Rightarrow> string) \<Rightarrow>
     (int \<Rightarrow> bool) \<Rightarrow> bool \<Rightarrow> bool \<Rightarrow> istream \<Rightarrow> 'w \<Rightarrow> int res option"
where
  "server_main api env file_exists fs show_version listens returns tty input w =
     (case start api env file_exists fs initial_config new_server w of
        (Inl e, _) \<Rightarrow> Some (Inl e)
      | (Inr port, _, s, w1) \<Rightarrow> (case rbind (startListener port new_handler) (\<lambda>h. rbind (acceptClients listens h) (\<lambda>_. Inr h)) of
          Inl e \<Rightarrow> Some (Inl e)
        | Inr h \<Rightarrow>
            (if tty then
               (case rmsTerminal env show_version input [] [] s w1 of
                  None \<Rightarrow> None
                | Some (Inl e, _) \<Rightarrow> Some (Inl e)
                | Some (Inr _, _) \<Rightarrow>
                    Some (rbind (rms_exit_handler returns 0 h) (\<lambda>(_, h1). rbind (destroy_handler h1) (\<lambda>_. Inr 0))))
             else Some (rbind (wait_listener h) (\<lambda>h1. rbind (destroy_handler h1) (\<lambda>_. Inr 0))))))"

text \<open>
  The thread is joined at the first stop: stopping a server twice, or after \<open>wait\<close> has
  returned, aborts the process.
\<close>

lemma second_stop_aborts:
  "rms_exit_handler returns sig h = Inr (r, h1) \<Longrightarrow> rms_exit_handler returns' sig' h1 = abort"
  "wait_listener h = Inr h1 \<Longrightarrow> rms_exit_handler returns' sig' h1 = abort"
  by (auto simp: rms_exit_handler_def stop_server_def stopListening_def wait_listener_def abort_def
    split: option.splits if_splits)

text \<open>
  C40. How the server process ends, once \<open>start\<close> has loaded its configuration and its backend. Where
  it cannot listen on its port, it aborts. Otherwise it ends with code 0 exactly when it has a terminal, the
  terminal loop ends with \<open>exit\<close>, and the RPC server returns after the stop: the listener's
  thread is then joined once, so that nothing aborts; when the RPC server does not return, neither does
  the process. Without a terminal a server that listens never ends.
\<close>

theorem server_main_ends:
  assumes "start api env file_exists fs initial_config new_server w = (Inr port, cfg, s, w1)"
  shows "(\<not> listens port \<longrightarrow>
      server_main api env file_exists fs show_version listens returns tty input w = Some (Inl (Exit 134))) \<and>
    (server_main api env file_exists fs show_version listens returns tty input w = Some (Inr 0) \<longleftrightarrow>
      listens port \<and> tty \<and> returns \<and>
      (\<exists>outs s2 w2. rmsTerminal env show_version input [] [] s w1 = Some (Inr (), outs, s2, w2))) \<and>
    (listens port \<and> (\<not> tty \<or> \<not> returns \<and>
        (\<exists>outs s2 w2. rmsTerminal env show_version input [] [] s w1 = Some (Inr (), outs, s2, w2))) \<longrightarrow>
      server_main api env file_exists fs show_version listens returns tty input w = Some (Inl No_Return))"
proof (cases "listens port")
  case False
  with assms show ?thesis
    by (simp add: server_main_def startListener_def new_handler_def acceptClients_def abort_def)
next
  case True
  note listens = this
  show ?thesis
  proof (cases tty)
    case True
    with listens show ?thesis
      using assms
      by (cases "rmsTerminal env show_version input [] [] s w1"; cases returns)
        (auto simp: server_main_def startListener_def new_handler_def acceptClients_def stopListening_def
          rms_exit_handler_def stop_server_def destroy_handler_def split: sum.splits prod.splits)
  next
    case False
    with listens assms show ?thesis
      by (simp add: server_main_def startListener_def new_handler_def acceptClients_def wait_listener_def)
  qed
qed

definition main_config :: RmsConfig where
  "main_config = \<lparr>config = [''db_type'' \<mapsto> ''log'', ''server_port'' \<mapsto> to_string 80], config_path = server_config_path\<rparr>"

definition main_fs :: file_system where
  "main_fs = RmsConfig_save (\<lambda>_. [''db_type'', ''server_port'']) main_config sample_fs"

lemma main_config_loads: "RmsConfig_load server_config_path initial_config main_fs = (Inr (), main_config)"
proof -
  have "config_ok (config main_config)"
    using to_string_no_space
    by (auto simp: main_config_def config_ok_def entry_ok_def is_word_def is_space_def split: if_splits)
  moreover have "set [''db_type'', ''server_port''] = dom (config main_config)" by (auto simp: main_config_def)
  ultimately show ?thesis
    unfolding main_fs_def by (intro saved_config_loads) (simp_all add: sample_fs_def main_config_def server_config_path_def)
qed

theorem server_main_ends_witness:
  "server_main sample_api sample_env (\<lambda>_ _. True) main_fs (\<lambda>_. []) (\<lambda>p. 0 \<le> p) True True (open_stream ''exit'') 0 = Some (Inr 0) \<and>
   server_main sample_api sample_env (\<lambda>_ _. True) main_fs (\<lambda>_. []) (\<lambda>p. 0 \<le> p) True False (open_stream []) 0 =
     Some (Inl No_Return) \<and>
   server_main sample_api sample_env (\<lambda>_ _. True) main_fs (\<lambda>_. []) (\<lambda>_. False) True True (open_stream ''exit'') 0 =
     Some (Inl (Exit 134))"
proof -
  have t: "RmsConfig_find RMS_SERVER_CONFIG_DB_TYPE main_config = (''log'', main_config)"
    by (simp add: RmsConfig_find_def main_config_def RMS_SERVER_CONFIG_DB_TYPE_def server_config_path_def)
  have "RmsConfig_findInt RMS_REPORTER_CONFIG_SERVER_PORT main_config = (Inr 80, main_config)"
    by (simp add: RmsConfig_findInt_def RmsConfig_find_def main_config_def RMS_REPORTER_CONFIG_SERVER_PORT_def
        server_config_path_def stod_to_string dbl_to_int_def Rms_Config.truncate_def in_i32_def)
  then have "\<exists>s w1. start sample_api sample_env (\<lambda>_ _. True) main_fs initial_config new_server 0 = (Inr 80, main_config, s, w1)"
    by (simp add: start_def main_config_loads t open_backend_def)
  then obtain s w1 where
    st: "start sample_api sample_env (\<lambda>_ _. True) main_fs initial_config new_server 0 = (Inr 80, main_config, s, w1)" by blast
  have "rmsTerminal sample_env (\<lambda>_. []) (open_stream ''exit'') [] [] s w1 = Some (Inr (), [], s, w1)"
    by (subst rmsTerminal.simps) (simp add: extract_line_def open_stream_def keep_def newline_def)
  with server_main_ends [OF st, of "\<lambda>p. 0 \<le> p" "\<lambda>_. []" True True "open_stream ''exit''"]
    server_main_ends [OF st, of "\<lambda>p. 0 \<le> p" "\<lambda>_. []" True False "open_stream []"]
    server_main_ends [OF st, of "\<lambda>_. False" "\<lambda>_. []" True True "open_stream ''exit''"]
  show ?thesis by auto
qed

end
