(* ===== verification/Rms_Request_Client.thy ===== *)
theory Rms_Request_Client
  imports Rms_Thrift Rms_Config Fifo
begin

text \<open>
  \<open>RequestClient\<close> of the reporter (\<open>reporter/common/src/request_client.cpp\<close>): the queue of
  requests with its semaphore, the thread that sends them, and the handshake. The threads
  interleave: a producer appends under the mutex and then releases the semaphore; the
  worker is a program counter whose steps are the points where another thread can run.
  The maximum of the semaphore is a parameter; \<open>std::binary_semaphore\<close> guarantees 1.
\<close>

section \<open>State\<close>

datatype RequestProtocol = kTCP | kHTTP | kLOG

type_synonym queued_request = "RequestProtocol \<times> RmsRequest"

text \<open>
  Where the worker thread is: not created, before it sets the flag, in the handshake before
  the loop, at the head of the loop, before \<open>acquire\<close>, after it, sending the front request
  with the mutex held, in the handshake after a failure, or finished.
\<close>

datatype worker_pc =
  Not_Started | Starting | Connecting | Loop_Head | Acquiring | Acquired | Sending | Reconnecting | Finished

text \<open>
  \<open>unreleased\<close> counts producers between their append and their release. Two fields record the
  history and are read by no operation: \<open>submitted\<close> what was appended, \<open>delivered\<close> what was
  sent without a failure.
\<close>

record RequestClient =
  request_queue :: "queued_request list"
  request_counter :: nat
  poll_requests :: bool
  mtx_locked :: bool
  pc :: worker_pc
  unreleased :: nat
  delivered :: "queued_request list"
  submitted :: "queued_request list"

definition new_request_client :: RequestClient where
  "new_request_client =
     \<lparr>request_queue = [], request_counter = 0, poll_requests = False, mtx_locked = False, pc = Not_Started,
      unreleased = 0, delivered = [], submitted = []\<rparr>"

section \<open>The queue\<close>

definition push_request :: "queued_request \<Rightarrow> RequestClient \<Rightarrow> RequestClient" where
  "push_request r s = s\<lparr>request_queue := request_queue s @ [r], submitted := submitted s @ [r]\<rparr>"

definition pop_request :: "RequestClient \<Rightarrow> (queued_request \<times> RequestClient) option" where
  "pop_request s = (case request_queue s of
     [] \<Rightarrow> None
   | r # rs \<Rightarrow> Some (r, s\<lparr>request_queue := rs\<rparr>))"

interpretation requests: fifo push_request pop_request request_queue
proof
  fix q q' :: RequestClient and x
  assume "pop_request q = Some (x, q')"
  then show "request_queue q = x # request_queue q'"
    by (auto simp: pop_request_def split: list.splits)
qed (auto simp: push_request_def pop_request_def split: list.splits)

text \<open>Releasing a permit above the maximum is undefined.\<close>

definition release_permit :: "nat \<Rightarrow> RequestClient \<Rightarrow> RequestClient res" where
  "release_permit sem_max s =
     (if request_counter s < sem_max then Inr (s\<lparr>request_counter := request_counter s + 1\<rparr>)
      else Inl Semaphore_Overflow)"

section \<open>Steps of the other threads\<close>

text \<open>\<open>sendRequest\<close> in its two halves; the first waits for the mutex.\<close>

definition send_append :: "queued_request \<Rightarrow> RequestClient \<Rightarrow> RequestClient" where
  "send_append r s = (push_request r s)\<lparr>unreleased := unreleased s + 1\<rparr>"

definition send_release :: "nat \<Rightarrow> RequestClient \<Rightarrow> RequestClient res" where
  "send_release sem_max s = release_permit sem_max (s\<lparr>unreleased := unreleased s - 1\<rparr>)"

text \<open>
  \<open>start\<close>: a thread object that has not been joined cannot be assigned to. The join at the
  end of \<open>stop\<close> is not a step here, and the program starts its client once, so a second
  start after a join is left out.
\<close>

definition start_client :: "RequestClient \<Rightarrow> RequestClient res" where
  "start_client s =
     (if poll_requests s then Inr s
      else if pc s = Not_Started then Inr (s\<lparr>pc := Starting\<rparr>)
      else Inl (Exit 134))"

text \<open>\<open>stop\<close> up to the join.\<close>

definition stop_client :: "nat \<Rightarrow> RequestClient \<Rightarrow> RequestClient res" where
  "stop_client sem_max s = release_permit sem_max (s\<lparr>poll_requests := False\<rparr>)"

section \<open>Steps of the worker\<close>

text \<open>How a remote call or a connection attempt ends; an exception that is not caught ends the process.\<close>

datatype outcome = Call_Ok | Call_Failed | Call_Throws

definition sendLogRequest :: "RmsRequest \<Rightarrow> bool res" where
  "sendLogRequest req =
     (if data_count (rq_header req) \<le> int (length (rq_items req)) then Inr False else Inl Out_Of_Bounds)"

definition sendHttpRequest :: "RmsRequest \<Rightarrow> bool res" where
  "sendHttpRequest req = Inr False"

text \<open>An exception of the call is caught and counts as a failure; one of a response handler is not.\<close>

definition sendTcpRequest :: "outcome \<Rightarrow> RmsRequest \<Rightarrow> bool res" where
  "sendTcpRequest out req = (case out of
     Call_Ok \<Rightarrow> Inr False | Call_Failed \<Rightarrow> Inr True | Call_Throws \<Rightarrow> Inl Thrift_Exception)"

definition send_front :: "outcome \<Rightarrow> queued_request \<Rightarrow> bool res" where
  "send_front out r = (case fst r of
     kHTTP \<Rightarrow> sendHttpRequest (snd r)
   | kTCP \<Rightarrow> sendTcpRequest out (snd r)
   | kLOG \<Rightarrow> sendLogRequest (snd r))"

text \<open>
  One attempt of the connection loop in \<open>handshakeTCP\<close> followed, when it succeeds, by the
  handshake: \<open>None\<close> is another attempt, \<open>Some failed\<close> the return.
\<close>

definition connect_attempt :: "outcome \<Rightarrow> RequestClient \<Rightarrow> bool option res" where
  "connect_attempt out s =
     (if \<not> poll_requests s then Inr (Some True)
      else (case out of
          Call_Ok \<Rightarrow> Inr (Some False) | Call_Failed \<Rightarrow> Inr None | Call_Throws \<Rightarrow> Inl Thrift_Exception))"

text \<open>The record of what was sent depends on the result of the call alone.\<close>

definition record_sent :: "bool \<Rightarrow> queued_request \<Rightarrow> RequestClient \<Rightarrow> RequestClient" where
  "record_sent failed r s = (if failed then s else s\<lparr>delivered := delivered s @ [r]\<rparr>)"

text \<open>After the call: the request is popped, or it stays and its permit is given back.\<close>

definition after_send :: "nat \<Rightarrow> bool \<Rightarrow> RequestClient \<Rightarrow> RequestClient res" where
  "after_send sem_max failed s =
     (if \<not> failed then (case pop_request s of
          None \<Rightarrow> Inl Out_Of_Bounds
        | Some (_, s') \<Rightarrow> Inr (s'\<lparr>pc := Loop_Head, mtx_locked := False\<rparr>))
      else rbind (release_permit sem_max s) (\<lambda>s'. Inr (s'\<lparr>pc := Reconnecting\<rparr>)))"

definition send_step :: "nat \<Rightarrow> outcome \<Rightarrow> RequestClient \<Rightarrow> RequestClient res" where
  "send_step sem_max out s = (case request_queue s of
     [] \<Rightarrow> Inl Out_Of_Bounds
   | r # _ \<Rightarrow> rbind (send_front out r) (\<lambda>failed. after_send sem_max failed (record_sent failed r s)))"

lemmas send_defs = send_step_def after_send_def record_sent_def pop_request_def

text \<open>
  \<open>pollRequests\<close>. The first loop \<open>while (handshakeTCP() && poll_requests_)\<close> ends when the
  handshake returns: it returns a failure only when the flag is down.
\<close>

definition worker_step :: "nat \<Rightarrow> outcome \<Rightarrow> RequestClient \<Rightarrow> RequestClient res" where
  "worker_step sem_max out s = (case pc s of
     Not_Started \<Rightarrow> Inr s
   | Starting \<Rightarrow> Inr (s\<lparr>poll_requests := True, pc := Connecting\<rparr>)
   | Connecting \<Rightarrow> rbind (connect_attempt out s) (\<lambda>r. case r of
       None \<Rightarrow> Inr s
     | Some failed \<Rightarrow> if failed \<and> poll_requests s then Inr s else Inr (s\<lparr>pc := Loop_Head\<rparr>))
   | Loop_Head \<Rightarrow> Inr (s\<lparr>pc := (if poll_requests s then Acquiring else Finished)\<rparr>)
   | Acquiring \<Rightarrow>
       (if request_counter s = 0 then Inr s
        else Inr (s\<lparr>request_counter := request_counter s - 1, pc := Acquired\<rparr>))
   | Acquired \<Rightarrow>
       (if \<not> poll_requests s then Inr (s\<lparr>pc := Finished\<rparr>)
        else Inr (s\<lparr>mtx_locked := True, pc := Sending\<rparr>))
   | Sending \<Rightarrow> send_step sem_max out s
   | Reconnecting \<Rightarrow> rbind (connect_attempt out s) (\<lambda>r. case r of
       None \<Rightarrow> Inr s
     | Some _ \<Rightarrow> Inr (s\<lparr>mtx_locked := False, pc := (if poll_requests s then Loop_Head else Finished)\<rparr>))
   | Finished \<Rightarrow> Inr s)"

section \<open>Interleavings\<close>

datatype client_event = Append queued_request | Release | Start | Stop | Worker outcome

definition client_exec :: "nat \<Rightarrow> client_event \<Rightarrow> RequestClient \<Rightarrow> RequestClient res" where
  "client_exec sem_max ev s = (case ev of
     Append r \<Rightarrow> Inr (send_append r s)
   | Release \<Rightarrow> send_release sem_max s
   | Start \<Rightarrow> start_client s
   | Stop \<Rightarrow> stop_client sem_max s
   | Worker out \<Rightarrow> worker_step sem_max out s)"

definition client_enabled :: "client_event \<Rightarrow> RequestClient \<Rightarrow> bool" where
  "client_enabled ev s = (case ev of
     Append r \<Rightarrow> \<not> mtx_locked s
   | Release \<Rightarrow> 0 < unreleased s
   | _ \<Rightarrow> True)"

text \<open>
  Runs of the client; \<open>allowed\<close> restricts the events further. A run ends at the first
  failure.
\<close>

inductive client_run ::
  "nat \<Rightarrow> (client_event \<Rightarrow> RequestClient \<Rightarrow> bool) \<Rightarrow> RequestClient \<Rightarrow> client_event list \<Rightarrow> RequestClient res \<Rightarrow> bool"
  for sem_max allowed s
where
  client_none: "client_run sem_max allowed s [] (Inr s)"
| client_more: "client_run sem_max allowed s evs (Inr s') \<Longrightarrow> client_enabled ev s' \<Longrightarrow> allowed ev s' \<Longrightarrow>
    client_run sem_max allowed s (evs @ [ev]) (client_exec sem_max ev s')"

text \<open>\<open>stop\<close> is only called once the worker has set its flag.\<close>

definition well_timed :: "client_event \<Rightarrow> RequestClient \<Rightarrow> bool" where
  "well_timed ev s \<longleftrightarrow> (ev = Stop \<longrightarrow> pc s \<noteq> Not_Started \<and> pc s \<noteq> Starting)"

fun appended :: "client_event list \<Rightarrow> queued_request list" where
  "appended [] = []"
| "appended (Append r # evs) = r # appended evs"
| "appended (ev # evs) = appended evs"

lemma appended_append [simp]: "appended (xs @ ys) = appended xs @ appended ys"
  by (induction xs rule: appended.induct) simp_all

section \<open>First in, first out\<close>

lemmas client_defs = client_exec_def send_append_def push_request_def send_release_def release_permit_def
  start_client_def stop_client_def worker_step_def connect_attempt_def send_defs

lemma rbind_Inl_iff: "rbind m f = Inl e \<longleftrightarrow> m = Inl e \<or> (\<exists>x. m = Inr x \<and> f x = Inl e)"
  by (cases m) simp_all

definition history_ok :: "client_event list \<Rightarrow> RequestClient \<Rightarrow> bool" where
  "history_ok evs s \<longleftrightarrow> submitted s = appended evs \<and> delivered s @ request_queue s = appended evs"

lemma history_send_step:
  "send_step sem_max out s = Inr s' \<Longrightarrow>
     submitted s' = submitted s \<and> delivered s' @ request_queue s' = delivered s @ request_queue s"
  by (auto simp: send_defs release_permit_def split: list.splits if_splits)

lemma history_worker:
  assumes "worker_step sem_max out s = Inr s'"
  shows "submitted s' = submitted s \<and> delivered s' @ request_queue s' = delivered s @ request_queue s"
proof (cases "pc s")
  case Sending
  with assms have "send_step sem_max out s = Inr s'" by (simp add: worker_step_def)
  then show ?thesis by (rule history_send_step)
next
  case Connecting
  with assms show ?thesis
    by (auto simp: worker_step_def connect_attempt_def split: if_splits outcome.splits)
next
  case Reconnecting
  with assms show ?thesis
    by (auto simp: worker_step_def connect_attempt_def split: if_splits outcome.splits)
qed (use assms in \<open>auto simp: worker_step_def split: if_splits\<close>)

lemma history_event:
  assumes "client_exec sem_max ev s = Inr s'"
  shows "submitted s' = submitted s @ appended [ev] \<and>
     delivered s' @ request_queue s' = (delivered s @ request_queue s) @ appended [ev]"
proof (cases ev)
  case (Worker out)
  with assms have "worker_step sem_max out s = Inr s'" by (simp add: client_exec_def)
  from history_worker [OF this] Worker show ?thesis by simp
qed (use assms in \<open>auto simp: client_exec_def send_append_def push_request_def send_release_def release_permit_def
      start_client_def stop_client_def split: if_splits\<close>)

lemma history_exec:
  "history_ok evs s \<Longrightarrow> client_exec sem_max ev s = Inr s' \<Longrightarrow> history_ok (evs @ [ev]) s'"
  using history_event [of sem_max ev s s'] unfolding history_ok_def appended_append by simp

lemma history_run:
  "client_run sem_max allowed new_request_client evs r \<Longrightarrow> r = Inr s \<Longrightarrow> history_ok evs s"
proof (induction arbitrary: s rule: client_run.induct)
  case client_none
  then show ?case by (auto simp: history_ok_def new_request_client_def)
next
  case (client_more evs s' ev)
  then show ?case using history_exec by blast
qed

lemma send_result:
  assumes "pc s = Sending" "worker_step sem_max out s = Inr s'" "send_front out (hd (request_queue s)) = Inr failed"
  shows "if failed then request_queue s' = request_queue s \<and> delivered s' = delivered s
    else request_queue s' = tl (request_queue s) \<and> delivered s' = delivered s @ [hd (request_queue s)]"
  using assms by (cases "request_queue s") (auto simp: worker_step_def send_defs release_permit_def split: if_splits)

text \<open>
  C11. Under every interleaving of producers, worker, start and stop, and whatever fails,
  the requests that were sent successfully followed by those still queued are exactly the
  requests that were submitted, in the order of submission: none is lost, duplicated or
  overtaken. A request whose sending fails stays at the front, with nothing counted as
  sent; one whose sending succeeds leaves the queue.
\<close>

theorem requests_fifo:
  assumes "client_run sem_max allowed new_request_client evs (Inr s)"
  shows "delivered s @ request_queue s = appended evs \<and>
    (\<forall>out failed s'. pc s = Sending \<and> worker_step sem_max out s = Inr s' \<and>
        send_front out (hd (request_queue s)) = Inr failed \<longrightarrow>
      (if failed then request_queue s' = request_queue s \<and> delivered s' = delivered s
       else request_queue s' = tl (request_queue s) \<and> delivered s' = delivered s @ [hd (request_queue s)]))"
proof (intro conjI allI impI)
  show "delivered s @ request_queue s = appended evs"
    using history_run [OF assms refl] unfolding history_ok_def by (rule conjunct2)
next
  fix out failed s'
  assume "pc s = Sending \<and> worker_step sem_max out s = Inr s' \<and> send_front out (hd (request_queue s)) = Inr failed"
  then show "if failed then request_queue s' = request_queue s \<and> delivered s' = delivered s
      else request_queue s' = tl (request_queue s) \<and> delivered s' = delivered s @ [hd (request_queue s)]"
    by (elim conjE) (rule send_result)
qed

definition sample_request :: "int \<Rightarrow> queued_request" where
  "sample_request n = (kTCP, \<lparr>rq_header = \<lparr>timestamp = n, data_count = 0\<rparr>, rq_items = []\<rparr>)"

text \<open>Running a list of events, for concrete traces.\<close>

fun run_events :: "nat \<Rightarrow> client_event list \<Rightarrow> RequestClient \<Rightarrow> RequestClient res" where
  "run_events sem_max [] s = Inr s"
| "run_events sem_max (ev # evs) s =
     (if client_enabled ev s then rbind (client_exec sem_max ev s) (run_events sem_max evs) else Inr s)"

fun all_enabled :: "nat \<Rightarrow> (client_event \<Rightarrow> RequestClient \<Rightarrow> bool) \<Rightarrow> client_event list \<Rightarrow> RequestClient \<Rightarrow> bool" where
  "all_enabled sem_max allowed [] s = True"
| "all_enabled sem_max allowed (ev # evs) s =
     (client_enabled ev s \<and> allowed ev s \<and> (case client_exec sem_max ev s of
        Inl e \<Rightarrow> evs = [] | Inr s' \<Rightarrow> all_enabled sem_max allowed evs s'))"

lemma run_events_run:
  "client_run sem_max allowed s0 pre (Inr s) \<Longrightarrow> all_enabled sem_max allowed evs s \<Longrightarrow>
     client_run sem_max allowed s0 (pre @ evs) (run_events sem_max evs s)"
proof (induction evs arbitrary: pre s)
  case (Cons ev evs)
  have one: "client_run sem_max allowed s0 (pre @ [ev]) (client_exec sem_max ev s)"
    using Cons.prems by (intro client_more) simp_all
  show ?case
  proof (cases "client_exec sem_max ev s")
    case (Inl e)
    with one Cons.prems(2) show ?thesis by simp
  next
    case (Inr s')
    with Cons.IH [of "pre @ [ev]" s'] one Cons.prems(2) show ?thesis by simp
  qed
qed simp

lemma run_trace:
  "all_enabled sem_max allowed evs new_request_client \<Longrightarrow>
     client_run sem_max allowed new_request_client evs (run_events sem_max evs new_request_client)"
  using run_events_run [OF client_none, of sem_max allowed evs new_request_client] by simp

definition retry_trace :: "client_event list" where
  "retry_trace = [Start, Append (sample_request 1), Release, Worker Call_Ok, Worker Call_Ok, Worker Call_Ok,
     Worker Call_Ok, Worker Call_Ok, Worker Call_Failed, Worker Call_Ok]"

theorem requests_fifo_witness:
  "\<exists>s s'. client_run 1 (\<lambda>_ _. True) new_request_client (butlast retry_trace @ [Worker Call_Ok]) (Inr s) \<and>
     delivered s @ request_queue s = [sample_request 1] \<and> request_queue s = [sample_request 1] \<and>
     client_run 1 (\<lambda>_ _. True) new_request_client (butlast (butlast retry_trace)) (Inr s') \<and>
     (\<forall>s''. worker_step 1 Call_Failed s' = Inr s'' \<longrightarrow> request_queue s'' = [sample_request 1] \<and> delivered s'' = [])"
proof -
  let ?t = "butlast retry_trace @ [Worker Call_Ok]" and ?u = "butlast (butlast retry_trace)"
  note eval = retry_trace_def client_defs client_enabled_def new_request_client_def send_front_def
    sendTcpRequest_def sample_request_def
  have run: "client_run 1 (\<lambda>_ _. True) new_request_client ?t (run_events 1 ?t new_request_client)"
    by (rule run_trace) (simp add: eval)
  have "\<exists>s. run_events 1 ?t new_request_client = Inr s \<and> request_queue s = [sample_request 1]" by (simp add: eval)
  with run obtain s where s: "client_run 1 (\<lambda>_ _. True) new_request_client ?t (Inr s)"
      "request_queue s = [sample_request 1]" by auto
  have run': "client_run 1 (\<lambda>_ _. True) new_request_client ?u (run_events 1 ?u new_request_client)"
    by (rule run_trace) (simp add: eval)
  have "\<exists>s. run_events 1 ?u new_request_client = Inr s \<and> pc s = Sending \<and> request_queue s = [sample_request 1] \<and>
      delivered s = [] \<and> send_front Call_Failed (sample_request 1) = Inr True"
    by (simp add: eval)
  with run' obtain s' where s': "client_run 1 (\<lambda>_ _. True) new_request_client ?u (Inr s')" "pc s' = Sending"
      "request_queue s' = [sample_request 1]" "delivered s' = []" "send_front Call_Failed (sample_request 1) = Inr True"
    by auto
  have "\<forall>s''. worker_step 1 Call_Failed s' = Inr s'' \<longrightarrow> request_queue s'' = [sample_request 1] \<and> delivered s'' = []"
    using requests_fifo [OF s'(1), THEN conjunct2, rule_format, of Call_Failed _ True] s'(2-5) by simp
  moreover have "delivered s @ request_queue s = [sample_request 1]"
    using requests_fifo [OF s(1), THEN conjunct1] by (simp add: retry_trace_def)
  ultimately show ?thesis using s s'(1) by blast
qed

section \<open>The semaphore\<close>

definition holds_permit :: "worker_pc \<Rightarrow> nat" where
  "holds_permit p = (case p of Acquired \<Rightarrow> 1 | Sending \<Rightarrow> 1 | _ \<Rightarrow> 0)"

lemma holds_permit_simps [simp]:
  "holds_permit Not_Started = 0" "holds_permit Starting = 0" "holds_permit Connecting = 0"
  "holds_permit Loop_Head = 0" "holds_permit Acquiring = 0" "holds_permit Acquired = 1"
  "holds_permit Sending = 1" "holds_permit Reconnecting = 0" "holds_permit Finished = 0"
  by (simp_all add: holds_permit_def)

text \<open>
  As long as \<open>stop\<close> was not called, every queued request has its permit: in the counter, in
  the hands of a producer, or in those of the worker.
\<close>

definition permits_ok :: "RequestClient \<Rightarrow> bool" where
  "permits_ok s \<longleftrightarrow>
     (poll_requests s \<or> pc s = Not_Started \<or> pc s = Starting \<longrightarrow>
        length (request_queue s) = request_counter s + unreleased s + holds_permit (pc s)) \<and>
     (pc s = Sending \<longrightarrow> request_queue s \<noteq> []) \<and> (mtx_locked s \<longleftrightarrow> pc s = Sending \<or> pc s = Reconnecting) \<and>
     (pc s = Not_Started \<or> pc s = Starting \<longrightarrow> \<not> poll_requests s)"

lemma permits_ok_new [simp]: "permits_ok new_request_client"
  by (simp add: permits_ok_def new_request_client_def)

lemma permits_send_step:
  assumes "permits_ok s" "pc s = Sending" "send_step sem_max out s = Inr s'"
  shows "permits_ok s'"
  using assms
  by (auto simp: permits_ok_def send_defs release_permit_def split: list.splits if_splits)

lemma permits_worker:
  assumes "permits_ok s" "worker_step sem_max out s = Inr s'"
  shows "permits_ok s'"
proof (cases "pc s")
  case Sending
  with assms permits_send_step show ?thesis by (simp add: worker_step_def)
next
  case Connecting
  with assms show ?thesis
    by (auto simp: worker_step_def connect_attempt_def permits_ok_def split: if_splits outcome.splits)
next
  case Reconnecting
  with assms show ?thesis
    by (auto simp: worker_step_def connect_attempt_def permits_ok_def split: if_splits outcome.splits)
qed (use assms in \<open>auto simp: worker_step_def permits_ok_def split: if_splits\<close>)

lemma permits_exec:
  assumes "permits_ok s" "client_enabled ev s" "well_timed ev s" "client_exec sem_max ev s = Inr s'"
  shows "permits_ok s'"
proof (cases ev)
  case (Worker out)
  with assms permits_worker show ?thesis by (simp add: client_exec_def)
next
  case (Append r)
  with assms show ?thesis
    by (auto simp: client_exec_def send_append_def push_request_def permits_ok_def client_enabled_def)
next
  case Release
  then have s': "s' = s\<lparr>unreleased := unreleased s - 1, request_counter := request_counter s + 1\<rparr>"
    using assms(4) by (simp add: client_exec_def send_release_def release_permit_def split: if_splits)
  have "request_counter s + 1 + (unreleased s - 1) = request_counter s + unreleased s"
    using Release assms(2) by (simp add: client_enabled_def)
  with assms(1) show ?thesis unfolding permits_ok_def s' by simp
next
  case Start
  with assms show ?thesis
    by (auto simp: client_exec_def start_client_def permits_ok_def split: if_splits)
next
  case Stop
  with assms show ?thesis
    by (auto simp: client_exec_def stop_client_def release_permit_def permits_ok_def well_timed_def split: if_splits)
qed

lemma permits_run:
  "client_run sem_max well_timed new_request_client evs r \<Longrightarrow> r = Inr s \<Longrightarrow> permits_ok s"
proof (induction arbitrary: s rule: client_run.induct)
  case (client_more evs s' ev)
  then show ?case using permits_exec by blast
qed auto

definition log_ok :: "queued_request \<Rightarrow> bool" where
  "log_ok r \<longleftrightarrow> (fst r = kLOG \<longrightarrow> data_count (rq_header (snd r)) \<le> int (length (rq_items (snd r))))"

lemma no_out_of_bounds:
  assumes "permits_ok s" "\<forall>r \<in> set (request_queue s). log_ok r"
  shows "client_exec sem_max ev s \<noteq> Inl Out_Of_Bounds"
proof (cases ev)
  case (Worker out)
  show ?thesis
  proof (cases "pc s = Sending")
    case True
    with assms obtain r rs where q: "request_queue s = r # rs" "log_ok r"
      by (cases "request_queue s") (auto simp: permits_ok_def)
    then have "send_front out r \<noteq> Inl Out_Of_Bounds"
      by (auto simp: send_front_def log_ok_def sendTcpRequest_def sendLogRequest_def sendHttpRequest_def
          split: RequestProtocol.splits outcome.splits)
    with Worker True q show ?thesis
      by (auto simp: client_exec_def worker_step_def send_defs release_permit_def
          rbind_Inl_iff split: if_splits)
  next
    case False
    with Worker show ?thesis
      by (cases "pc s") (auto simp: client_exec_def worker_step_def connect_attempt_def rbind_Inl_iff
          split: if_splits outcome.splits option.splits)
  qed
qed (auto simp: client_exec_def send_release_def release_permit_def start_client_def stop_client_def)

text \<open>
  C18. The front of the request queue is only read when there is one: in every run in which
  \<open>stop\<close> is not called before the worker has set its flag, and log requests announce no more
  items than they have, nothing is read out of bounds.
\<close>

theorem front_is_safe:
  assumes "client_run sem_max well_timed new_request_client evs r" "\<forall>q \<in> set (appended evs). log_ok q"
  shows "r \<noteq> Inl Out_Of_Bounds"
  using assms(1)
proof cases
  case (client_more evs' s ev)
  have "permits_ok s" by (rule permits_run [OF client_more(3) refl])
  moreover have "history_ok evs' s" by (rule history_run [OF client_more(3) refl])
  then have "set (request_queue s) \<subseteq> set (appended evs)"
    using client_more(1) unfolding history_ok_def by (metis appended_append le_sup_iff set_append sup_ge1 sup_ge2)
  ultimately show ?thesis
    unfolding client_more(2) using assms(2) by (intro no_out_of_bounds) blast+
qed simp

theorem front_is_safe_witness:
  "\<exists>r. client_run 1 well_timed new_request_client retry_trace r \<and> r \<noteq> Inl Out_Of_Bounds"
proof -
  have run: "client_run 1 well_timed new_request_client retry_trace (run_events 1 retry_trace new_request_client)"
    by (rule run_trace)
      (simp add: retry_trace_def client_defs client_enabled_def well_timed_def new_request_client_def send_front_def
        sendTcpRequest_def sample_request_def)
  from front_is_safe [OF run] run show ?thesis
    by (auto simp: retry_trace_def log_ok_def sample_request_def)
qed

section \<open>Capacity of the semaphore\<close>

fun stops :: "client_event list \<Rightarrow> nat" where
  "stops [] = 0"
| "stops (Stop # evs) = Suc (stops evs)"
| "stops (ev # evs) = stops evs"

lemma stops_append [simp]: "stops (xs @ ys) = stops xs + stops ys"
  by (induction xs rule: stops.induct) simp_all

text \<open>Every permit comes from a submitted request or from a stop.\<close>

definition permit_bound :: "client_event list \<Rightarrow> RequestClient \<Rightarrow> bool" where
  "permit_bound evs s \<longleftrightarrow>
     request_counter s + unreleased s + holds_permit (pc s) \<le> length (appended evs) + stops evs"

lemma bound_send_step:
  assumes "send_step sem_max out s = Inr s'" "pc s = Sending"
  shows "request_counter s' + unreleased s' + holds_permit (pc s') \<le>
    request_counter s + unreleased s + holds_permit (pc s)"
  using assms
  by (auto simp: send_defs release_permit_def split: list.splits if_splits)

lemma bound_worker:
  assumes "worker_step sem_max out s = Inr s'"
  shows "request_counter s' + unreleased s' + holds_permit (pc s') \<le>
    request_counter s + unreleased s + holds_permit (pc s)"
proof (cases "pc s")
  case Sending
  with assms have "send_step sem_max out s = Inr s'" by (simp add: worker_step_def)
  then show ?thesis using Sending by (rule bound_send_step)
next
  case Connecting
  with assms show ?thesis
    by (auto simp: worker_step_def connect_attempt_def split: if_splits outcome.splits)
next
  case Reconnecting
  with assms show ?thesis
    by (auto simp: worker_step_def connect_attempt_def split: if_splits outcome.splits)
qed (use assms in \<open>auto simp: worker_step_def split: if_splits\<close>)

lemma bound_event:
  assumes "client_exec sem_max ev s = Inr s'" "client_enabled ev s"
  shows "request_counter s' + unreleased s' + holds_permit (pc s') \<le>
    request_counter s + unreleased s + holds_permit (pc s) + length (appended [ev]) + stops [ev]"
proof (cases ev)
  case (Worker out)
  with assms have "worker_step sem_max out s = Inr s'" by (simp add: client_exec_def)
  from bound_worker [OF this] Worker show ?thesis by simp
next
  case Release
  then have "s' = s\<lparr>unreleased := unreleased s - 1, request_counter := request_counter s + 1\<rparr>" "0 < unreleased s"
    using assms by (simp_all add: client_exec_def send_release_def release_permit_def client_enabled_def split: if_splits)
  then show ?thesis by simp
qed (use assms in \<open>auto simp: client_exec_def send_append_def push_request_def release_permit_def
      start_client_def stop_client_def split: if_splits\<close>)

lemma bound_run:
  "client_run sem_max allowed new_request_client evs r \<Longrightarrow> r = Inr s \<Longrightarrow> permit_bound evs s"
proof (induction arbitrary: s rule: client_run.induct)
  case client_none
  then show ?case by (auto simp: permit_bound_def new_request_client_def)
next
  case (client_more evs s1 ev)
  have "permit_bound evs s1" by (rule client_more.IH) simp
  with bound_event [OF client_more.prems client_more.hyps(2)] show ?case
    unfolding permit_bound_def by simp
qed

lemma no_overflow:
  assumes "permit_bound evs s" "client_enabled ev s" "length (appended (evs @ [ev])) + stops (evs @ [ev]) \<le> sem_max"
  shows "client_exec sem_max ev s \<noteq> Inl Semaphore_Overflow"
proof (cases ev)
  case (Worker out)
  show ?thesis
  proof (cases "pc s = Sending")
    case True
    then have "request_counter s < sem_max" using assms Worker by (auto simp: permit_bound_def)
    moreover have "send_front out r \<noteq> Inl Semaphore_Overflow" for r
      by (auto simp: send_front_def sendTcpRequest_def sendLogRequest_def sendHttpRequest_def
          split: RequestProtocol.splits outcome.splits)
    ultimately show ?thesis using Worker True
      by (auto simp: client_exec_def worker_step_def send_defs release_permit_def
          rbind_Inl_iff split: list.splits if_splits)
  next
    case False
    with Worker show ?thesis
      by (cases "pc s") (auto simp: client_exec_def worker_step_def connect_attempt_def rbind_Inl_iff
          split: if_splits outcome.splits option.splits)
  qed
next
  case Release
  then have "request_counter s < sem_max" using assms by (auto simp: permit_bound_def client_enabled_def)
  with Release show ?thesis by (simp add: client_exec_def send_release_def release_permit_def)
next
  case Stop
  then have "request_counter s < sem_max" using assms by (auto simp: permit_bound_def)
  with Stop show ?thesis by (simp add: client_exec_def stop_client_def release_permit_def)
qed (auto simp: client_exec_def start_client_def)

text \<open>
  C26. The semaphore is never released above its maximum in a run whose submitted requests
  and stops are at most the maximum together. With the maximum that a binary semaphore
  guarantees, two requests submitted before the worker has taken the first permit, as the
  consumers do at start-up, already exceed it.
\<close>

theorem semaphore_capacity:
  assumes "client_run sem_max allowed new_request_client evs r" "length (appended evs) + stops evs \<le> sem_max"
  shows "r \<noteq> Inl Semaphore_Overflow \<and>
    client_run 1 (\<lambda>_ _. True) new_request_client [Append q1, Release, Append q2, Release] (Inl Semaphore_Overflow)"
proof
  show "r \<noteq> Inl Semaphore_Overflow"
    using assms(1)
  proof cases
    case (client_more evs' s ev)
    have "permit_bound evs' s" by (rule bound_run [OF client_more(3) refl])
    then show ?thesis
      unfolding client_more(2) using assms(2) client_more by (intro no_overflow) simp_all
  qed simp
  show "client_run 1 (\<lambda>_ _. True) new_request_client [Append q1, Release, Append q2, Release] (Inl Semaphore_Overflow)"
    using run_trace [of 1 "\<lambda>_ _. True" "[Append q1, Release, Append q2, Release]"]
    by (simp add: client_exec_def send_append_def push_request_def send_release_def release_permit_def
        client_enabled_def new_request_client_def)
qed

theorem semaphore_capacity_witness:
  "client_run 1 (\<lambda>_ _. True) new_request_client [] (Inr new_request_client) \<and>
   client_run 1 (\<lambda>_ _. True) new_request_client
     [Append (sample_request 1), Release, Append (sample_request 2), Release] (Inl Semaphore_Overflow)"
  using semaphore_capacity [OF client_none, of 1 "sample_request 1" "sample_request 2"]
  by (simp add: client_none)

section \<open>Stopping\<close>

text \<open>
  A stop that comes before the worker has set its flag is lost: the worker overwrites
  it, takes the permit that the stop released, and reads the front of an empty queue.
\<close>

theorem early_stop_lost:
  assumes "1 \<le> sem_max"
  shows "client_run sem_max (\<lambda>_ _. True) new_request_client
    [Start, Stop, Worker Call_Ok, Worker Call_Ok, Worker Call_Ok, Worker Call_Ok, Worker Call_Ok, Worker Call_Ok]
    (Inl Out_Of_Bounds)"
  using run_trace [of sem_max "\<lambda>_ _. True"
      "[Start, Stop, Worker Call_Ok, Worker Call_Ok, Worker Call_Ok, Worker Call_Ok, Worker Call_Ok, Worker Call_Ok]"] assms
  by (simp add: client_exec_def start_client_def stop_client_def release_permit_def worker_step_def connect_attempt_def
      send_step_def client_enabled_def new_request_client_def)

theorem early_stop_lost_witness:
  "client_run 1 (\<lambda>_ _. True) new_request_client
    [Start, Stop, Worker Call_Ok, Worker Call_Ok, Worker Call_Ok, Worker Call_Ok, Worker Call_Ok, Worker Call_Ok]
    (Inl Out_Of_Bounds)"
  by (rule early_stop_lost) simp

fun worker_run :: "nat \<Rightarrow> outcome list \<Rightarrow> RequestClient \<Rightarrow> RequestClient res" where
  "worker_run sem_max [] s = Inr s"
| "worker_run sem_max (out # outs) s = rbind (worker_step sem_max out s) (worker_run sem_max outs)"

lemma worker_run_finished [simp]: "pc s = Finished \<Longrightarrow> worker_run sem_max outs s = Inr s"
  by (induction outs) (simp_all add: worker_step_def)

lemma send_front_result: "log_ok r \<Longrightarrow> out \<noteq> Call_Throws \<Longrightarrow> \<exists>failed. send_front out r = Inr failed"
  by (cases out; cases "fst r") (auto simp: send_front_def sendTcpRequest_def sendLogRequest_def sendHttpRequest_def log_ok_def)

lemma stopped_sending:
  assumes "pc s = Sending" "\<not> poll_requests s" "request_queue s = r # rs" "request_counter s \<le> sem_max"
    "send_front a r = Inr failed" "b \<noteq> Call_Throws" "c \<noteq> Call_Throws"
  shows "if failed \<and> request_counter s = sem_max then worker_run sem_max [a, b, c] s = Inl Semaphore_Overflow
    else \<exists>s2. worker_run sem_max [a, b, c] s = Inr s2 \<and> pc s2 = Finished"
  using assms by (cases failed) (auto simp: worker_step_def send_defs release_permit_def connect_attempt_def)

lemma stopped_elsewhere:
  assumes "pc s \<noteq> Sending" "pc s \<noteq> Not_Started" "pc s \<noteq> Starting" "\<not> poll_requests s" "0 < request_counter s"
  shows "\<exists>s2. worker_run sem_max [a, b, c] s = Inr s2 \<and> pc s2 = Finished"
  using assms by (cases "pc s") (auto simp: worker_step_def connect_attempt_def)

text \<open>
  C28. What a stop does once the worker has set its flag, from any state that the invariant
  allows and for every maximum of the semaphore, also the 1 that a \<open>binary_semaphore\<close> has
  at least. The stop releases one permit, which is undefined when the semaphore is full
  already. After it, three steps of the worker without an uncaught exception end it,
  wherever it was: in a handshake, waiting for a request, or sending one. The only
  exception is a request whose sending fails when the stop has filled the semaphore: the
  worker gives back its permit too, above the maximum.
\<close>

theorem stop_ends_worker:
  assumes "permits_ok s" "pc s \<noteq> Not_Started" "pc s \<noteq> Starting" "\<forall>r \<in> set (request_queue s). log_ok r"
    and "a \<noteq> Call_Throws" "b \<noteq> Call_Throws" "c \<noteq> Call_Throws"
  shows "case stop_client sem_max s of
      Inl e \<Rightarrow> e = Semaphore_Overflow \<and> sem_max \<le> request_counter s
    | Inr s1 \<Rightarrow>
       (if pc s = Sending \<and> request_counter s1 = sem_max \<and> send_front a (hd (request_queue s)) = Inr True
        then worker_run sem_max [a, b, c] s1 = Inl Semaphore_Overflow
        else \<exists>s2. worker_run sem_max [a, b, c] s1 = Inr s2 \<and> pc s2 = Finished)"
proof (cases "request_counter s < sem_max")
  case False
  then show ?thesis by (simp add: stop_client_def release_permit_def)
next
  case True
  let ?s1 = "s\<lparr>poll_requests := False, request_counter := request_counter s + 1\<rparr>"
  have stop: "stop_client sem_max s = Inr ?s1" using True by (simp add: stop_client_def release_permit_def)
  show ?thesis
  proof (cases "pc s = Sending")
    case False
    with stopped_elsewhere [of ?s1 sem_max a b c] assms(2,3) stop show ?thesis by simp
  next
    case Sending: True
    with assms(1,4) obtain r rs where q: "request_queue s = r # rs" "log_ok r"
      by (cases "request_queue s") (auto simp: permits_ok_def)
    from send_front_result [OF q(2) assms(5)] obtain f where f: "send_front a r = Inr f" ..
    from stopped_sending [of ?s1 r rs sem_max a f b c] Sending True q f stop assms(6,7) show ?thesis
      by (cases f) auto
  qed
qed

definition sending_client :: RequestClient where
  "sending_client = new_request_client\<lparr>pc := Sending, poll_requests := True, mtx_locked := True,
     request_queue := [sample_request 1], submitted := [sample_request 1]\<rparr>"

theorem stop_ends_worker_witness:
  "\<exists>s1. stop_client 1 sending_client = Inr s1 \<and>
     (\<exists>s2. worker_run 1 [Call_Ok, Call_Ok, Call_Ok] s1 = Inr s2 \<and> pc s2 = Finished) \<and>
     worker_run 1 [Call_Failed, Call_Ok, Call_Ok] s1 = Inl Semaphore_Overflow"
proof -
  let ?s1 = "sending_client\<lparr>poll_requests := False, request_counter := 1\<rparr>"
  have ok: "permits_ok sending_client" "pc sending_client \<noteq> Not_Started" "pc sending_client \<noteq> Starting"
      "\<forall>r \<in> set (request_queue sending_client). log_ok r"
    by (simp_all add: permits_ok_def sending_client_def new_request_client_def log_ok_def sample_request_def)
  have stop: "stop_client 1 sending_client = Inr ?s1"
    by (simp add: stop_client_def release_permit_def sending_client_def new_request_client_def)
  have first: "send_front Call_Ok (sample_request 1) = Inr False" "send_front Call_Failed (sample_request 1) = Inr True"
    by (simp_all add: send_front_def sendTcpRequest_def sample_request_def)
  have s: "pc sending_client = Sending" "hd (request_queue sending_client) = sample_request 1"
    by (simp_all add: sending_client_def)
  have "\<exists>s2. worker_run 1 [Call_Ok, Call_Ok, Call_Ok] ?s1 = Inr s2 \<and> pc s2 = Finished"
    using stop_ends_worker [OF ok, of Call_Ok Call_Ok Call_Ok 1] unfolding stop by (simp add: s first)
  moreover have "worker_run 1 [Call_Failed, Call_Ok, Call_Ok] ?s1 = Inl Semaphore_Overflow"
    using stop_ends_worker [OF ok, of Call_Failed Call_Ok Call_Ok 1] unfolding stop by (simp add: s first)
  ultimately show ?thesis using stop by blast
qed

section \<open>Shutdown during an outage\<close>

text \<open>
  \<open>RmsReporterClient::stop\<close> joins the consumers before it stops the request client, so
  \<open>stop\<close> waits until a consumer that is in \<open>sendRequest\<close> has appended its request: until the
  number of submitted requests has passed the \<open>n\<close> of the moment. During an outage no
  connection attempt succeeds.
\<close>

definition outage_shutdown :: "nat \<Rightarrow> client_event \<Rightarrow> RequestClient \<Rightarrow> bool" where
  "outage_shutdown n ev s \<longleftrightarrow> (ev = Stop \<longrightarrow> n < length (submitted s)) \<and> (\<forall>out. ev = Worker out \<longrightarrow> out = Call_Failed)"

definition stuck_reconnecting :: "RequestClient \<Rightarrow> bool" where
  "stuck_reconnecting s \<longleftrightarrow> pc s = Reconnecting \<and> poll_requests s \<and> mtx_locked s"

lemma stuck_event:
  assumes "stuck_reconnecting s" "length (submitted s) = n" "client_enabled ev s" "outage_shutdown n ev s"
  shows "appended [ev] = [] \<and> stops [ev] = 0 \<and> (case client_exec sem_max ev s of
      Inl e \<Rightarrow> e = Semaphore_Overflow
    | Inr s' \<Rightarrow> stuck_reconnecting s' \<and> length (submitted s') = n \<and> request_queue s' = request_queue s)"
  using assms
  by (cases ev) (auto simp: stuck_reconnecting_def client_enabled_def outage_shutdown_def client_exec_def
      send_release_def release_permit_def start_client_def worker_step_def connect_attempt_def)

lemma stuck_run:
  assumes "client_run sem_max (outage_shutdown n) s evs r" "stuck_reconnecting s" "length (submitted s) = n"
  shows "appended evs = [] \<and> stops evs = 0 \<and> (case r of
      Inl e \<Rightarrow> e = Semaphore_Overflow
    | Inr s' \<Rightarrow> stuck_reconnecting s' \<and> length (submitted s') = n \<and> request_queue s' = request_queue s)"
  using assms
proof (induction rule: client_run.induct)
  case (client_more evs s' ev)
  then have "stuck_reconnecting s'" "length (submitted s') = n" "request_queue s' = request_queue s"
    "appended evs = []" "stops evs = 0" by simp_all
  with stuck_event [OF this(1,2) client_more.hyps(2,3), of sem_max] show ?case
    by (cases "client_exec sem_max ev s'") simp_all
qed simp

text \<open>
  The mutex is held while the worker reconnects: as long as the server stays away, no
  interleaving lets a producer append a request, and since the consumers are joined before
  the client is stopped, none lets \<open>stop\<close> be called; the queue stays what it was and the
  process does not end.
\<close>

theorem outage_blocks_shutdown:
  assumes "client_run sem_max (outage_shutdown (length (submitted s))) s evs r" "stuck_reconnecting s"
  shows "appended evs = [] \<and> stops evs = 0 \<and> (case r of
      Inl e \<Rightarrow> e = Semaphore_Overflow
    | Inr s' \<Rightarrow> stuck_reconnecting s' \<and> request_queue s' = request_queue s)"
  using stuck_run [OF assms refl] by (auto split: sum.splits)

theorem outage_blocks_shutdown_witness:
  "\<exists>s. client_run 1 (\<lambda>_ _. True) new_request_client (butlast retry_trace) (Inr s) \<and>
     request_queue s = [sample_request 1] \<and>
     client_run 1 (outage_shutdown 1) s [Worker Call_Failed] (Inr s) \<and> stuck_reconnecting s"
proof -
  have run: "client_run 1 (\<lambda>_ _. True) new_request_client (butlast retry_trace)
      (run_events 1 (butlast retry_trace) new_request_client)"
    by (rule run_trace)
      (simp add: retry_trace_def client_defs client_enabled_def new_request_client_def send_front_def
        sendTcpRequest_def sample_request_def)
  moreover have "\<exists>s. run_events 1 (butlast retry_trace) new_request_client = Inr s \<and> stuck_reconnecting s \<and>
      length (submitted s) = 1 \<and> request_queue s = [sample_request 1]"
    by (simp add: retry_trace_def client_defs client_enabled_def new_request_client_def send_front_def
        sendTcpRequest_def sample_request_def stuck_reconnecting_def)
  ultimately obtain s where s: "client_run 1 (\<lambda>_ _. True) new_request_client (butlast retry_trace) (Inr s)"
    "stuck_reconnecting s" "length (submitted s) = 1" "request_queue s = [sample_request 1]" by auto
  have "client_run 1 (outage_shutdown 1) s ([] @ [Worker Call_Failed]) (client_exec 1 (Worker Call_Failed) s)"
    by (intro client_more client_none) (simp_all add: client_enabled_def outage_shutdown_def)
  moreover have "client_exec 1 (Worker Call_Failed) s = Inr s"
    using s(2) by (simp add: stuck_reconnecting_def client_exec_def worker_step_def connect_attempt_def)
  ultimately have one: "client_run 1 (outage_shutdown 1) s [Worker Call_Failed] (Inr s)" by simp
  from outage_blocks_shutdown [of 1 s "[Worker Call_Failed]" "Inr s"] one s show ?thesis by auto
qed

end
