(* ===== verification/Rms_Reporter_Client.thy ===== *)
theory Rms_Reporter_Client
  imports Rms_Request_Client
begin

text \<open>
  The rest of the reporter's core: the handshake of \<open>request_client.cpp\<close> with the
  configuration it reads and writes, what the reporter does with the responses of the
  server, \<open>RmsReporterClient\<close> with its executors (\<open>rms_reporter_client.cpp\<close>), the result an
  executor sends (\<open>executor.cpp\<close>), the loop of \<open>CommandExecutor\<close> that collects output
  (\<open>command_executor.cpp\<close>), and the requests of the consumers.
\<close>

section \<open>The handshake\<close>

text \<open>
  The remote call, with the system information of the machine, is the parameter \<open>rpc\<close>;
  \<open>up\<close> says whether the flag was still up when the connection loop ended.
\<close>

definition handshakeTCP ::
  "((string \<rightharpoonup> string) \<Rightarrow> string list) \<Rightarrow> (int \<Rightarrow> 'w \<Rightarrow> int res \<times> 'w) \<Rightarrow> bool \<Rightarrow>
     RmsConfig \<Rightarrow> file_system \<Rightarrow> 'w \<Rightarrow> int res \<times> RmsConfig \<times> file_system \<times> 'w"
where
  "handshakeTCP order rpc up cfg fs w =
     (let (port, cfg1) = RmsConfig_find RMS_REPORTER_CONFIG_SERVER_PORT cfg
      in if port = [] then (Inl (Exit 1), cfg1, fs, w)
         else
           (let (IP, cfg2) = RmsConfig_find RMS_REPORTER_CONFIG_SERVER_IP cfg1
            in if IP = [] then (Inl (Exit 1), cfg2, fs, w)
               else (case stol port of
                   Inl e \<Rightarrow> (Inl e, cfg2, fs, w)
                 | Inr _ \<Rightarrow>
                     if \<not> up then (Inr (- 1), cfg2, fs, w)
                     else
                       (let (text, cfg3) = RmsConfig_find RMS_REPORTER_CONFIG_COMPUTER_ID cfg2
                        in case stol text of
                             Inl e \<Rightarrow> (Inl e, cfg3, fs, w)
                           | Inr computer_id \<Rightarrow>
                               (case rpc computer_id w of
                                  (Inl e, w1) \<Rightarrow> (Inl e, cfg3, fs, w1)
                                | (Inr new_id, w1) \<Rightarrow>
                                    if computer_id \<noteq> new_id then
                                      (let cfg4 = RmsConfig_replace RMS_REPORTER_CONFIG_COMPUTER_ID (to_string new_id) cfg3
                                       in (Inr 0, cfg4, RmsConfig_save order cfg4 fs, w1))
                                    else (Inr 0, cfg3, fs, w1))))))"

section \<open>Responses\<close>

text \<open>
  What \<open>handleResponseData\<close> sets off; the case of a script falls through to the message
  about types that are not implemented.
\<close>

datatype job =
    Send_System_Info
  | Run_Command Command
  | Run_Script Script
  | Unimplemented RmsResponseTypes

definition handleResponseData :: "RmsResponseData \<Rightarrow> job list" where
  "handleResponseData res_data = (case rs_data_type res_data of
     kSendSystemInfo \<Rightarrow> [Send_System_Info]
   | kRunCommand \<Rightarrow> [Run_Command (rsv_command (rs_data res_data))]
   | kRunScript \<Rightarrow> [Run_Script (rsv_script (rs_data res_data)), Unimplemented kRunScript])"

definition response_jobs :: "RmsResponse \<Rightarrow> job list" where
  "response_jobs res = concat (map handleResponseData (rs_items res))"

section \<open>Executors\<close>

record CommandExecutor =
  ex_id :: int
  return_value :: ExecutorReturnType
  return_code :: int
  ex_command :: string
  ex_shell :: string

definition new_executor :: "int \<Rightarrow> string \<Rightarrow> string \<Rightarrow> CommandExecutor" where
  "new_executor i cmd shell =
     \<lparr>ex_id = to_i32 i, return_value = kUnknownReturn, return_code = 0, ex_command = cmd, ex_shell = shell\<rparr>"

text \<open>The executors by id, and those whose thread was started.\<close>

record RmsReporterClient =
  executors :: "64 word \<rightharpoonup> CommandExecutor"
  launched :: "CommandExecutor list"

definition new_reporter_client :: RmsReporterClient where
  "new_reporter_client = \<lparr>executors = Map.empty, launched = []\<rparr>"

text \<open>
  \<open>executors_.emplace(id, std::make_unique<CommandExecutor>(...))\<close>: the executor is built, and
  so its thread started, even when the key is taken. Then it is destroyed again at
  once, and its destructor waits for its thread; it is the second result.
\<close>

definition emplace_executor ::
  "64 word \<Rightarrow> CommandExecutor \<Rightarrow> RmsReporterClient \<Rightarrow> RmsReporterClient \<times> CommandExecutor option"
where
  "emplace_executor k e rc =
     (let rc1 = rc\<lparr>launched := launched rc @ [e]\<rparr>
      in if executors rc k = None then (rc1\<lparr>executors := (executors rc)(k \<mapsto> e)\<rparr>, None) else (rc1, Some e))"

definition run_command ::
  "Command \<Rightarrow> RmsConfig \<Rightarrow> RmsReporterClient \<Rightarrow> RmsConfig \<times> RmsReporterClient \<times> CommandExecutor option"
where
  "run_command cmd cfg rc =
     (let (found, cfg1) = RmsConfig_find RMS_REPORTER_CONFIG_EXECUTOR_SHELL cfg;
          shell = (if found = [] then ''bash'' else found)
      in (cfg1, emplace_executor (word_of_int (cmd_id cmd)) (new_executor (cmd_id cmd) (cmd_command cmd) shell) rc))"

definition removeExecutor :: "int \<Rightarrow> RmsReporterClient \<Rightarrow> RmsReporterClient" where
  "removeExecutor i rc = rc\<lparr>executors := (executors rc)(word_of_int i := None)\<rparr>"

text \<open>\<open>notifyEnd\<close>: the header keeps its default values.\<close>

definition executor_result :: "int \<Rightarrow> CommandExecutor \<Rightarrow> ExecutorResult" where
  "executor_result now e =
     \<lparr>er_id = ex_id e, er_return_type = return_value e, er_code = return_code e, er_time_finished = now\<rparr>"

definition notifyEnd :: "int \<Rightarrow> CommandExecutor \<Rightarrow> queued_request" where
  "notifyEnd now e =
     (kTCP,
      \<lparr>rq_header = \<lparr>timestamp = 0, data_count = 0\<rparr>,
       rq_items = [\<lparr>rq_data_type = kExecutorResult,
                    rq_data = default_request_values\<lparr>rqv_executor_result := executor_result now e\<rparr>\<rparr>]\<rparr>)"

section \<open>Collecting the output of a command\<close>

text \<open>
  What one call of \<open>poll\<close> reports: its result, the flags of the three descriptors, and the
  bytes that reading the two pipes yields (\<open>None\<close> is an error). \<open>out_closed\<close> is any of
  \<open>POLLRDHUP\<close>, \<open>POLLERR\<close> and \<open>POLLHUP\<close>.
\<close>

record poll_event =
  poll_ret :: int
  out_in :: bool
  out_closed :: bool
  err_in :: bool
  signal_in :: bool
  out_read :: "string option"
  err_read :: "string option"
  poll_time :: int

text \<open>
  The buffer is a local array without initial value: only a prefix of it is known. Making
  a string of it reads up to the first null byte, which has to be in that prefix.
\<close>

definition buffer_string :: "string \<Rightarrow> string res" where
  "buffer_string buf = (if CHR 0x00 \<in> set buf then Inr (takeWhile (\<lambda>c. c \<noteq> CHR 0x00) buf) else Inl Indeterminate_Value)"

definition overwrite :: "string \<Rightarrow> string \<Rightarrow> string" where
  "overwrite data buf = data @ drop (length data) buf"

datatype loop_result = Go_On | Leave

definition report_data :: "int \<Rightarrow> int \<Rightarrow> string \<Rightarrow> string \<Rightarrow> ExecutorData" where
  "report_data i now out err = \<lparr>ed_id = i, ed_stdout = out, ed_stderr = err, ed_ts = now\<rparr>"

text \<open>
  One round of the loop: what it sends, and whether the loop ends. The variable \<open>ret\<close> keeps
  the result of \<open>poll\<close> or of reading the output: the test after reading the error pipe looks
  at that and not at the result of its own call.
\<close>

definition executor_round :: "int \<Rightarrow> poll_event \<Rightarrow> (ExecutorData list \<times> loop_result) res" where
  "executor_round i ev =
     (if poll_ret ev = - 1 \<or> poll_ret ev = 0 then Inr ([], Go_On)
      else if out_in ev \<and> out_read ev = None then Inr ([], Leave)
      else
        (let buf1 = (if out_in ev then the (out_read ev) else []);
             ret = (if out_in ev then int (length buf1) else poll_ret ev);
             buf2 = (case err_read ev of None \<Rightarrow> buf1 | Some d \<Rightarrow> overwrite d buf1);
             last = (if out_closed ev \<or> signal_in ev then Leave else Go_On)
         in rbind (if out_in ev then buffer_string buf1 else Inr []) (\<lambda>out.
            if err_in ev \<and> ret < 0 then Inr ([], Leave)
            else rbind (if err_in ev then buffer_string buf2 else Inr []) (\<lambda>err.
              Inr (if out_in ev \<or> err_in ev then [report_data i (poll_time ev) out err] else [], last)))))"

text \<open>The loop over the answers of \<open>poll\<close>; the flag says whether it ended.\<close>

fun executor_loop :: "int \<Rightarrow> poll_event list \<Rightarrow> (ExecutorData list \<times> bool) res" where
  "executor_loop i [] = Inr ([], False)"
| "executor_loop i (ev # evs) =
     rbind (executor_round i ev) (\<lambda>(ds, r). case r of
       Leave \<Rightarrow> Inr (ds, True)
     | Go_On \<Rightarrow> rbind (executor_loop i evs) (\<lambda>(ds', fin). Inr (ds @ ds', fin)))"

section \<open>Consumers\<close>

text \<open>The time between two requests; a missing or malformed option throws.\<close>

definition consumer_timeout :: "string \<Rightarrow> RmsConfig \<Rightarrow> int res \<times> RmsConfig" where
  "consumer_timeout key cfg =
     (let (text, cfg1) = RmsConfig_find key cfg in (rbind (stol text) (\<lambda>n. Inr (to_i32 n)), cfg1))"

definition consumer_request :: "int \<Rightarrow> RmsRequestData \<Rightarrow> queued_request" where
  "consumer_request now d = (kTCP, \<lparr>rq_header = \<lparr>timestamp = now, data_count = 1\<rparr>, rq_items = [d]\<rparr>)"

definition cpu_data :: "CpuUsageData \<Rightarrow> RmsRequestData" where
  "cpu_data d = \<lparr>rq_data_type = kCpuUsage, rq_data = default_request_values\<lparr>rqv_cpu_usage_data := d\<rparr>\<rparr>"

definition ram_data :: "RamData \<Rightarrow> RmsRequestData" where
  "ram_data d = \<lparr>rq_data_type = kRamUsage, rq_data = default_request_values\<lparr>rqv_ram_data := d\<rparr>\<rparr>"

definition ping_data :: RmsRequestData where
  "ping_data = \<lparr>rq_data_type = kPing, rq_data = default_request_values\<lparr>rqv_long := 0\<rparr>\<rparr>"

definition cpu_consume :: "CpuUsageData \<Rightarrow> int \<Rightarrow> queued_request" where
  "cpu_consume usage now = consumer_request now (cpu_data usage)"

definition ram_consume :: "RamData \<Rightarrow> int \<Rightarrow> queued_request" where
  "ram_consume usage now = consumer_request now (ram_data usage)"

definition ping_consume :: "int \<Rightarrow> queued_request" where
  "ping_consume now = consumer_request now ping_data"

section \<open>The identity of a computer\<close>

lemma find_present: "config_path cfg \<noteq> [] \<Longrightarrow> config cfg k = Some v \<Longrightarrow> RmsConfig_find k cfg = (v, cfg)"
  by (simp add: RmsConfig_find_def)

text \<open>A configuration from which the reporter can connect.\<close>

definition connectable :: "RmsConfig \<Rightarrow> bool" where
  "connectable cfg \<longleftrightarrow> config_path cfg \<noteq> [] \<and>
     (\<exists>p n ip. config cfg RMS_REPORTER_CONFIG_SERVER_PORT = Some p \<and> p \<noteq> [] \<and> stol p = Inr n \<and>
        config cfg RMS_REPORTER_CONFIG_SERVER_IP = Some ip \<and> ip \<noteq> [])"

lemma handshakeTCP_connected:
  assumes "connectable cfg" "config cfg RMS_REPORTER_CONFIG_COMPUTER_ID = Some t"
  shows "handshakeTCP order rpc True cfg fs w = (case stol t of
      Inl e \<Rightarrow> (Inl e, cfg, fs, w)
    | Inr i \<Rightarrow> (case rpc i w of
        (Inl e, w1) \<Rightarrow> (Inl e, cfg, fs, w1)
      | (Inr n, w1) \<Rightarrow>
          if i \<noteq> n then
            (let cfg1 = RmsConfig_replace RMS_REPORTER_CONFIG_COMPUTER_ID (to_string n) cfg
             in (Inr 0, cfg1, RmsConfig_save order cfg1 fs, w1))
          else (Inr 0, cfg, fs, w1)))"
  using assms unfolding connectable_def handshakeTCP_def by (elim conjE exE) (simp add: find_present Let_def)

lemma computer_id_key [simp]:
  "RMS_REPORTER_CONFIG_COMPUTER_ID \<noteq> RMS_REPORTER_CONFIG_SERVER_PORT"
  "RMS_REPORTER_CONFIG_COMPUTER_ID \<noteq> RMS_REPORTER_CONFIG_SERVER_IP"
  "RMS_REPORTER_CONFIG_SERVER_PORT \<noteq> RMS_REPORTER_CONFIG_COMPUTER_ID"
  "RMS_REPORTER_CONFIG_SERVER_IP \<noteq> RMS_REPORTER_CONFIG_COMPUTER_ID"
  "is_word RMS_REPORTER_CONFIG_COMPUTER_ID" "RMS_REPORTER_CONFIG_COMPUTER_ID \<noteq> []"
  by (simp_all add: config_keys is_word_def is_space_def)

lemma to_string_is_word: "is_word (to_string n)"
  using to_string_no_space by (auto simp: is_word_def)

definition with_id :: "int \<Rightarrow> RmsConfig \<Rightarrow> RmsConfig" where
  "with_id n cfg = cfg\<lparr>config := (config cfg)(RMS_REPORTER_CONFIG_COMPUTER_ID \<mapsto> to_string n)\<rparr>"

lemma with_id_facts:
  assumes "connectable cfg" "config_ok (config cfg)"
  shows "connectable (with_id n cfg)" "config_ok (config (with_id n cfg))"
    "config (with_id n cfg) RMS_REPORTER_CONFIG_COMPUTER_ID = Some (to_string n)"
    "config_path (with_id n cfg) = config_path cfg"
  using assms to_string_is_word
  by (auto simp: connectable_def with_id_def config_ok_def entry_ok_def)

text \<open>
  The identity of a computer survives restarts: after a handshake in which the server
  answered with the id \<open>n\<close>, the configuration file, written in whatever order of the map,
  loads to a configuration with which the next handshake sends exactly \<open>n\<close>, and if the
  server confirms it nothing is written any more.
\<close>

theorem handshake_persists_id:
  assumes "connectable cfg" "config_ok (config cfg)" "in_i64 i" "in_i64 n" "i \<noteq> n"
    and "config cfg RMS_REPORTER_CONFIG_COMPUTER_ID = Some (to_string i)" "rpc i w = (Inr n, w1)"
    and "writable fs (config_path cfg)"
    and "set (order (config (with_id n cfg))) = dom (config (with_id n cfg))"
  shows "\<exists>cfg' fs'. handshakeTCP order rpc True cfg fs w = (Inr 0, cfg', fs', w1) \<and>
    RmsConfig_load (config_path cfg) initial_config fs' = (Inr (), cfg') \<and>
    (\<forall>rpc2 w2 w3. rpc2 n w2 = (Inr n, w3) \<longrightarrow> handshakeTCP order rpc2 True cfg' fs' w2 = (Inr 0, cfg', fs', w3))"
proof -
  let ?c = "with_id n cfg" and ?f = "RmsConfig_save order (with_id n cfg) fs"
  note facts = with_id_facts [OF assms(1,2), of n]
  have "RmsConfig_replace RMS_REPORTER_CONFIG_COMPUTER_ID (to_string n) cfg = ?c"
    using assms(1) by (simp add: RmsConfig_replace_def with_id_def connectable_def)
  then have "handshakeTCP order rpc True cfg fs w = (Inr 0, ?c, ?f, w1)"
    using handshakeTCP_connected [OF assms(1,6), of order rpc fs w] assms(3,5,7) by (simp add: Let_def)
  moreover have "RmsConfig_load (config_path cfg) initial_config ?f = (Inr (), ?c)"
    using facts assms(8,9) by (intro saved_config_loads) simp_all
  moreover have "handshakeTCP order rpc2 True ?c ?f w2 = (Inr 0, ?c, ?f, w3)" if "rpc2 n w2 = (Inr n, w3)" for rpc2 w2 w3
    using handshakeTCP_connected [OF facts(1,3), of order rpc2 ?f w2] that assms(4) by simp
  ultimately show ?thesis by blast
qed

definition sample_reporter_config :: RmsConfig where
  "sample_reporter_config = \<lparr>config = [''computer_id'' \<mapsto> to_string (- 1), ''server_ip'' \<mapsto> ''h'', ''server_port'' \<mapsto> to_string 80],
     config_path = ''rms.cfg''\<rparr>"

lemma sample_reporter_config_ok:
  "connectable sample_reporter_config" "config_ok (config sample_reporter_config)"
  using to_string_is_word
  by (auto simp: sample_reporter_config_def connectable_def config_keys config_ok_def entry_ok_def is_word_def
      is_space_def in_i64_def split: if_splits)

lemma sample_reporter_config_facts:
  "config sample_reporter_config RMS_REPORTER_CONFIG_COMPUTER_ID = Some (to_string (- 1))"
  "config_path sample_reporter_config = ''rms.cfg''"
  "set [''computer_id'', ''server_port'', ''server_ip''] = dom (config (with_id n sample_reporter_config))"
  by (auto simp: sample_reporter_config_def with_id_def config_keys)

theorem handshake_persists_id_witness:
  "\<exists>cfg' fs'. handshakeTCP (\<lambda>_. [''computer_id'', ''server_port'', ''server_ip'']) (\<lambda>i (w::nat). (Inr 7, w)) True
      sample_reporter_config sample_fs 0 = (Inr 0, cfg', fs', 0) \<and>
    RmsConfig_load ''rms.cfg'' initial_config fs' = (Inr (), cfg')"
proof -
  have w: "writable sample_fs (config_path sample_reporter_config)"
    by (simp add: sample_fs_def sample_reporter_config_facts)
  show ?thesis
    using handshake_persists_id [OF sample_reporter_config_ok, of "- 1" 7 "\<lambda>i w. (Inr 7, w)" "0::nat" 0 sample_fs
        "\<lambda>_. [''computer_id'', ''server_port'', ''server_ip'']"]
      w sample_reporter_config_facts by (auto simp: in_i64_def)
qed

text \<open>
  Without a \<open>computer_id\<close> in the configuration the handshake does not ask the server for
  a new id: the conversion of the empty text throws, before any call is made.
\<close>

theorem handshake_needs_id:
  assumes "connectable cfg" "config cfg RMS_REPORTER_CONFIG_COMPUTER_ID = None"
  shows "\<exists>cfg'. handshakeTCP order rpc True cfg fs w = (Inl Invalid_Argument, cfg', fs, w)"
proof -
  have "RmsConfig_find RMS_REPORTER_CONFIG_COMPUTER_ID cfg =
      ([], cfg\<lparr>config := (config cfg)(RMS_REPORTER_CONFIG_COMPUTER_ID \<mapsto> [])\<rparr>)"
    using assms by (simp add: connectable_def RmsConfig_find_def)
  with assms(1) show ?thesis
    unfolding connectable_def handshakeTCP_def by (elim conjE exE) (simp add: find_present Let_def)
qed

theorem handshake_needs_id_witness:
  "\<exists>cfg'. handshakeTCP (\<lambda>_. []) (\<lambda>i (w::nat). (Inr 7, w)) True
     (sample_reporter_config\<lparr>config := [''server_ip'' \<mapsto> ''h'', ''server_port'' \<mapsto> to_string 80]\<rparr>) sample_fs 0 =
   (Inl Invalid_Argument, cfg', sample_fs, 0)"
  by (rule handshake_needs_id) (auto simp: connectable_def sample_reporter_config_def config_keys in_i64_def)

section \<open>Output of a command\<close>

definition chunk :: "bool \<Rightarrow> string \<Rightarrow> poll_event" where
  "chunk terminated d =
     \<lparr>poll_ret = 1, out_in = True, out_closed = False, err_in = False, signal_in = False,
      out_read = Some (d @ (if terminated then [CHR 0x00] else [])), err_read = None, poll_time = 0\<rparr>"

definition closing :: poll_event where
  "closing = \<lparr>poll_ret = 1, out_in = False, out_closed = True, err_in = False, signal_in = False,
     out_read = None, err_read = None, poll_time = 0\<rparr>"

lemma buffer_string_terminated [simp]:
  "CHR 0x00 \<notin> set d \<Longrightarrow> buffer_string (d @ CHR 0x00 # r) = Inr d"
  by (induction d) (auto simp: buffer_string_def)

text \<open>
  The output of a command that a command writes with a null byte after each piece is
  sent piece by piece in order, and the loop ends when the pipe is closed. Output without
  a null byte, which is what programs write, is turned into a string by reading past the
  bytes that were received, into memory that was never initialised.
\<close>

theorem executor_output:
  assumes "\<forall>d \<in> set ds. CHR 0x00 \<notin> set d"
  shows "executor_loop i (map (chunk True) ds @ [closing]) = Inr (map (\<lambda>d. report_data i 0 d []) ds, True) \<and>
    (ds \<noteq> [] \<longrightarrow> executor_loop i (map (chunk False) ds @ evs) = Inl Indeterminate_Value)"
proof
  show "executor_loop i (map (chunk True) ds @ [closing]) = Inr (map (\<lambda>d. report_data i 0 d []) ds, True)"
    using assms
    by (induction ds) (simp_all add: executor_round_def chunk_def closing_def overwrite_def)
  show "ds \<noteq> [] \<longrightarrow> executor_loop i (map (chunk False) ds @ evs) = Inl Indeterminate_Value"
    using assms by (cases ds) (auto simp: executor_round_def chunk_def buffer_string_def)
qed

theorem executor_output_witness:
  "executor_loop 4 [chunk True ''ok'', closing] = Inr ([report_data 4 0 ''ok'' []], True) \<and>
   executor_loop 4 [chunk False ''ok''] = Inl Indeterminate_Value"
  using executor_output [of "[''ok'']" 4 "[]"] by simp

section \<open>Commands of the server\<close>

text \<open>
  A command whose id is not in use is run with the configured shell, or with \<open>bash\<close> when
  none is configured, and registered under its id; one whose id is in use is started
  too, but not registered. The result that an executor sends at its end is for its id and
  always says: unknown result, code 0.
\<close>

theorem run_command_outcome:
  assumes "config_path cfg \<noteq> []" "run_command cmd cfg rc = (cfg', rc', rejected)" "in_i32 (cmd_id cmd)"
  shows "\<exists>e. launched rc' = launched rc @ [e] \<and> ex_id e = cmd_id cmd \<and> ex_command e = cmd_command cmd \<and>
    ex_shell e = (case config cfg RMS_REPORTER_CONFIG_EXECUTOR_SHELL of
        None \<Rightarrow> ''bash'' | Some s \<Rightarrow> if s = [] then ''bash'' else s) \<and>
    executors rc' = (if executors rc (word_of_int (cmd_id cmd)) = None
      then (executors rc)(word_of_int (cmd_id cmd) \<mapsto> e) else executors rc) \<and>
    rejected = (if executors rc (word_of_int (cmd_id cmd)) = None then None else Some e) \<and>
    (\<forall>now. executor_result now e =
      \<lparr>er_id = cmd_id cmd, er_return_type = kUnknownReturn, er_code = 0, er_time_finished = now\<rparr>)"
proof -
  obtain found cfg1 where f: "RmsConfig_find RMS_REPORTER_CONFIG_EXECUTOR_SHELL cfg = (found, cfg1)" by fastforce
  have "(if found = [] then ''bash'' else found) = (case config cfg RMS_REPORTER_CONFIG_EXECUTOR_SHELL of
        None \<Rightarrow> ''bash'' | Some s \<Rightarrow> if s = [] then ''bash'' else s)"
    using f assms(1) by (auto simp: RmsConfig_find_def split: option.splits)
  with f assms(2,3) show ?thesis
    by (auto simp: run_command_def emplace_executor_def Let_def new_executor_def executor_result_def split: if_splits)
qed

theorem run_command_outcome_witness:
  "\<exists>e. launched (fst (snd (run_command \<lparr>cmd_command = ''ls'', cmd_id = 9\<rparr> sample_reporter_config new_reporter_client))) = [e] \<and>
     ex_shell e = ''bash'' \<and> ex_id e = 9"
proof -
  have p: "config_path sample_reporter_config \<noteq> []" "config sample_reporter_config RMS_REPORTER_CONFIG_EXECUTOR_SHELL = None"
    by (simp_all add: sample_reporter_config_def config_keys)
  obtain cfg' rc' rej where r:
    "run_command \<lparr>cmd_command = ''ls'', cmd_id = 9\<rparr> sample_reporter_config new_reporter_client = (cfg', rc', rej)"
    by (metis prod.exhaust)
  from run_command_outcome [OF p(1) r] p(2) r show ?thesis
    by (auto simp: in_i32_def new_reporter_client_def)
qed

end
