(* ===== verification/Proc_Reporters.thy ===== *)
theory Proc_Reporters
  imports Rms_Thrift Cpp_Text
begin

text \<open>
  The reporters that read the \<open>/proc\<close> file system: \<open>RamReporter\<close>
  (\<open>reporter/linux/src/reporter/ram_reporter.cpp\<close>) and \<open>CpuReporter\<close> (\<open>cpu_reporter.cpp\<close>).
  A file is its text, \<open>None\<close> when it cannot be opened. The variables that \<open>fscanf\<close> writes
  keep their value when a conversion fails, and have none at the start. Values of
  type \<open>float\<close> are modelled without rounding.
\<close>

section \<open>Reading numbers\<close>

text \<open>A number that does not fit the variable of a \<open>%ld\<close> is undefined behaviour.\<close>

definition store_long :: "int \<Rightarrow> int res" where
  "store_long n = (if in_i64 n then Inr n else Inl Bad_Conversion)"

text \<open>\<open>fscanf\<close> with one \<open>%ld\<close> into the variable \<open>d\<close>.\<close>

definition scan_long :: "directive list \<Rightarrow> int option \<Rightarrow> string \<Rightarrow> (int option \<times> string) res" where
  "scan_long ds d s = (case scanf ds s of
     (SInt n # _, r, _) \<Rightarrow> rbind (store_long n) (\<lambda>m. Inr (Some m, r))
   | (_, r, _) \<Rightarrow> Inr (d, r))"

definition known :: "'a option \<Rightarrow> 'a res" where
  "known d = (case d of None \<Rightarrow> Inl Indeterminate_Value | Some n \<Rightarrow> Inr n)"

lemma known_Some [simp]: "known (Some n) = Inr n"
  by (simp add: known_def)

text \<open>
  \<open>while ((char)fgetc(fp) != '\n');\<close> At the end of the file \<open>fgetc\<close> returns \<open>EOF\<close> for ever,
  which is not a newline.
\<close>

partial_function (option) skip_line :: "string \<Rightarrow> string option" where
  "skip_line s = (case s of
     [] \<Rightarrow> skip_line []
   | c # cs \<Rightarrow> if c = newline then Some cs else skip_line cs)"

fun skip_lines :: "nat \<Rightarrow> string \<Rightarrow> string option" where
  "skip_lines 0 s = Some s"
| "skip_lines (Suc n) s = Option.bind (skip_line s) (skip_lines n)"

lemma skip_line_returns:
  assumes "skip_line s = Some r"
  shows "newline \<in> set s \<and> r = tl (dropWhile (\<lambda>c. c \<noteq> newline) s)"
proof (rule skip_line.raw_induct [OF _ assms])
  fix f s r
  assume "\<And>s r. f s = Some r \<Longrightarrow> newline \<in> set s \<and> r = tl (dropWhile (\<lambda>c. c \<noteq> newline) s)"
    "(case s of [] \<Rightarrow> f [] | c # cs \<Rightarrow> if c = newline then Some cs else f cs) = Some r"
  then show "newline \<in> set s \<and> r = tl (dropWhile (\<lambda>c. c \<noteq> newline) s)"
    by (cases s) (fastforce split: if_splits)+
qed

lemma skip_line_Nil [simp]: "skip_line [] = None"
  using skip_line_returns [of "[]"] by (cases "skip_line []") auto

lemma skip_line_Cons [simp]: "skip_line (c # cs) = (if c = newline then Some cs else skip_line cs)"
  by (subst skip_line.simps) simp

lemma skip_line_append [simp]: "newline \<notin> set l \<Longrightarrow> skip_line (l @ newline # r) = Some r"
  by (induction l) auto

lemma skip_line_none: "newline \<notin> set s \<Longrightarrow> skip_line s = None"
  by (induction s) auto

definition unlines :: "string list \<Rightarrow> string" where
  "unlines ls = concat (map (\<lambda>l. l @ [newline]) ls)"

lemma unlines_simps [simp]: "unlines [] = []" "unlines (l # ls) = l @ newline # unlines ls"
  by (simp_all add: unlines_def)

lemma skip_lines_unlines: "\<forall>l \<in> set ls. newline \<notin> set l \<Longrightarrow> skip_lines (length ls) (unlines ls @ r) = Some r"
  by (induction ls) auto

lemma skip_lines_none:
  "\<forall>l \<in> set ls. newline \<notin> set l \<Longrightarrow> newline \<notin> set r \<Longrightarrow> length ls < n \<Longrightarrow> skip_lines n (unlines ls @ r) = None"
proof (induction ls arbitrary: n)
  case Nil
  then show ?case by (cases n) (simp_all add: skip_line_none)
next
  case (Cons l ls)
  then show ?case by (cases n) auto
qed

section \<open>RamReporter\<close>

definition kb_line :: "string \<Rightarrow> directive \<Rightarrow> directive list" where
  "kb_line name field = lits name @ [Blank, field, Blank] @ lits ''kB'' @ [Blank]"

definition ram_head :: "string \<Rightarrow> ((int \<times> int) \<times> int option \<times> string) res" where
  "ram_head s =
     rbind (scan_long (kb_line ''MemTotal:'' Int_Field) None s) (\<lambda>(d1, s1).
     rbind (known d1) (\<lambda>main.
     let s2 = fst (snd (scanf (kb_line ''MemFree:'' Skip_Int) s1))
     in rbind (scan_long (kb_line ''MemAvailable:'' Int_Field) d1 s2) (\<lambda>(d2, s3).
        rbind (known d2) (\<lambda>free. Inr ((main, free), d2, s3)))))"

definition ram_tail :: "int \<Rightarrow> int \<Rightarrow> int option \<Rightarrow> string \<Rightarrow> RamData res" where
  "ram_tail main free d s =
     rbind (scan_long (kb_line ''SwapTotal:'' Int_Field) d s) (\<lambda>(d1, s1).
     rbind (known d1) (\<lambda>swap.
     rbind (scan_long (kb_line ''SwapFree:'' Int_Field) d1 s1) (\<lambda>(d2, s2).
     rbind (known d2) (\<lambda>unused.
       Inr \<lparr>main_total = main, main_free = free, swap_total = swap, swap_free = unused\<rparr>))))"

definition ram_report :: "string option \<Rightarrow> RamData res option" where
  "ram_report file = (case file of
     None \<Rightarrow> Some (Inr \<lparr>main_total = 0, main_free = 0, swap_total = 0, swap_free = 0\<rparr>)
   | Some s \<Rightarrow> (case ram_head s of
       Inl e \<Rightarrow> Some (Inl e)
     | Inr ((main, free), d, s1) \<Rightarrow> Option.bind (skip_lines 11 s1) (\<lambda>s2. Some (ram_tail main free d s2))))"

section \<open>The shape of /proc/meminfo\<close>

definition meminfo_line :: "string \<Rightarrow> string \<Rightarrow> int \<Rightarrow> string" where
  "meminfo_line name pad n = name @ pad @ to_string n @ '' kB'' @ [newline]"

definition blanks :: "string \<Rightarrow> bool" where
  "blanks s \<longleftrightarrow> (\<forall>c \<in> set s. is_space c)"

definition starts_word :: "string \<Rightarrow> bool" where
  "starts_word s \<longleftrightarrow> (case s of [] \<Rightarrow> True | c # _ \<Rightarrow> \<not> is_space c)"

lemma starts_word_simps [simp]: "starts_word []" "starts_word (c # s) \<longleftrightarrow> \<not> is_space c"
  by (simp_all add: starts_word_def)

lemma skip_ws_blanks [simp]: "blanks b \<Longrightarrow> skip_ws (b @ s) = skip_ws s"
  by (induction b) (auto simp: blanks_def)

lemma skip_ws_starts_word [simp]: "starts_word s \<Longrightarrow> skip_ws s = s"
  by (cases s) (auto simp: skip_ws_def)

lemma space_facts [simp]: "is_space newline" "is_space CHR '' ''" "\<not> is_digit CHR '' ''" "\<not> is_digit newline"
  "\<not> is_space CHR ''k''" "\<not> is_space CHR ''M''" "\<not> is_space CHR ''S''" "\<not> is_space CHR ''c''"
  by (simp_all add: is_space_def newline_def is_digit_def digit_val_def)

lemma scanf_kb_line:
  assumes "blanks pad" "starts_word r"
  shows "scanf (kb_line name Int_Field) (meminfo_line name pad n @ r) = ([SInt n], r, Scan_Done)"
    and "scanf (kb_line name Skip_Int) (meminfo_line name pad n @ r) = ([], r, Scan_Done)"
  using assms by (simp_all add: kb_line_def meminfo_line_def cons_value_def int_field_to_string)

lemma scan_long_kb_line [simp]:
  "blanks pad \<Longrightarrow> starts_word r \<Longrightarrow> in_i64 n \<Longrightarrow>
     scan_long (kb_line name Int_Field) d (meminfo_line name pad n @ r) = Inr (Some n, r)"
  by (simp add: scan_long_def scanf_kb_line store_long_def)

text \<open>The text up to the available memory, and the swap.\<close>

definition meminfo_head :: "string \<Rightarrow> int \<Rightarrow> int \<Rightarrow> int \<Rightarrow> string" where
  "meminfo_head pad main unused free =
     meminfo_line ''MemTotal:'' pad main @ meminfo_line ''MemFree:'' pad unused @ meminfo_line ''MemAvailable:'' pad free"

definition meminfo_swap :: "string \<Rightarrow> int \<Rightarrow> int \<Rightarrow> string" where
  "meminfo_swap pad swap unused = meminfo_line ''SwapTotal:'' pad swap @ meminfo_line ''SwapFree:'' pad unused"

lemma meminfo_line_starts: "meminfo_line (c # name) pad n = c # name @ pad @ to_string n @ '' kB'' @ [newline]"
  by (simp add: meminfo_line_def)

lemma ram_head_meminfo:
  assumes "blanks pad" "in_i64 main" "in_i64 free" "starts_word r"
  shows "ram_head (meminfo_head pad main unused free @ r) = Inr ((main, free), Some free, r)"
proof -
  have s: "starts_word (meminfo_line ''MemFree:'' pad unused @ t)" "starts_word (meminfo_line ''MemAvailable:'' pad free @ t)" for t
    by (simp_all add: meminfo_line_starts)
  show ?thesis
    using assms s by (simp add: ram_head_def meminfo_head_def scanf_kb_line)
qed

lemma ram_tail_meminfo:
  assumes "blanks pad" "in_i64 swap" "in_i64 unused" "starts_word r"
  shows "ram_tail main free d (meminfo_swap pad swap unused @ r) =
    Inr \<lparr>main_total = main, main_free = free, swap_total = swap, swap_free = unused\<rparr>"
proof -
  have "starts_word (meminfo_line ''SwapFree:'' pad unused @ t)" for t by (simp add: meminfo_line_starts)
  with assms show ?thesis by (simp add: ram_tail_def meminfo_swap_def)
qed

text \<open>
  From a \<open>/proc/meminfo\<close> with the three memory lines, eleven lines of any content and
  the two swap lines, the memory report holds exactly the total, available, swap and
  free swap numbers, whatever their padding. With fewer than eleven lines left the
  reporter never returns.
\<close>

theorem ram_report_reads:
  assumes "blanks pad" "in_i64 main" "in_i64 free" "in_i64 swap" "in_i64 unused"
    and "\<forall>l \<in> set ls. newline \<notin> set l" "starts_word (unlines ls @ t)"
  shows "(length ls = 11 \<and> t = meminfo_swap pad swap unused @ r \<and> starts_word r \<longrightarrow>
      ram_report (Some (meminfo_head pad main n free @ unlines ls @ t)) =
        Some (Inr \<lparr>main_total = main, main_free = free, swap_total = swap, swap_free = unused\<rparr>)) \<and>
    (length ls < 11 \<and> newline \<notin> set t \<longrightarrow>
      ram_report (Some (meminfo_head pad main n free @ unlines ls @ t)) = None)"
  using assms skip_lines_unlines [OF assms(6), of t] skip_lines_none [OF assms(6), of t 11]
  by (auto simp: ram_report_def ram_head_meminfo ram_tail_meminfo)

theorem ram_report_reads_witness:
  "ram_report (Some (meminfo_head '' '' 16 9 12 @ unlines (replicate 11 ''Buffers: 1 kB'') @ meminfo_swap '' '' 4 3)) =
     Some (Inr \<lparr>main_total = 16, main_free = 12, swap_total = 4, swap_free = 3\<rparr>) \<and>
   ram_report (Some (meminfo_head '' '' 16 9 12 @ unlines [''Buffers: 1 kB''])) = None"
proof -
  have l: "\<forall>l \<in> set (replicate n ''Buffers: 1 kB''). newline \<notin> set l" for n
    by (simp add: newline_def)
  have w: "starts_word (unlines (replicate (Suc n) ''Buffers: 1 kB'') @ t)" for n t
    by (simp add: is_space_def)
  have b: "blanks '' ''" by (simp add: blanks_def)
  have a: "ram_report (Some (meminfo_head '' '' 16 9 12 @ unlines (replicate 11 ''Buffers: 1 kB'') @
      meminfo_swap '' '' 4 3 @ [])) =
     Some (Inr \<lparr>main_total = 16, main_free = 12, swap_total = 4, swap_free = 3\<rparr>)"
    using ram_report_reads [OF b _ _ _ _ l [of 11], where main = 16 and free = 12 and swap = 4 and unused = 3 and
        t = "meminfo_swap '' '' 4 3" and r = "[]" and n = 9] w [of 10] by (simp add: in_i64_def)
  have "ram_report (Some (meminfo_head '' '' 16 9 12 @ unlines [''Buffers: 1 kB''] @ [])) = None"
    using ram_report_reads [OF b _ _ _ _ l [of 1], where main = 16 and free = 12 and swap = 4 and unused = 3 and
        t = "[]" and n = 9] w [of 0 "[]"] by (simp add: in_i64_def newline_def)
  with a show ?thesis by simp
qed

section \<open>CpuReporter\<close>

text \<open>
  The seven counters \<open>user\<close>, \<open>nice\<close>, \<open>system\<close>, \<open>idle\<close>, \<open>iowait\<close>, \<open>irq\<close> and \<open>softirq\<close> are
  variables of the whole function: a line that does not match leaves them as they were.
\<close>

definition counter_fields :: "directive list" where
  "counter_fields = concat (replicate 7 [Blank, Int_Field]) @ concat (replicate 3 [Blank, Skip_Int]) @ [Blank]"

definition total_format :: "directive list" where
  "total_format = lits ''cpu'' @ counter_fields"

definition core_format :: "directive list" where
  "core_format = lits ''cpu'' @ [Skip_Int] @ counter_fields"

fun store_values :: "scan_value list \<Rightarrow> int option list res" where
  "store_values [] = Inr []"
| "store_values (SInt n # vs) = rbind (store_long n) (\<lambda>m. rbind (store_values vs) (\<lambda>ms. Inr (Some m # ms)))"
| "store_values (SWord _ # vs) = Inr []"

definition scan_counters :: "directive list \<Rightarrow> int option list \<Rightarrow> string \<Rightarrow> (int option list \<times> string) res" where
  "scan_counters ds vars s = (case scanf ds s of
     (vs, r, _) \<Rightarrow> rbind (store_values vs) (\<lambda>ms. Inr (ms @ drop (length ms) vars, r)))"

fun add_up :: "int \<Rightarrow> int option list \<Rightarrow> int res" where
  "add_up acc [] = Inr acc"
| "add_up acc (v # vs) =
     rbind (known v) (\<lambda>n. if in_i64 (acc + n) then add_up (acc + n) vs else Inl Signed_Overflow)"

definition counts :: "int option list \<Rightarrow> (int \<times> int) res" where
  "counts vars = rbind (add_up 0 vars) (\<lambda>all. rbind (add_up 0 (take 3 vars)) (\<lambda>busy. Inr (all, busy)))"

fun scan_cores :: "nat \<Rightarrow> int option list \<Rightarrow> string \<Rightarrow> ((int \<times> int) list \<times> int option list) res" where
  "scan_cores 0 vars s = Inr ([], vars)"
| "scan_cores (Suc n) vars s =
     rbind (scan_counters core_format vars s) (\<lambda>(vars1, r).
     rbind (counts vars1) (\<lambda>c. rbind (scan_cores n vars1 r) (\<lambda>(cs, vars2). Inr (c # cs, vars2))))"

text \<open>One pass over \<open>/proc/stat\<close>: total and used of the machine and of each core.\<close>

definition scan_stat :: "nat \<Rightarrow> int option list \<Rightarrow> string option \<Rightarrow> ((int \<times> int) list \<times> int option list) res" where
  "scan_stat n vars file = (case file of
     None \<Rightarrow> Inl Null_Deref
   | Some s \<Rightarrow>
       rbind (scan_counters total_format vars s) (\<lambda>(vars1, r).
       rbind (counts vars1) (\<lambda>c. rbind (scan_cores n vars1 r) (\<lambda>(cs, vars2). Inr (c # cs, vars2)))))"

definition usage_percent :: "int \<times> int \<Rightarrow> int \<times> int \<Rightarrow> dbl res" where
  "usage_percent base now =
     rbind (sub_i64 (snd now) (snd base)) (\<lambda>used. rbind (sub_i64 (fst now) (fst base)) (\<lambda>all.
       Inr (dbl_div (Num (100 * real_of_int used)) (Num (real_of_int all)))))"

fun usage_percents :: "(int \<times> int) list \<Rightarrow> (int \<times> int) list \<Rightarrow> dbl list res" where
  "usage_percents (b # bs) (c # cs) = rbind (usage_percent b c) (\<lambda>u. rbind (usage_percents bs cs) (\<lambda>us. Inr (u # us)))"
| "usage_percents _ _ = Inr []"

definition to_i8 :: "int \<Rightarrow> int" where
  "to_i8 x = sint (word_of_int x :: 8 word)"

definition cpu_report :: "nat \<Rightarrow> string option \<Rightarrow> string option \<Rightarrow> CpuUsageData res" where
  "cpu_report n before after =
     rbind (scan_stat n (replicate 7 None) before) (\<lambda>(base, vars).
     rbind (scan_stat n vars after) (\<lambda>(now, _).
     rbind (usage_percents base now) (\<lambda>us. Inr \<lparr>core_count = to_i8 (int n), cpu_usage = us\<rparr>)))"

section \<open>The shape of /proc/stat\<close>

definition counter_text :: "int list \<Rightarrow> string" where
  "counter_text vs = concat (map (\<lambda>v. CHR '' '' # to_string v) vs)"

definition stat_line :: "string \<Rightarrow> int list \<Rightarrow> string" where
  "stat_line label vs = label @ counter_text vs @ [newline]"

fun core_lines :: "int \<Rightarrow> int list list \<Rightarrow> string" where
  "core_lines i [] = []"
| "core_lines i (vs # vss) = stat_line (''cpu'' @ to_string i) vs @ core_lines (i + 1) vss"

definition stat_text :: "int list \<Rightarrow> int list list \<Rightarrow> string \<Rightarrow> string" where
  "stat_text vs vss r = stat_line ''cpu '' vs @ core_lines 0 vss @ r"

text \<open>A line has ten counters, the last three of which are skipped.\<close>

definition row_ok :: "int list \<Rightarrow> bool" where
  "row_ok vs \<longleftrightarrow> length vs = 10 \<and> (\<forall>v \<in> set vs. 0 \<le> v) \<and> sum_list (take 7 vs) < 2 ^ 63"

definition row_counts :: "int list \<Rightarrow> int \<times> int" where
  "row_counts vs = (sum_list (take 7 vs), sum_list (take 3 vs))"

definition no_core_line :: "string \<Rightarrow> bool" where
  "no_core_line r \<longleftrightarrow> (case r of [] \<Rightarrow> True | c # _ \<Rightarrow> c \<noteq> CHR ''c'' \<and> \<not> is_space c)"

lemma stops_digits_counter_text [simp]: "stops_digits (counter_text vs @ newline # r)"
  by (cases vs) (simp_all add: counter_text_def)

lemma counter_text_Cons: "counter_text (v # vs) = CHR '' '' # to_string v @ counter_text vs"
  by (simp add: counter_text_def)

lemma counter_text_Nil [simp]: "counter_text [] = []"
  by (simp add: counter_text_def)

lemma scanf_blank_int:
  "scanf (Blank # Int_Field # ds) (counter_text (v # vs) @ newline # r) =
     cons_value (SInt v) (scanf ds (counter_text vs @ newline # r))"
  by (simp add: counter_text_Cons int_field_to_string)

lemma scanf_blank_skip:
  "scanf (Blank # Skip_Int # ds) (counter_text (v # vs) @ newline # r) = scanf ds (counter_text vs @ newline # r)"
  by (simp add: counter_text_Cons int_field_to_string)

lemma ten_elements:
  assumes "length vs = 10"
  obtains a b c d e f g h i j where "vs = [a, b, c, d, e, f, g, h, i, j]"
proof -
  have "\<exists>a b c d e f g h i j. vs = [a, b, c, d, e, f, g, h, i, j]"
    using assms by (simp add: numeral_eq_Suc length_Suc_conv) blast
  with that show thesis by blast
qed

lemma scanf_counter_fields:
  assumes "length vs = 10" "starts_word r"
  shows "scanf counter_fields (counter_text vs @ newline # r) = (map SInt (take 7 vs), r, Scan_Done)"
proof -
  obtain a b c d e f g h i j where vs: "vs = [a, b, c, d, e, f, g, h, i, j]" using assms(1) by (rule ten_elements)
  have fields: "counter_fields = [Blank, Int_Field, Blank, Int_Field, Blank, Int_Field, Blank, Int_Field, Blank, Int_Field,
      Blank, Int_Field, Blank, Int_Field, Blank, Skip_Int, Blank, Skip_Int, Blank, Skip_Int, Blank]"
    by (simp add: counter_fields_def numeral_eq_Suc)
  show ?thesis
    unfolding vs fields scanf_blank_int scanf_blank_skip by (simp add: cons_value_def assms(2))
qed

lemma store_values_counters:
  "\<forall>v \<in> set vs. in_i64 v \<Longrightarrow> store_values (map SInt vs) = Inr (map Some vs)"
  by (induction vs) (simp_all add: store_long_def)

lemma in_i64_of_nonneg: "0 \<le> x \<Longrightarrow> x < 2 ^ 63 \<Longrightarrow> in_i64 x"
  by (simp add: in_i64_def)

lemma add_up_sum:
  "0 \<le> acc \<Longrightarrow> \<forall>v \<in> set vs. 0 \<le> v \<Longrightarrow> acc + sum_list vs < 2 ^ 63 \<Longrightarrow> add_up acc (map Some vs) = Inr (acc + sum_list vs)"
proof (induction vs arbitrary: acc)
  case (Cons v vs)
  have "0 \<le> sum_list vs" using Cons.prems(2) by (intro sum_list_nonneg) simp
  with Cons.prems have "in_i64 (acc + v)" by (intro in_i64_of_nonneg) simp_all
  with Cons show ?case by (simp add: add.assoc)
qed simp

lemma row_prefix:
  assumes "row_ok vs"
  shows "\<forall>v \<in> set (take 7 vs). 0 \<le> v \<and> in_i64 v" "sum_list (take 3 vs) \<le> sum_list (take 7 vs)"
    "0 \<le> sum_list (take 3 vs)" "sum_list (take 7 vs) < 2 ^ 63"
proof -
  have nn: "\<forall>v \<in> set vs. 0 \<le> v" using assms by (simp add: row_ok_def)
  have pos: "0 \<le> sum_list (take k (drop m vs))" for k m
    using nn by (intro sum_list_nonneg) (auto dest!: in_set_takeD in_set_dropD)
  have "take 7 vs = take 3 vs @ take 4 (drop 3 vs)"
    using take_add [of 3 4 vs] by simp
  then show "sum_list (take 3 vs) \<le> sum_list (take 7 vs)" using pos [of 4 3] by simp
  show "0 \<le> sum_list (take 3 vs)" using pos [of 3 0] by simp
  show lt: "sum_list (take 7 vs) < 2 ^ 63" using assms by (simp add: row_ok_def)
  show "\<forall>v \<in> set (take 7 vs). 0 \<le> v \<and> in_i64 v"
  proof
    fix v assume v: "v \<in> set (take 7 vs)"
    then have "0 \<le> v" using nn by (auto dest: in_set_takeD)
    moreover have "v \<le> sum_list (take 7 vs)"
      using v nn by (intro member_le_sum_list) (auto dest: in_set_takeD)
    ultimately show "0 \<le> v \<and> in_i64 v" using lt by (auto intro: in_i64_of_nonneg)
  qed
qed

lemma counts_row:
  assumes "row_ok vs"
  shows "counts (map Some (take 7 vs)) = Inr (row_counts vs)"
proof -
  have "\<forall>v \<in> set (take 7 vs). 0 \<le> v" "\<forall>v \<in> set (take 3 vs). 0 \<le> v"
    using assms by (auto simp: row_ok_def dest: in_set_takeD)
  then have "add_up 0 (map Some (take 7 vs)) = Inr (sum_list (take 7 vs))"
      "add_up 0 (map Some (take 3 vs)) = Inr (sum_list (take 3 vs))"
    using row_prefix [OF assms] by (simp_all add: add_up_sum)
  then show ?thesis by (simp add: counts_def row_counts_def take_map)
qed

lemma scan_row:
  assumes "row_ok vs" "length vars = 7" "starts_word r"
  shows "scan_counters total_format vars (stat_line ''cpu '' vs @ r) = Inr (map Some (take 7 vs), r)"
    and "scan_counters core_format vars (stat_line (''cpu'' @ to_string i) vs @ r) = Inr (map Some (take 7 vs), r)"
proof -
  have len: "length vs = 10" using assms(1) by (simp add: row_ok_def)
  have vals: "store_values (map SInt (take 7 vs)) = Inr (map Some (take 7 vs))"
    using row_prefix(1) [OF assms(1)] by (intro store_values_counters) simp
  obtain f where f: "counter_fields = Blank # f" by (simp add: counter_fields_def numeral_eq_Suc)
  have "scanf counter_fields (CHR '' '' # counter_text vs @ newline # r) = scanf counter_fields (counter_text vs @ newline # r)"
    by (simp add: f)
  then have "scanf total_format (stat_line ''cpu '' vs @ r) = (map SInt (take 7 vs), r, Scan_Done)"
    using scanf_counter_fields [OF len assms(3)] by (simp add: total_format_def stat_line_def)
  then show "scan_counters total_format vars (stat_line ''cpu '' vs @ r) = Inr (map Some (take 7 vs), r)"
    using vals len assms(2) by (simp add: scan_counters_def)
  have "scanf core_format (stat_line (''cpu'' @ to_string i) vs @ r) = (map SInt (take 7 vs), r, Scan_Done)"
    using scanf_counter_fields [OF len assms(3)] by (simp add: core_format_def stat_line_def int_field_to_string)
  then show "scan_counters core_format vars (stat_line (''cpu'' @ to_string i) vs @ r) = Inr (map Some (take 7 vs), r)"
    using vals len assms(2) by (simp add: scan_counters_def)
qed

lemma scan_no_core:
  assumes "no_core_line r"
  shows "scan_counters core_format vars r = Inr (vars, r)"
  using assms by (cases r) (simp_all add: scan_counters_def core_format_def no_core_line_def)

lemma scan_cores_exhausted:
  "no_core_line r \<Longrightarrow> counts vars = Inr c \<Longrightarrow> scan_cores n vars r = Inr (replicate n c, vars)"
  by (induction n) (simp_all add: scan_no_core)

lemma core_lines_start: "no_core_line r \<Longrightarrow> starts_word (core_lines i vss @ r)"
  by (cases vss) (auto simp: stat_line_def no_core_line_def starts_word_def split: list.splits)

lemma scan_cores_rows:
  assumes "\<forall>vs \<in> set (v0 # vss). row_ok vs" "no_core_line r" "length vss \<le> n"
  shows "\<exists>vars. length vars = 7 \<and> scan_cores n (map Some (take 7 v0)) (core_lines i vss @ r) =
    Inr (map row_counts vss @ replicate (n - length vss) (row_counts (last (v0 # vss))), vars)"
  using assms
proof (induction vss arbitrary: v0 i n)
  case Nil
  then have "length (map Some (take 7 v0)) = 7" "counts (map Some (take 7 v0)) = Inr (row_counts v0)"
    by (simp_all add: row_ok_def counts_row)
  with Nil show ?case by (simp add: scan_cores_exhausted del: length_map length_take)
next
  case (Cons vs vss)
  then obtain m where n: "n = Suc m" by (cases n) auto
  have ok: "row_ok vs" and len: "length (map Some (take 7 v0)) = 7"
    using Cons.prems(1) by (simp_all add: row_ok_def)
  obtain vars where IH: "length vars = 7" "scan_cores m (map Some (take 7 vs)) (core_lines (i + 1) vss @ r) =
      Inr (map row_counts vss @ replicate (m - length vss) (row_counts (last (vs # vss))), vars)"
    using Cons.IH [of vs m "i + 1"] Cons.prems n by auto
  have line: "scan_counters core_format (map Some (take 7 v0)) (core_lines i (vs # vss) @ r) =
      Inr (map Some (take 7 vs), core_lines (i + 1) vss @ r)"
    using scan_row(2) [OF ok len core_lines_start [OF Cons.prems(2)]] by simp
  show ?case unfolding n scan_cores.simps line by (simp add: counts_row [OF ok] IH)
qed

definition row_usage :: "int list \<Rightarrow> int list \<Rightarrow> dbl" where
  "row_usage a b = dbl_div (Num (100 * real_of_int (snd (row_counts b) - snd (row_counts a))))
     (Num (real_of_int (fst (row_counts b) - fst (row_counts a))))"

lemma usage_percent_rows:
  assumes "row_ok a" "row_ok b"
  shows "usage_percent (row_counts a) (row_counts b) = Inr (row_usage a b)"
  using row_prefix(2-4) [OF assms(1)] row_prefix(2-4) [OF assms(2)]
  by (simp add: usage_percent_def row_usage_def row_counts_def sub_i64_def in_i64_def)

lemma usage_percents_rows:
  "\<forall>vs \<in> set (as @ bs). row_ok vs \<Longrightarrow> length as = length bs \<Longrightarrow>
     usage_percents (map row_counts as) (map row_counts bs) = Inr (map2 row_usage as bs)"
proof (induction as arbitrary: bs)
  case (Cons a as)
  then obtain b bs' where "bs = b # bs'" by (cases bs) auto
  with Cons show ?case by (simp add: usage_percent_rows)
qed simp

lemma scan_stat_rows:
  assumes "\<forall>vs \<in> set (h # cs). row_ok vs" "no_core_line r" "length cs \<le> n" "length vars = 7"
  shows "\<exists>vars'. length vars' = 7 \<and> scan_stat n vars (Some (stat_text h cs r)) =
    Inr (map row_counts (h # cs @ replicate (n - length cs) (last (h # cs))), vars')"
proof -
  have "row_ok h" using assms(1) by simp
  moreover have "scan_counters total_format vars (stat_text h cs r) = Inr (map Some (take 7 h), core_lines 0 cs @ r)"
    unfolding stat_text_def using scan_row(1) [OF _ assms(4) core_lines_start [OF assms(2)]] assms(1) by simp
  ultimately show ?thesis
    using scan_cores_rows [OF assms(1-3), of 0] by (auto simp: scan_stat_def counts_row)
qed

text \<open>
  C35. The CPU report has one entry for the machine and one for each of the \<open>n\<close> cores it was
  told about: the share of used time between the two readings. When \<open>n\<close> exceeds the core
  lines of the file, as it does on a machine without two threads per core since the
  reporter client passes twice the number of cores, the missing ones repeat the last core.
\<close>

theorem cpu_report_usage:
  assumes "\<forall>vs \<in> set ((h1 # c1) @ (h2 # c2)). row_ok vs" "no_core_line r1" "no_core_line r2"
    and "length c1 = length c2" "length c1 \<le> n"
  shows "cpu_report n (Some (stat_text h1 c1 r1)) (Some (stat_text h2 c2 r2)) =
    Inr \<lparr>core_count = to_i8 (int n),
         cpu_usage = map2 row_usage (h1 # c1) (h2 # c2) @
           replicate (n - length c1) (row_usage (last (h1 # c1)) (last (h2 # c2)))\<rparr>"
proof -
  let ?a = "h1 # c1 @ replicate (n - length c1) (last (h1 # c1))"
  let ?b = "h2 # c2 @ replicate (n - length c2) (last (h2 # c2))"
  obtain v1 where v1: "length v1 = 7" "scan_stat n (replicate 7 None) (Some (stat_text h1 c1 r1)) = Inr (map row_counts ?a, v1)"
    using scan_stat_rows [of h1 c1 r1 n "replicate 7 None"] assms by auto
  obtain v2 where v2: "scan_stat n v1 (Some (stat_text h2 c2 r2)) = Inr (map row_counts ?b, v2)"
    using scan_stat_rows [of h2 c2 r2 n v1] assms v1(1) by auto
  have ok: "\<forall>vs \<in> set (h1 # c1). row_ok vs" "\<forall>vs \<in> set (h2 # c2). row_ok vs" using assms(1) by simp_all
  have last_ok: "row_ok (last (h1 # c1))" "row_ok (last (h2 # c2))"
    using ok last_in_set [of "h1 # c1"] last_in_set [of "h2 # c2"] by blast+
  have "usage_percents (map row_counts ?a) (map row_counts ?b) = Inr (map2 row_usage ?a ?b)"
  proof (rule usage_percents_rows)
    have "set ?a \<subseteq> insert (last (h1 # c1)) (set (h1 # c1))" "set ?b \<subseteq> insert (last (h2 # c2)) (set (h2 # c2))" by auto
    then show "\<forall>vs \<in> set (?a @ ?b). row_ok vs" using ok last_ok by (auto simp del: last.simps)
  qed (use assms(4) in simp)
  moreover have "map2 row_usage ?a ?b = map2 row_usage (h1 # c1) (h2 # c2) @
      replicate (n - length c1) (row_usage (last (h1 # c1)) (last (h2 # c2)))"
    using assms(4) by (simp add: zip_append zip_replicate del: last.simps)
  ultimately show ?thesis using v1(2) v2 by (simp add: cpu_report_def del: last.simps)
qed

theorem cpu_report_usage_witness:
  "cpu_report 2 (Some (stat_text [1, 0, 1, 8, 0, 0, 0, 0, 0, 0] [[1, 0, 1, 8, 0, 0, 0, 0, 0, 0]] ''intr 5''))
       (Some (stat_text [3, 0, 1, 10, 0, 0, 0, 0, 0, 0] [[3, 0, 1, 10, 0, 0, 0, 0, 0, 0]] ''intr 6'')) =
     Inr \<lparr>core_count = 2, cpu_usage = [Num 50, Num 50, Num 50]\<rparr>"
  using cpu_report_usage [of "[1, 0, 1, 8, 0, 0, 0, 0, 0, 0]" "[[1, 0, 1, 8, 0, 0, 0, 0, 0, 0]]"
      "[3, 0, 1, 10, 0, 0, 0, 0, 0, 0]" "[[3, 0, 1, 10, 0, 0, 0, 0, 0, 0]]" "''intr 5''" "''intr 6''" 2]
  by (simp add: row_ok_def no_core_line_def is_space_def row_usage_def row_counts_def to_i8_def numeral_eq_Suc)

end
