(* ===== verification/Sys_Reporter.thy ===== *)
theory Sys_Reporter
  imports Proc_Reporters
begin

text \<open>
  \<open>SysReporter\<close> (\<open>reporter/linux/src/reporter/sys_reporter.cpp\<close>): the system information that
  the reporter sends in its handshake. What the system calls return is a record; the files
  are texts. The sizes of a file system are divided without the rounding of \<open>double\<close>.
\<close>

section \<open>What the machine answers\<close>

datatype address_family = AF_INET | AF_INET6 | Other_Family

text \<open>
  One entry of \<open>getifaddrs\<close>: the address, which may be missing, is its family and what
  \<open>inet_ntoa\<close> prints of the bytes where an IPv4 address is.
\<close>

record ifaddr =
  ifa_name :: string
  ifa_addr :: "(address_family \<times> string) option"

text \<open>\<open>statfs\<close> gives \<open>f_bavail\<close>, \<open>f_blocks\<close> and \<open>f_bsize\<close>, or fails.\<close>

record machine =
  m_uptime :: int
  m_mounts :: "string option"
  m_statfs :: "string \<Rightarrow> (nat \<times> nat \<times> nat) option"
  m_ifaddrs :: "ifaddr list"
  m_cpuinfo :: "string option"
  m_sysname :: string
  m_nodename :: string
  m_release :: string
  m_machine :: string

section \<open>Storage\<close>

definition mount_format :: "directive list" where
  "mount_format = [Word_Field, Blank, Word_Field, Blank, Word_Field, Blank, Skip_Word, Blank, Lit CHR ''0'', Blank, Lit CHR ''0'', Blank]"

definition BUFFER_SIZE :: nat where
  "BUFFER_SIZE = 128"

text \<open>Storing the words that were read into the buffers \<open>dev\<close>, \<open>mount_point\<close> and \<open>fs_type\<close>.\<close>

fun store_words :: "scan_value list \<Rightarrow> string option list \<Rightarrow> string option list res" where
  "store_words (SWord w # vs) (_ # bufs) =
     (if length w < BUFFER_SIZE then rbind (store_words vs bufs) (\<lambda>bs. Inr (Some w # bs)) else Inl Out_Of_Bounds)"
| "store_words _ bufs = Inr bufs"

definition gigabytes :: "nat \<Rightarrow> nat \<Rightarrow> int" where
  "gigabytes blocks unit = int ((blocks * unit) mod 2 ^ 64 div 10 ^ 9)"

definition storage_of :: "(string \<Rightarrow> (nat \<times> nat \<times> nat) option) \<Rightarrow> string \<Rightarrow> string \<Rightarrow> string \<Rightarrow> StorageInfo res" where
  "storage_of statfs d mp fs = (case statfs mp of
     None \<Rightarrow> Inl Indeterminate_Value
   | Some (bavail, blocks, bsize) \<Rightarrow>
       Inr \<lparr>si_dev = d, si_fs_type = fs, si_free = gigabytes bavail bsize, si_total = gigabytes blocks bsize,
            si_mount_point = mp\<rparr>)"

lemma length_dropWhile_le: "length (dropWhile P xs) \<le> length xs"
  by (induction xs) auto

lemma length_skip_ws: "length (skip_ws s) \<le> length s"
  by (simp add: skip_ws_def length_dropWhile_le)

lemma length_int_field: "length (snd (int_field s)) \<le> length s"
proof -
  have "length (snd (take_sign s)) \<le> length s" by (cases s) auto
  then show ?thesis
    using length_dropWhile_le [of is_digit "snd (take_sign s)"]
    by (auto simp: int_field_def Let_def split: prod.splits)
qed

lemma length_scanf: "length (fst (snd (scanf ds s))) \<le> length s"
proof (induction ds s rule: scanf.induct)
  case (2 ds s)
  then show ?case using length_skip_ws [of s] by simp
next
  case (4 ds s)
  then show ?case using length_skip_ws [of s] length_int_field [of "skip_ws s"]
    by (auto simp: cons_value_def split: option.splits prod.splits)
next
  case (5 ds s)
  then show ?case using length_skip_ws [of s] length_int_field [of "skip_ws s"]
    by (auto split: option.splits prod.splits)
next
  case (6 ds s)
  then show ?case
    using length_skip_ws [of s] length_dropWhile_le [of "\<lambda>c. \<not> is_space c" "skip_ws s"]
    by (auto simp: cons_value_def)
next
  case (7 ds s)
  then show ?case
    using length_skip_ws [of s] length_dropWhile_le [of "\<lambda>c. \<not> is_space c" "skip_ws s"] by auto
qed (auto split: list.splits)

text \<open>A word conversion that does not meet the end of the file consumes something.\<close>

lemma scanf_word_consumes:
  assumes "\<not> scan_eof (scanf (Word_Field # ds) s)"
  shows "length (fst (snd (scanf (Word_Field # ds) s))) < length s"
proof -
  have ne: "skip_ws s \<noteq> []" using assms by (auto simp: scan_eof_def)
  then obtain c cs where c: "skip_ws s = c # cs" by (cases "skip_ws s") auto
  have "\<not> is_space c" using c hd_dropWhile [of is_space s] by (simp add: skip_ws_def)
  then have "length (dropWhile (\<lambda>c. \<not> is_space c) (skip_ws s)) < length (skip_ws s)"
    using c length_dropWhile_le [of "\<lambda>c. \<not> is_space c" cs] by (simp add: le_imp_less_Suc)
  with length_scanf [of ds "dropWhile (\<lambda>c. \<not> is_space c) (skip_ws s)"] length_skip_ws [of s] ne
  show ?thesis by (simp add: cons_value_def)
qed

text \<open>The loop over \<open>/proc/mounts\<close>.\<close>

function scan_mounts ::
  "(string \<Rightarrow> (nat \<times> nat \<times> nat) option) \<Rightarrow> string option list \<Rightarrow> string \<Rightarrow> StorageInfo list res"
where
  "scan_mounts statfs bufs s =
     (let r = scanf mount_format s
      in if scan_eof r then Inr []
         else rbind (store_words (fst r) bufs) (\<lambda>bufs1.
           rbind (known (bufs1 ! 0)) (\<lambda>d.
           rbind (known (bufs1 ! 2)) (\<lambda>fs.
           rbind (known (bufs1 ! 1)) (\<lambda>mp.
             if hd (d @ [CHR 0x00]) \<noteq> CHR ''/'' then scan_mounts statfs bufs1 (fst (snd r))
             else rbind (storage_of statfs d mp fs) (\<lambda>si.
               rbind (scan_mounts statfs bufs1 (fst (snd r))) (\<lambda>sis. Inr (si # sis))))))))"
  by pat_completeness auto

termination
  by (relation "measure (\<lambda>(_, _, s). length s)")
    (use scanf_word_consumes in \<open>auto simp: mount_format_def Let_def\<close>)

declare scan_mounts.simps [simp del]

section \<open>Network\<close>

text \<open>The address printed is that of the first entry of the list, not of the current one.\<close>

fun scan_network :: "ifaddr \<Rightarrow> ifaddr list \<Rightarrow> NetworkInfo list res" where
  "scan_network ifap [] = Inr []"
| "scan_network ifap (a # as) = rbind (case ifa_addr a of None \<Rightarrow> Inl Null_Deref | Some x \<Rightarrow> Inr x) (\<lambda>(fam, _).
     if fam = Other_Family then scan_network ifap as
     else rbind (case ifa_addr ifap of None \<Rightarrow> Inl Null_Deref | Some x \<Rightarrow> Inr x) (\<lambda>(_, ip).
       rbind (scan_network ifap as) (\<lambda>ns.
         Inr (\<lparr>ni_interface_name = ifa_name a, ni_is_ipv6 = (fam = AF_INET6), ni_ip = ip\<rparr> # ns))))"

definition network_report :: "ifaddr list \<Rightarrow> NetworkInfo list res" where
  "network_report as = (case as of [] \<Rightarrow> Inl Null_Deref | a # _ \<Rightarrow> scan_network a as)"

section \<open>Processor\<close>

definition vendor_format :: "directive list" where
  "vendor_format = lits ''vendor_id'' @ [Blank, Lit CHR '':'', Blank, Word_Field]"

definition model_format :: "directive list" where
  "model_format = lits ''model'' @ [Blank] @ lits ''name'' @ [Blank, Lit CHR '':'', Blank]"

definition cache_format :: "directive list" where
  "cache_format = lits ''cache'' @ [Blank] @ lits ''size'' @ [Blank, Lit CHR '':'', Blank, Int_Field, Blank] @ lits ''KB''"

definition cores_format :: "directive list" where
  "cores_format = lits ''cpu'' @ [Blank] @ lits ''cores'' @ [Blank, Lit CHR '':'', Blank, Int_Field]"

text \<open>The rest of a line; at the end of the file the loop appends for ever.\<close>

definition rest_of_line :: "string \<Rightarrow> (string \<times> string) option" where
  "rest_of_line s = Option.bind (skip_line s) (\<lambda>r. Some (takeWhile (\<lambda>c. c \<noteq> newline) s, r))"

text \<open>
  \<open>%hhd\<close> stores one byte. The fields it is used for are 32 bits wide and zero, so
  the byte becomes the lowest one of a number that is not negative.
\<close>

definition store_byte :: "int \<Rightarrow> int" where
  "store_byte n = n mod 256"

definition int_or :: "int \<Rightarrow> (int \<Rightarrow> int) \<Rightarrow> scan_value list \<Rightarrow> int" where
  "int_or old store vs = (case vs of SInt n # _ \<Rightarrow> store n | _ \<Rightarrow> old)"

definition vendor_word :: "scan_value list \<Rightarrow> string res" where
  "vendor_word vs = (case vs of
     SWord w # _ \<Rightarrow> if length w < BUFFER_SIZE then Inr w else Inl Out_Of_Bounds
   | _ \<Rightarrow> Inl Indeterminate_Value)"

definition cpuinfo_tail :: "string \<Rightarrow> string \<Rightarrow> string \<Rightarrow> CpuInfo option" where
  "cpuinfo_tail vendor model s =
     Option.bind (skip_lines 3 s) (\<lambda>s1.
     let (vs, s2, _) = scanf cache_format s1
     in Option.bind (skip_lines 4 s2) (\<lambda>s3.
        Some \<lparr>cpu_cores = int_or 0 store_byte (fst (scanf cores_format s3)), cache_size = int_or 0 to_i16 vs,
              arch = kX86_64, cpu_name = model, cpu_vendor_name = vendor\<rparr>))"

definition cpuinfo_report :: "string option \<Rightarrow> CpuInfo res option" where
  "cpuinfo_report file = (case file of
     None \<Rightarrow> Some (Inl Null_Deref)
   | Some s \<Rightarrow> Option.bind (skip_line s) (\<lambda>s1.
       let (vs, s2, _) = scanf vendor_format s1
       in case vendor_word vs of
            Inl e \<Rightarrow> Some (Inl e)
          | Inr vendor \<Rightarrow> Option.bind (skip_lines 3 s2) (\<lambda>s3.
              Option.bind (rest_of_line (fst (snd (scanf model_format s3)))) (\<lambda>(model, s4).
              map_option Inr (cpuinfo_tail vendor model s4)))))"

section \<open>The whole report\<close>

definition machine_arch :: "string \<Rightarrow> Architecture" where
  "machine_arch m = (if m = ''x86_64'' then kX86_64 else if m = ''x86'' then kX86 else kUnknownArch)"

definition version_format :: "directive list" where
  "version_format = [Int_Field, Lit CHR ''.'', Int_Field, Lit CHR ''.'', Int_Field]"

definition kernel_version :: "string \<Rightarrow> VersionData" where
  "kernel_version s = (case fst (scanf version_format s) of
     [] \<Rightarrow> default_version
   | a # vs \<Rightarrow> \<lparr>vd_release = int_or 0 store_byte (drop 1 vs), vd_major = int_or 0 store_byte [a],
                vd_minor = int_or 0 store_byte vs\<rparr>)"

definition mounts_report :: "machine \<Rightarrow> StorageInfo list res" where
  "mounts_report m = (case m_mounts m of
     None \<Rightarrow> Inl Null_Deref
   | Some s \<Rightarrow> scan_mounts (m_statfs m) [None, None, None] s)"

text \<open>The version of the reporter is a constant of the build, here a parameter.\<close>

definition sys_report :: "VersionData \<Rightarrow> machine \<Rightarrow> SystemInfo res option" where
  "sys_report version m = (case rbind (mounts_report m) (\<lambda>sis. rbind (network_report (m_ifaddrs m)) (\<lambda>ns. Inr (sis, ns))) of
     Inl e \<Rightarrow> Some (Inl e)
   | Inr (sis, ns) \<Rightarrow> map_option (\<lambda>r. rbind r (\<lambda>cpu.
       Inr \<lparr>uptime = m_uptime m, system_name = m_sysname m, host_name = m_nodename m,
            os_version = kernel_version (m_release m), client_version = version,
            cpu_info = cpu\<lparr>arch := machine_arch (m_machine m)\<rparr>,
            sys_storage_info = sis, sys_network_info = ns, sys_temp_info = []\<rparr>)) (cpuinfo_report (m_cpuinfo m)))"

section \<open>Network addresses\<close>

definition internet :: "ifaddr \<Rightarrow> bool" where
  "internet a \<longleftrightarrow> (case ifa_addr a of None \<Rightarrow> False | Some (fam, _) \<Rightarrow> fam \<noteq> Other_Family)"

lemma scan_network_entries:
  "ifa_addr ifap = Some (f, ip) \<Longrightarrow> \<forall>a \<in> set as. ifa_addr a \<noteq> None \<Longrightarrow>
     scan_network ifap as = Inr (map (\<lambda>a. \<lparr>ni_interface_name = ifa_name a,
       ni_is_ipv6 = (fst (the (ifa_addr a)) = AF_INET6), ni_ip = ip\<rparr>) (List.filter internet as))"
  by (induction as) (auto simp: internet_def)

text \<open>
  When every interface has an address, the report lists exactly those with an IPv4 or
  IPv6 address, in order, with their name and family; but the address of every entry is the
  one of the first interface of the list, whichever family that has.
\<close>

theorem network_report_first_ip:
  assumes "\<forall>b \<in> set (a # as). ifa_addr b \<noteq> None"
  shows "\<exists>ns. network_report (a # as) = Inr ns \<and>
    map ni_interface_name ns = map ifa_name (List.filter internet (a # as)) \<and>
    map ni_is_ipv6 ns = map (\<lambda>b. fst (the (ifa_addr b)) = AF_INET6) (List.filter internet (a # as)) \<and>
    (\<forall>n \<in> set ns. ni_ip n = snd (the (ifa_addr a)))"
proof -
  obtain f ip where a: "ifa_addr a = Some (f, ip)" using assms by auto
  show ?thesis
    using scan_network_entries [OF a assms] a
    by (auto simp: network_report_def simp del: scan_network.simps)
qed

theorem network_report_first_ip_witness:
  "\<exists>ns. network_report [\<lparr>ifa_name = ''lo'', ifa_addr = Some (AF_INET, ''127.0.0.1'')\<rparr>,
      \<lparr>ifa_name = ''eth0'', ifa_addr = Some (AF_INET, ''10.0.0.5'')\<rparr>] = Inr ns \<and>
     map ni_interface_name ns = [''lo'', ''eth0''] \<and> ni_ip (ns ! 1) = ''127.0.0.1''"
proof -
  let ?as = "[\<lparr>ifa_name = ''lo'', ifa_addr = Some (AF_INET, ''127.0.0.1'')\<rparr>,
      \<lparr>ifa_name = ''eth0'', ifa_addr = Some (AF_INET, ''10.0.0.5'')\<rparr>]"
  obtain ns where ns: "network_report ?as = Inr ns" "map ni_interface_name ns = [''lo'', ''eth0'']"
      "\<forall>n \<in> set ns. ni_ip n = ''127.0.0.1''"
    using network_report_first_ip [of "hd ?as" "tl ?as"] by (auto simp: internet_def)
  from ns(2) have "length ns = 2" by (metis length_Cons length_map list.size(3) numeral_2_eq_2)
  then have "ni_ip (ns ! 1) = ''127.0.0.1''" using ns(3) by simp
  with ns(1,2) show ?thesis by (intro exI [of _ ns]) simp
qed

section \<open>Mounted devices\<close>

type_synonym mount = "string \<times> string \<times> string \<times> string"

text \<open>A line of \<open>/proc/mounts\<close>: device, mount point, type and options, and two zeros.\<close>

definition mount_line :: "mount \<Rightarrow> string" where
  "mount_line m = (case m of (d, mp, fs, opts) \<Rightarrow>
     d @ '' '' @ mp @ '' '' @ fs @ '' '' @ opts @ '' 0 0'' @ [newline])"

definition plain_word :: "string \<Rightarrow> bool" where
  "plain_word w \<longleftrightarrow> w \<noteq> [] \<and> (\<forall>c \<in> set w. \<not> is_space c) \<and> length w < BUFFER_SIZE"

definition mount_ok :: "(string \<Rightarrow> (nat \<times> nat \<times> nat) option) \<Rightarrow> mount \<Rightarrow> bool" where
  "mount_ok statfs m \<longleftrightarrow> (case m of (d, mp, fs, opts) \<Rightarrow>
     plain_word d \<and> plain_word mp \<and> plain_word fs \<and> opts \<noteq> [] \<and> (\<forall>c \<in> set opts. \<not> is_space c) \<and> statfs mp \<noteq> None)"

definition mount_storage :: "(string \<Rightarrow> (nat \<times> nat \<times> nat) option) \<Rightarrow> mount \<Rightarrow> StorageInfo" where
  "mount_storage statfs m = (case m of (d, mp, fs, _) \<Rightarrow>
     \<lparr>si_dev = d, si_fs_type = fs, si_free = gigabytes (fst (the (statfs mp))) (snd (snd (the (statfs mp)))),
      si_total = gigabytes (fst (snd (the (statfs mp)))) (snd (snd (the (statfs mp)))), si_mount_point = mp\<rparr>)"

definition is_device :: "mount \<Rightarrow> bool" where
  "is_device m \<longleftrightarrow> hd (fst m) = CHR ''/''"

lemma plain_word_split:
  assumes "\<forall>c \<in> set w. \<not> is_space c"
  shows "takeWhile (\<lambda>c. \<not> is_space c) (w @ CHR '' '' # r) = w" "dropWhile (\<lambda>c. \<not> is_space c) (w @ CHR '' '' # r) = CHR '' '' # r"
  using assms by (induction w) auto

lemma skip_ws_to_word: "w \<noteq> [] \<Longrightarrow> \<forall>c \<in> set w. \<not> is_space c \<Longrightarrow> skip_ws (w @ r) = w @ r"
  by (cases w) auto

lemma scanf_word:
  assumes "w \<noteq> []" "\<forall>c \<in> set w. \<not> is_space c"
  shows "scanf (Word_Field # Blank # ds) (w @ CHR '' '' # r) = cons_value (SWord w) (scanf ds (skip_ws r))"
    and "scanf (Skip_Word # Blank # ds) (w @ CHR '' '' # r) = scanf ds (skip_ws r)"
  using assms skip_ws_to_word [OF assms] plain_word_split [OF assms(2)] by simp_all

lemma scanf_mount_line:
  assumes "mount_ok statfs (d, mp, fs, opts)" "starts_word r"
  shows "scanf mount_format (mount_line (d, mp, fs, opts) @ r) = ([SWord d, SWord mp, SWord fs], r, Scan_Done)"
proof -
  have z: "\<not> is_space CHR ''0''" by (simp add: is_space_def)
  show ?thesis
    using assms z
    by (simp add: mount_ok_def plain_word_def mount_format_def mount_line_def scanf_word skip_ws_to_word cons_value_def
        del: scanf.simps(6,7))
qed

lemma mount_lines_start: "\<forall>m \<in> set ms. mount_ok statfs m \<Longrightarrow> starts_word (concat (map mount_line ms))"
proof (cases ms)
  case (Cons m ms')
  assume ok: "\<forall>m \<in> set ms. mount_ok statfs m"
  obtain d mp fs opts where m: "m = (d, mp, fs, opts)" by (metis prod.exhaust)
  with ok Cons have "d \<noteq> []" "\<forall>c \<in> set d. \<not> is_space c" by (simp_all add: mount_ok_def plain_word_def)
  then show ?thesis using Cons m by (cases d) (simp_all add: mount_line_def)
qed simp

lemma scan_mounts_lines:
  assumes "\<forall>m \<in> set ms. mount_ok statfs m" "length bufs = 3"
  shows "scan_mounts statfs bufs (concat (map mount_line ms)) =
    Inr (map (mount_storage statfs) (List.filter is_device ms))"
  using assms
proof (induction ms arbitrary: bufs)
  case Nil
  then show ?case
    by (subst scan_mounts.simps) (simp add: mount_format_def scan_eof_def)
next
  case (Cons m ms)
  obtain d mp fs opts where m: "m = (d, mp, fs, opts)" by (metis prod.exhaust)
  let ?r = "concat (map mount_line ms)"
  have ok: "mount_ok statfs (d, mp, fs, opts)" using Cons.prems(1) m by simp
  have scan: "scanf mount_format (mount_line m @ ?r) = ([SWord d, SWord mp, SWord fs], ?r, Scan_Done)"
    unfolding m using Cons.prems(1) by (intro scanf_mount_line [OF ok] mount_lines_start [of _ statfs]) simp
  obtain a b c where "bufs = [a, b, c]" using Cons.prems(2) by (auto simp: numeral_3_eq_3 length_Suc_conv)
  then have bufs: "store_words [SWord d, SWord mp, SWord fs] bufs = Inr [Some d, Some mp, Some fs]"
    using ok by (simp add: mount_ok_def plain_word_def)
  have IH: "scan_mounts statfs [Some d, Some mp, Some fs] ?r = Inr (map (mount_storage statfs) (List.filter is_device ms))"
    using Cons.prems by (intro Cons.IH) simp_all
  obtain fr tot bs where st: "statfs mp = Some (fr, tot, bs)" using ok by (auto simp: mount_ok_def)
  have d: "hd (d @ [CHR 0x00]) = hd d" using ok by (simp add: mount_ok_def plain_word_def)
  have "scan_mounts statfs bufs (mount_line m @ ?r) =
      Inr (map (mount_storage statfs) (List.filter is_device (m # ms)))"
    by (subst scan_mounts.simps)
      (simp add: scan [unfolded m] bufs IH d Let_def scan_eof_def numeral_2_eq_2 is_device_def m storage_of_def st mount_storage_def)
  then show ?case by simp
qed

text \<open>
  C36. From a list of mounted file systems as the kernel prints it, the storage devices of
  the report are exactly those whose device is a path, in order, each with its type, mount
  point and the sizes of the file system in gigabytes; file systems without a device are
  left out.
\<close>

theorem mounts_report_devices:
  assumes "m_mounts m = Some (concat (map mount_line ms))" "\<forall>x \<in> set ms. mount_ok (m_statfs m) x"
  shows "mounts_report m = Inr (map (mount_storage (m_statfs m)) (List.filter is_device ms))"
  using assms scan_mounts_lines [of ms "m_statfs m" "[None, None, None]"] by (simp add: mounts_report_def)

definition sample_machine :: machine where
  "sample_machine = \<lparr>m_uptime = 60,
     m_mounts = Some (concat (map mount_line [(''proc'', ''/proc'', ''proc'', ''rw''), (''/dev/sda1'', ''/'', ''ext4'', ''rw'')])),
     m_statfs = (\<lambda>_. Some (500000, 2000000, 4096)),
     m_ifaddrs = [\<lparr>ifa_name = ''lo'', ifa_addr = Some (AF_INET, ''127.0.0.1'')\<rparr>],
     m_cpuinfo = None, m_sysname = ''Linux'', m_nodename = ''host'', m_release = ''5.15.0'', m_machine = ''x86_64''\<rparr>"

theorem mounts_report_devices_witness:
  "mounts_report sample_machine =
     Inr [\<lparr>si_dev = ''/dev/sda1'', si_fs_type = ''ext4'', si_free = 2, si_total = 8, si_mount_point = ''/''\<rparr>]"
  using mounts_report_devices [of sample_machine
      "[(''proc'', ''/proc'', ''proc'', ''rw''), (''/dev/sda1'', ''/'', ''ext4'', ''rw'')]"]
  by (simp add: sample_machine_def mount_ok_def plain_word_def BUFFER_SIZE_def is_space_def is_device_def
      mount_storage_def gigabytes_def)

section \<open>The processor\<close>

text \<open>The first lines of \<open>/proc/cpuinfo\<close>; \<open>ls\<close> and the others are lines of any content.\<close>

definition field_text :: "string \<Rightarrow> string \<Rightarrow> string \<Rightarrow> string" where
  "field_text name pad v = name @ pad @ '': '' @ v"

definition cpuinfo_text ::
  "string \<Rightarrow> string \<Rightarrow> string \<Rightarrow> string list \<Rightarrow> string \<Rightarrow> string list \<Rightarrow> int \<Rightarrow> string list \<Rightarrow> int \<Rightarrow> string \<Rightarrow> string"
where
  "cpuinfo_text pad first vendor ls model ms cache ns cores r =
     unlines [first, field_text ''vendor_id'' pad vendor] @ unlines ls @
     unlines [field_text ''model name'' pad model] @ unlines ms @
     unlines [field_text ''cache size'' pad (to_string cache @ '' KB'')] @ unlines ns @
     field_text ''cpu cores'' pad (to_string cores @ newline # r)"

lemma plain_facts [simp]: "\<not> is_space CHR '':''" "\<not> is_space CHR ''n''" "\<not> is_space CHR ''K''"
  "\<not> is_space CHR ''s''"
  by (simp_all add: is_space_def)

lemma word_split_newline:
  assumes "\<forall>c \<in> set w. \<not> is_space c"
  shows "takeWhile (\<lambda>c. \<not> is_space c) (w @ newline # r) = w" "dropWhile (\<lambda>c. \<not> is_space c) (w @ newline # r) = newline # r"
  using assms by (induction w) auto

lemma scan_vendor:
  assumes "blanks pad" "plain_word v"
  shows "scanf vendor_format (field_text ''vendor_id'' pad v @ newline # r) = ([SWord v], newline # r, Scan_Done)"
  using assms skip_ws_to_word [of v "newline # r"] word_split_newline [of v r]
  by (simp add: vendor_format_def field_text_def plain_word_def cons_value_def)

lemma scan_model:
  assumes "blanks pad" "starts_word v" "v \<noteq> []"
  shows "scanf model_format (field_text ''model name'' pad v @ r) = ([], v @ r, Scan_Done)"
proof -
  have "skip_ws (v @ r) = v @ r" using assms(2,3) by (cases v) simp_all
  with assms(1) show ?thesis by (simp add: model_format_def field_text_def)
qed

lemma scan_cache:
  assumes "blanks pad"
  shows "scanf cache_format (field_text ''cache size'' pad (to_string n @ '' KB'') @ r) = ([SInt n], r, Scan_Done)"
  using assms by (simp add: cache_format_def field_text_def cons_value_def int_field_to_string)

lemma scan_cpu_cores:
  assumes "blanks pad"
  shows "fst (scanf cores_format (field_text ''cpu cores'' pad (to_string n @ newline # r))) = [SInt n]"
  using assms by (simp add: cores_format_def field_text_def cons_value_def int_field_to_string)

lemma rest_of_line_newline:
  assumes "newline \<notin> set l"
  shows "rest_of_line (l @ newline # r) = Some (l, r)"
proof -
  have "takeWhile (\<lambda>c. c \<noteq> newline) (l @ newline # r) = l" using assms by (induction l) auto
  with assms show ?thesis by (simp add: rest_of_line_def)
qed

lemma skip_rest_and_lines:
  "\<forall>l \<in> set ls. newline \<notin> set l \<Longrightarrow> length ls = n \<Longrightarrow> skip_lines (Suc n) (newline # unlines ls @ r) = Some r"
  using skip_lines_unlines [of ls r] by simp

lemma cpuinfo_tail_reads:
  assumes "blanks pad" "\<forall>l \<in> set (ms @ ns). newline \<notin> set l" "length ms = 3" "length ns = 3"
  shows "cpuinfo_tail vendor model (unlines ms @
       field_text ''cache size'' pad (to_string cache @ '' KB'') @ newline # unlines ns @
       field_text ''cpu cores'' pad (to_string cores @ newline # r)) =
     Some \<lparr>cpu_cores = store_byte cores, cache_size = to_i16 cache, arch = kX86_64, cpu_name = model, cpu_vendor_name = vendor\<rparr>"
proof -
  have m: "skip_lines 3 (unlines ms @ t) = Some t" for t
    using skip_lines_unlines [of ms t] assms(2,3) by simp
  have n: "skip_lines 4 (newline # unlines ns @ t) = Some t" for t
    using skip_rest_and_lines [of ns 3 t] assms(2,4) by (simp add: numeral_eq_Suc)
  show ?thesis
    by (simp add: cpuinfo_tail_def m scan_cache [OF assms(1)] n scan_cpu_cores [OF assms(1)] int_or_def)
qed

definition cpuinfo_rest :: "string \<Rightarrow> string list \<Rightarrow> int \<Rightarrow> string list \<Rightarrow> int \<Rightarrow> string \<Rightarrow> string" where
  "cpuinfo_rest pad ms cache ns cores r =
     unlines ms @ field_text ''cache size'' pad (to_string cache @ '' KB'') @ newline # unlines ns @
     field_text ''cpu cores'' pad (to_string cores @ newline # r)"

lemma cpuinfo_report_names:
  assumes "blanks pad" "plain_word vendor" "starts_word model" "model \<noteq> []"
    and "\<forall>l \<in> set (first # model # ls). newline \<notin> set l" "length ls = 2"
  shows "cpuinfo_report (Some (cpuinfo_text pad first vendor ls model ms cache ns cores r)) =
    map_option Inr (cpuinfo_tail vendor model (cpuinfo_rest pad ms cache ns cores r))"
proof -
  let ?tail = "cpuinfo_rest pad ms cache ns cores r"
  have shape: "cpuinfo_text pad first vendor ls model ms cache ns cores r =
      first @ newline # (field_text ''vendor_id'' pad vendor @ newline # (unlines ls @
        (field_text ''model name'' pad (model @ newline # ?tail))))"
    by (simp add: cpuinfo_text_def cpuinfo_rest_def field_text_def)
  have skip: "skip_lines 3 (newline # unlines ls @ t) = Some t" for t
    using skip_rest_and_lines [of ls 2 t] assms(5,6) by (simp add: numeral_eq_Suc)
  have v: "vendor_word [SWord vendor] = Inr vendor"
    using assms(2) by (simp add: vendor_word_def plain_word_def)
  have "field_text ''model name'' pad (model @ newline # ?tail) = field_text ''model name'' pad model @ newline # ?tail"
    by (simp add: field_text_def)
  then have model_scan: "scanf model_format (field_text ''model name'' pad (model @ newline # ?tail)) =
      ([], model @ newline # ?tail, Scan_Done)"
    using scan_model [OF assms(1,3,4)] by simp
  have rest: "rest_of_line (model @ newline # ?tail) = Some (model, ?tail)"
    using assms(5) by (intro rest_of_line_newline) simp
  have first: "newline \<notin> set first" using assms(5) by simp
  show ?thesis
    unfolding shape by (simp only: cpuinfo_report_def option.case skip_line_append [OF first] Option.bind.simps
        scan_vendor [OF assms(1,2)] Let_def prod.case v sum.case skip model_scan fst_conv snd_conv rest)
qed

text \<open>
  From a \<open>/proc/cpuinfo\<close> of the usual layout (vendor in the second line, model after two
  more lines, cache size and cores each after three more) the report holds exactly the
  vendor, the whole model line, the cache size as a 16-bit number and the low byte of the
  number of cores.
\<close>

theorem cpuinfo_report_reads:
  assumes "blanks pad" "plain_word vendor" "starts_word model" "model \<noteq> []"
    and "\<forall>l \<in> set (first # model # ls @ ms @ ns). newline \<notin> set l"
    and "length ls = 2" "length ms = 3" "length ns = 3"
  shows "cpuinfo_report (Some (cpuinfo_text pad first vendor ls model ms cache ns cores r)) =
    Some (Inr \<lparr>cpu_cores = cores mod 256, cache_size = to_i16 cache, arch = kX86_64,
               cpu_name = model, cpu_vendor_name = vendor\<rparr>)"
proof -
  have "\<forall>l \<in> set (first # model # ls). newline \<notin> set l" "\<forall>l \<in> set (ms @ ns). newline \<notin> set l"
    using assms(5) by auto
  with cpuinfo_report_names [OF assms(1-4) _ assms(6)] cpuinfo_tail_reads [OF assms(1) _ assms(7,8)] show ?thesis
    by (simp add: cpuinfo_rest_def store_byte_def)
qed

theorem cpuinfo_report_reads_witness:
  "cpuinfo_report (Some (cpuinfo_text '' '' ''processor : 0'' ''GenuineIntel'' [''a'', ''b''] ''Core i5'' [''c'', ''d'', ''e'']
      6144 [''f'', ''g'', ''h''] 4 [])) =
    Some (Inr \<lparr>cpu_cores = 4, cache_size = 6144, arch = kX86_64, cpu_name = ''Core i5'', cpu_vendor_name = ''GenuineIntel''\<rparr>)"
  using cpuinfo_report_reads [of "'' ''" "''GenuineIntel''" "''Core i5''" "''processor : 0''" "[''a'', ''b'']"
      "[''c'', ''d'', ''e'']" "[''f'', ''g'', ''h'']" 6144 4 "[]"]
  by (simp add: blanks_def plain_word_def BUFFER_SIZE_def is_space_def newline_def)

text \<open>
  The kernel version: each of the three numbers is kept modulo 256.
\<close>

lemma kernel_version_reads:
  assumes "stops_digits r"
  shows "kernel_version (to_string a @ ''.'' @ to_string b @ ''.'' @ to_string c @ r) =
    \<lparr>vd_release = c mod 256, vd_major = a mod 256, vd_minor = b mod 256\<rparr>"
proof -
  have "\<not> is_digit CHR ''.''" by (simp add: is_digit_def digit_val_def)
  with assms show ?thesis
    by (simp add: kernel_version_def version_format_def int_field_to_string cons_value_def int_or_def store_byte_def)
qed

section \<open>Ranges of the report\<close>

definition buffers_ok :: "string option list \<Rightarrow> bool" where
  "buffers_ok bufs \<longleftrightarrow> length bufs = 3 \<and> (\<forall>w. Some w \<in> set bufs \<longrightarrow> length w < BUFFER_SIZE)"

definition storage_typed :: "StorageInfo \<Rightarrow> bool" where
  "storage_typed si \<longleftrightarrow> hd (si_dev si @ [CHR 0x00]) = CHR ''/'' \<and> length (si_dev si) < BUFFER_SIZE \<and>
     length (si_mount_point si) < BUFFER_SIZE \<and> length (si_fs_type si) < BUFFER_SIZE \<and>
     0 \<le> si_free si \<and> in_i64 (si_free si) \<and> 0 \<le> si_total si \<and> in_i64 (si_total si)"

definition byte :: "int \<Rightarrow> bool" where
  "byte n \<longleftrightarrow> 0 \<le> n \<and> n < 256"

definition version_typed :: "VersionData \<Rightarrow> bool" where
  "version_typed v \<longleftrightarrow> byte (vd_release v) \<and> byte (vd_major v) \<and> byte (vd_minor v)"

definition cpu_typed :: "CpuInfo \<Rightarrow> bool" where
  "cpu_typed c \<longleftrightarrow> byte (cpu_cores c) \<and> - (2 ^ 15) \<le> cache_size c \<and> cache_size c < 2 ^ 15 \<and>
     length (cpu_vendor_name c) < BUFFER_SIZE \<and> newline \<notin> set (cpu_name c)"

lemma store_words_ok:
  assumes "store_words vs bufs = Inr bufs1" "\<forall>w. Some w \<in> set bufs \<longrightarrow> length w < BUFFER_SIZE"
  shows "length bufs1 = length bufs \<and> (\<forall>w. Some w \<in> set bufs1 \<longrightarrow> length w < BUFFER_SIZE)"
  using assms by (induction vs bufs arbitrary: bufs1 rule: store_words.induct) (auto split: if_splits)

lemma known_nth:
  assumes "buffers_ok bufs" "known (bufs ! i) = Inr w" "i < 3"
  shows "length w < BUFFER_SIZE"
proof -
  have "bufs ! i = Some w" using assms(2) by (auto simp: known_def split: option.splits)
  moreover have "bufs ! i \<in> set bufs" using assms(1,3) by (simp add: buffers_ok_def)
  ultimately show ?thesis using assms(1) by (simp add: buffers_ok_def)
qed

lemma gigabytes_range: "0 \<le> gigabytes b u \<and> in_i64 (gigabytes b u)"
proof -
  have "b * u mod 2 ^ 64 < 2 ^ 64" by simp
  then have "b * u mod 2 ^ 64 div 10 ^ 9 \<le> 2 ^ 64 div 10 ^ 9" by (intro div_le_mono) simp
  then have "int (b * u mod 2 ^ 64 div 10 ^ 9) \<le> int (2 ^ 64 div 10 ^ 9)" by (rule of_nat_mono)
  then show ?thesis by (simp add: gigabytes_def in_i64_def)
qed

lemma storage_of_typed:
  assumes "storage_of statfs d mp fs = Inr si" "hd (d @ [CHR 0x00]) = CHR ''/''"
    "length d < BUFFER_SIZE" "length mp < BUFFER_SIZE" "length fs < BUFFER_SIZE"
  shows "storage_typed si"
  using assms gigabytes_range by (auto simp: storage_of_def storage_typed_def split: option.splits)

lemma scan_mounts_typed:
  "scan_mounts statfs bufs s = Inr sis \<Longrightarrow> buffers_ok bufs \<Longrightarrow> list_all storage_typed sis"
proof (induction statfs bufs s arbitrary: sis rule: scan_mounts.induct)
  case (1 statfs bufs s)
  show ?case
  proof (cases "scan_eof (scanf mount_format s)")
    case True
    with "1.prems"(1) show ?thesis by (subst (asm) scan_mounts.simps) simp
  next
    case False
    from "1.prems"(1) False obtain bufs1 d fs mp where
      b: "store_words (fst (scanf mount_format s)) bufs = Inr bufs1"
        "known (bufs1 ! 0) = Inr d" "known (bufs1 ! 2) = Inr fs" "known (bufs1 ! 1) = Inr mp"
      and rest: "(if hd (d @ [CHR 0x00]) \<noteq> CHR ''/'' then scan_mounts statfs bufs1 (fst (snd (scanf mount_format s)))
         else rbind (storage_of statfs d mp fs) (\<lambda>si.
           rbind (scan_mounts statfs bufs1 (fst (snd (scanf mount_format s)))) (\<lambda>sis. Inr (si # sis)))) = Inr sis"
      by (subst (asm) scan_mounts.simps) (auto simp: Let_def)
    have ok: "buffers_ok bufs1" using store_words_ok [OF b(1)] "1.prems"(2) by (simp add: buffers_ok_def)
    note lens = known_nth [OF ok b(2)] known_nth [OF ok b(3)] known_nth [OF ok b(4)]
    show ?thesis
    proof (cases "hd (d @ [CHR 0x00]) = CHR ''/''")
      case True
      with rest obtain si sis1 where si: "storage_of statfs d mp fs = Inr si" "sis = si # sis1"
        "scan_mounts statfs bufs1 (fst (snd (scanf mount_format s))) = Inr sis1" by auto
      from "1.IH"(2) [OF refl False _ si(3) ok] True have "list_all storage_typed sis1" by simp
      with storage_of_typed [OF si(1) True] lens si(2) show ?thesis by simp
    next
      case not: False
      with rest have "scan_mounts statfs bufs1 (fst (snd (scanf mount_format s))) = Inr sis" by simp
      from "1.IH"(1) [OF refl False not this ok] show ?thesis .
    qed
  qed
qed

lemma int_or_byte: "byte (int_or 0 store_byte vs)"
  by (auto simp: int_or_def store_byte_def byte_def split: list.splits scan_value.splits)

lemma to_i16_range: "- (2 ^ 15) \<le> to_i16 n \<and> to_i16 n < 2 ^ 15"
  using sint_ge [of "word_of_int n :: 16 word"] sint_lt [of "word_of_int n :: 16 word"] by (simp add: to_i16_def)

lemma int_or_i16: "- (2 ^ 15) \<le> int_or 0 to_i16 vs \<and> int_or 0 to_i16 vs < 2 ^ 15"
  using to_i16_range by (auto simp: int_or_def split: list.splits scan_value.splits)

lemma kernel_version_typed: "version_typed (kernel_version s)"
  using int_or_byte by (auto simp: kernel_version_def version_typed_def default_version_def byte_def split: list.splits)


lemma vendor_word_short: "vendor_word vs = Inr w \<Longrightarrow> length w < BUFFER_SIZE"
  by (auto simp: vendor_word_def split: list.splits scan_value.splits if_splits)

lemma rest_of_line_no_newline: "rest_of_line s = Some (l, r) \<Longrightarrow> newline \<notin> set l"
  by (auto simp: rest_of_line_def bind_eq_Some_conv dest: set_takeWhileD)

lemma cpuinfo_tail_typed:
  assumes "cpuinfo_tail vendor model s = Some c" "length vendor < BUFFER_SIZE" "newline \<notin> set model"
  shows "cpu_typed c"
proof -
  obtain s1 where s1: "skip_lines 3 s = Some s1" using assms(1) by (auto simp: cpuinfo_tail_def bind_eq_Some_conv)
  obtain vs s2 e where scan: "scanf cache_format s1 = (vs, s2, e)" by (metis prod.exhaust)
  obtain s3 where "c = \<lparr>cpu_cores = int_or 0 store_byte (fst (scanf cores_format s3)), cache_size = int_or 0 to_i16 vs,
      arch = kX86_64, cpu_name = model, cpu_vendor_name = vendor\<rparr>"
    using assms(1) s1 scan by (auto simp: cpuinfo_tail_def bind_eq_Some_conv)
  with assms(2,3) int_or_byte int_or_i16 show ?thesis by (simp add: cpu_typed_def)
qed

lemma cpuinfo_report_typed:
  assumes "cpuinfo_report f = Some (Inr c)"
  shows "cpu_typed c"
proof -
  obtain s where f: "f = Some s" using assms by (cases f) (simp_all add: cpuinfo_report_def)
  obtain s1 where s1: "skip_line s = Some s1" using assms f by (auto simp: cpuinfo_report_def bind_eq_Some_conv)
  obtain vs s2 e where scan: "scanf vendor_format s1 = (vs, s2, e)" by (metis prod.exhaust)
  obtain vendor where v: "vendor_word vs = Inr vendor"
    using assms f s1 scan by (cases "vendor_word vs") (simp_all add: cpuinfo_report_def)
  obtain s3 model s4 where m: "rest_of_line (fst (snd (scanf model_format s3))) = Some (model, s4)"
    "cpuinfo_tail vendor model s4 = Some c"
    using assms f s1 scan v by (auto simp: cpuinfo_report_def bind_eq_Some_conv)
  show ?thesis
    by (rule cpuinfo_tail_typed [OF m(2) vendor_word_short [OF v] rest_of_line_no_newline [OF m(1)]])
qed

text \<open>
  C37. Whatever the files and the system calls say, a report that is built is well formed: every
  storage device is a path, its three names fit their buffers and its sizes are not negative
  and fit 64 bits; the cache size fits 16 bits, the number of cores and the parts of the
  kernel version one byte, and the model is one line.
\<close>

theorem sys_report_typed:
  assumes "sys_report version m = Some (Inr info)"
  shows "list_all storage_typed (sys_storage_info info) \<and> cpu_typed (cpu_info info) \<and>
    version_typed (os_version info) \<and> client_version info = version"
proof -
  obtain sis ns where sis: "mounts_report m = Inr sis" "network_report (m_ifaddrs m) = Inr ns"
    using assms by (cases "mounts_report m"; cases "network_report (m_ifaddrs m)") (simp_all add: sys_report_def)
  obtain cpu where cpu: "cpuinfo_report (m_cpuinfo m) = Some (Inr cpu)"
    and info: "info = \<lparr>uptime = m_uptime m, system_name = m_sysname m, host_name = m_nodename m,
            os_version = kernel_version (m_release m), client_version = version,
            cpu_info = cpu\<lparr>arch := machine_arch (m_machine m)\<rparr>,
            sys_storage_info = sis, sys_network_info = ns, sys_temp_info = []\<rparr>"
    using assms sis by (auto simp: sys_report_def)
  have "list_all storage_typed sis"
    using sis(1) scan_mounts_typed [of "m_statfs m" "[None, None, None]"]
    by (auto simp: mounts_report_def buffers_ok_def split: option.splits)
  with cpuinfo_report_typed [OF cpu] kernel_version_typed info show ?thesis
    by (simp add: cpu_typed_def)
qed

definition full_machine :: machine where
  "full_machine = sample_machine\<lparr>m_cpuinfo := Some (cpuinfo_text '' '' ''p'' ''Intel'' [[], []] ''Core'' [[], [], []] 64 [[], [], []] 4 [])\<rparr>"

lemma full_machine_reports:
  "\<exists>info. sys_report default_version full_machine = Some (Inr info) \<and> length (sys_storage_info info) = 1"
proof -
  have b: "blanks '' ''" "plain_word ''Intel''" "starts_word ''Core''"
    by (simp_all add: blanks_def plain_word_def BUFFER_SIZE_def is_space_def)
  have "cpuinfo_report (m_cpuinfo full_machine) =
      map_option Inr (cpuinfo_tail ''Intel'' ''Core'' (cpuinfo_rest '' '' [[], [], []] 64 [[], [], []] 4 []))"
    using cpuinfo_report_names [OF b] by (simp add: full_machine_def newline_def)
  moreover have "\<exists>c. cpuinfo_tail ''Intel'' ''Core'' (cpuinfo_rest '' '' [[], [], []] 64 [[], [], []] 4 []) = Some c"
    using cpuinfo_tail_reads [OF b(1), of "[[], [], []]" "[[], [], []]"] by (simp add: cpuinfo_rest_def)
  moreover have "\<exists>si. mounts_report full_machine = Inr [si]"
    using scan_mounts_lines [of "[(''proc'', ''/proc'', ''proc'', ''rw''), (''/dev/sda1'', ''/'', ''ext4'', ''rw'')]"
        "m_statfs full_machine" "[None, None, None]"]
    by (simp add: mounts_report_def full_machine_def sample_machine_def mount_ok_def plain_word_def BUFFER_SIZE_def
        is_space_def is_device_def)
  moreover have "\<exists>ns. network_report (m_ifaddrs full_machine) = Inr ns"
    by (simp add: network_report_def full_machine_def sample_machine_def)
  ultimately show ?thesis by (auto simp: sys_report_def)
qed

theorem sys_report_typed_witness:
  "\<exists>info. sys_report default_version full_machine = Some (Inr info) \<and>
     length (sys_storage_info info) = 1 \<and> list_all storage_typed (sys_storage_info info)"
proof -
  obtain info where info: "sys_report default_version full_machine = Some (Inr info)" "length (sys_storage_info info) = 1"
    using full_machine_reports by blast
  with sys_report_typed [OF info(1)] show ?thesis by blast
qed

end
