(* ===== verification/Reporter_System.thy ===== *)
theory Reporter_System
  imports Rms_Reporter_Client Sys_Reporter
begin

text \<open>
  The reporter as a whole: the consumers (\<open>consumer.h\<close> and \<open>consumer/*.cpp\<close>), the threads of
  the executors, the worker of the request client, and the main thread with
  \<open>RmsReporterClient::start\<close> and \<open>stop\<close>, interleaved. Every step is one action of one thread.
\<close>

section \<open>Consumers\<close>

datatype consumer_kind = Cpu_Consumer nat | Ram_Consumer | Ping_Consumer

text \<open>
  Where the thread of a consumer is: not created, at the head of its loop, reading the
  machine, waiting for the mutex with a request, before the release of the semaphore, in
  the given second of its pause, or ended.
\<close>

datatype consumer_pc =
  C_None | C_Check | C_Report | C_Append queued_request | C_Release | C_Sleep nat | C_Ended

record consumer =
  c_kind :: consumer_kind
  c_timeout :: int
  is_consuming :: bool
  c_pc :: consumer_pc

definition new_consumer :: "consumer_kind \<Rightarrow> int \<Rightarrow> consumer" where
  "new_consumer k t = \<lparr>c_kind = k, c_timeout = t, is_consuming = False, c_pc = C_None\<rparr>"

text \<open>The consumers that \<open>RmsReporterClient\<close> creates, from the number of cores the machine reports.\<close>

definition new_consumers :: "nat \<Rightarrow> RmsConfig \<Rightarrow> consumer list res \<times> RmsConfig" where
  "new_consumers cores cfg =
     (let (t1, cfg1) = consumer_timeout RMS_REPORTER_CONFIG_TIMEOUT cfg
      in case t1 of Inl e \<Rightarrow> (Inl e, cfg1) | Inr a \<Rightarrow>
     (let (t2, cfg2) = consumer_timeout RMS_REPORTER_CONFIG_TIMEOUT cfg1
      in case t2 of Inl e \<Rightarrow> (Inl e, cfg2) | Inr b \<Rightarrow>
     (let (t3, cfg3) = consumer_timeout RMS_REPORTER_CONFIG_PING_TIMEOUT cfg2
      in (rbind t3 (\<lambda>c. Inr [new_consumer (Cpu_Consumer (cores * 2)) a, new_consumer Ram_Consumer b,
                             new_consumer Ping_Consumer c]), cfg3))))"

text \<open>What a consumer finds when it reads the machine.\<close>

record reading =
  stat_before :: "string option"
  stat_after :: "string option"
  meminfo :: "string option"
  clock :: int

text \<open>The request of one round; \<open>None\<close> when the reporter object does not return.\<close>

definition consumer_poll :: "consumer_kind \<Rightarrow> reading \<Rightarrow> queued_request res option" where
  "consumer_poll k rd = (case k of
     Cpu_Consumer n \<Rightarrow> Some (rbind (cpu_report n (stat_before rd) (stat_after rd)) (\<lambda>u. Inr (cpu_consume u (clock rd))))
   | Ram_Consumer \<Rightarrow> map_option (\<lambda>r. rbind r (\<lambda>u. Inr (ram_consume u (clock rd)))) (ram_report (meminfo rd))
   | Ping_Consumer \<Rightarrow> Some (Inr (ping_consume (clock rd))))"

definition consumer_step :: "nat \<Rightarrow> reading \<Rightarrow> consumer \<Rightarrow> RequestClient \<Rightarrow> (consumer \<times> RequestClient) res" where
  "consumer_step sem_max rd c q = (case c_pc c of
     C_None \<Rightarrow> Inr (c, q)
   | C_Check \<Rightarrow> Inr (c\<lparr>c_pc := if is_consuming c then C_Report else C_Ended\<rparr>, q)
   | C_Report \<Rightarrow> (case consumer_poll (c_kind c) rd of
       None \<Rightarrow> Inr (c, q)
     | Some r \<Rightarrow> rbind r (\<lambda>req. Inr (c\<lparr>c_pc := C_Append req\<rparr>, q)))
   | C_Append req \<Rightarrow>
       (if mtx_locked q then Inr (c, q) else Inr (c\<lparr>c_pc := C_Release\<rparr>, send_append req q))
   | C_Release \<Rightarrow> rbind (send_release sem_max q) (\<lambda>q1. Inr (c\<lparr>c_pc := C_Sleep 0\<rparr>, q1))
   | C_Sleep i \<Rightarrow>
       Inr (c\<lparr>c_pc := if int i < c_timeout c \<and> is_consuming c then C_Sleep (i + 1) else C_Check\<rparr>, q)
   | C_Ended \<Rightarrow> Inr (c, q))"

section \<open>The reporter\<close>

text \<open>The main thread: in \<open>start\<close>, waiting for a signal, in \<open>stop\<close>, or at its end.\<close>

datatype main_pc =
  M_Start nat | M_Start_Client | M_Wait | M_Stop nat | M_Join nat | M_Stop_Client | M_Join_Worker | M_Done

text \<open>The thread of an executor: running its command, before the release, or ended.\<close>

datatype executor_pc = E_Running | E_Release | E_Ended

text \<open>
  \<open>rp_threads\<close> has the state of the thread of each executor launched. \<open>rp_joining\<close> is the
  thread of a rejected executor that the worker, destroying it, waits for, with the jobs of
  the response that come after it.
\<close>

record reporter =
  rp_request_client :: RequestClient
  rp_consumers :: "consumer list"
  rp_main :: main_pc
  rp_executors :: RmsReporterClient
  rp_config :: RmsConfig
  rp_threads :: "executor_pc list"
  rp_joining :: "(nat \<times> job list) option"

definition new_reporter :: "consumer list \<Rightarrow> RmsConfig \<Rightarrow> reporter" where
  "new_reporter cs cfg =
     \<lparr>rp_request_client = new_request_client, rp_consumers = cs, rp_main = M_Start 0,
      rp_executors = new_reporter_client, rp_config = cfg, rp_threads = [], rp_joining = None\<rparr>"

text \<open>\<open>Consumer::start\<close>, \<open>Consumer::stop\<close> up to its join, and what the join waits for.\<close>

definition start_consumer :: "consumer \<Rightarrow> consumer" where
  [simp]: "start_consumer c = c\<lparr>is_consuming := True, c_pc := C_Check\<rparr>"

definition stop_consumer :: "consumer \<Rightarrow> consumer" where
  [simp]: "stop_consumer c = c\<lparr>is_consuming := False\<rparr>"

definition consumer_joined :: "consumer \<Rightarrow> bool" where
  [simp]: "consumer_joined c \<longleftrightarrow> c_pc c = C_Ended"

definition main_step :: "nat \<Rightarrow> reporter \<Rightarrow> reporter res" where
  "main_step sem_max s = (case rp_main s of
     M_Start k \<Rightarrow>
       (if k < length (rp_consumers s)
        then Inr (s\<lparr>rp_consumers := (rp_consumers s)[k := start_consumer (rp_consumers s ! k)], rp_main := M_Start (k + 1)\<rparr>)
        else Inr (s\<lparr>rp_main := M_Start_Client\<rparr>))
   | M_Start_Client \<Rightarrow>
       rbind (start_client (rp_request_client s)) (\<lambda>q. Inr (s\<lparr>rp_request_client := q, rp_main := M_Wait\<rparr>))
   | M_Wait \<Rightarrow> Inr s
   | M_Stop k \<Rightarrow>
       (if k < length (rp_consumers s)
        then Inr (s\<lparr>rp_consumers := (rp_consumers s)[k := stop_consumer (rp_consumers s ! k)], rp_main := M_Join k\<rparr>)
        else Inr (s\<lparr>rp_main := M_Stop_Client\<rparr>))
   | M_Join k \<Rightarrow> if consumer_joined (rp_consumers s ! k) then Inr (s\<lparr>rp_main := M_Stop (k + 1)\<rparr>) else Inr s
   | M_Stop_Client \<Rightarrow>
       rbind (stop_client sem_max (rp_request_client s)) (\<lambda>q. Inr (s\<lparr>rp_request_client := q, rp_main := M_Join_Worker\<rparr>))
   | M_Join_Worker \<Rightarrow> if pc (rp_request_client s) = Finished then Inr (s\<lparr>rp_main := M_Done\<rparr>) else Inr s
   | M_Done \<Rightarrow> Inr s)"

text \<open>
  The jobs of a response, up to a command whose executor is rejected: then the jobs that are
  left are returned.
\<close>

fun run_jobs :: "job list \<Rightarrow> RmsConfig \<Rightarrow> RmsReporterClient \<Rightarrow> RmsConfig \<times> RmsReporterClient \<times> job list option" where
  "run_jobs [] cfg rc = (cfg, rc, None)"
| "run_jobs (Run_Command cmd # js) cfg rc = (case run_command cmd cfg rc of
     (cfg1, rc1, None) \<Rightarrow> run_jobs js cfg1 rc1
   | (cfg1, rc1, Some _) \<Rightarrow> (cfg1, rc1, Some js))"
| "run_jobs (_ # js) cfg rc = run_jobs js cfg rc"

definition start_threads :: "RmsReporterClient \<Rightarrow> executor_pc list \<Rightarrow> executor_pc list" where
  "start_threads rc ts = ts @ replicate (length (launched rc) - length ts) E_Running"

definition responding :: "outcome \<Rightarrow> RequestClient \<Rightarrow> bool" where
  "responding out q \<longleftrightarrow> pc q = Sending \<and> out = Call_Ok \<and>
     (case request_queue q of [] \<Rightarrow> False | r # _ \<Rightarrow> fst r = kTCP)"

text \<open>
  The worker handles jobs while it sends, with the mutex held. The executor that a map
  rejects is the last one launched; it is destroyed at once, and its destructor waits for
  its thread.
\<close>

definition handle_jobs :: "nat \<Rightarrow> outcome \<Rightarrow> job list \<Rightarrow> reporter \<Rightarrow> reporter res" where
  "handle_jobs sem_max out js s =
     (let (cfg, rc, rest) = run_jobs js (rp_config s) (rp_executors s);
          s1 = s\<lparr>rp_config := cfg, rp_executors := rc, rp_threads := start_threads rc (rp_threads s)\<rparr>
      in case rest of
           Some js' \<Rightarrow> Inr (s1\<lparr>rp_joining := Some (length (launched rc) - 1, js')\<rparr>)
         | None \<Rightarrow> rbind (worker_step sem_max out (rp_request_client s)) (\<lambda>q.
             Inr (s1\<lparr>rp_request_client := q, rp_joining := None\<rparr>)))"

text \<open>A step of the worker; the response of a call that succeeds is handled within it.\<close>

definition sender_step :: "nat \<Rightarrow> outcome \<Rightarrow> RmsResponse \<Rightarrow> reporter \<Rightarrow> reporter res" where
  "sender_step sem_max out resp s =
     (if responding out (rp_request_client s) then (case rp_joining s of
          None \<Rightarrow> handle_jobs sem_max out (response_jobs resp) s
        | Some (k, js) \<Rightarrow> if rp_threads s ! k = E_Ended then handle_jobs sem_max out js s else Inr s)
      else if rp_joining s = None then
        rbind (worker_step sem_max out (rp_request_client s)) (\<lambda>q. Inr (s\<lparr>rp_request_client := q\<rparr>))
      else Inr s)"

text \<open>A step of the thread of an executor: its command ends, it sends its result.\<close>

definition executor_step :: "nat \<Rightarrow> nat \<Rightarrow> int \<Rightarrow> reporter \<Rightarrow> reporter res" where
  "executor_step sem_max i now s = (case rp_threads s ! i of
     E_Running \<Rightarrow>
       (if mtx_locked (rp_request_client s) then Inr s
        else Inr (s\<lparr>rp_request_client := send_append (notifyEnd now (launched (rp_executors s) ! i)) (rp_request_client s),
                    rp_threads := (rp_threads s)[i := E_Release]\<rparr>))
   | E_Release \<Rightarrow> rbind (send_release sem_max (rp_request_client s)) (\<lambda>q.
       Inr (s\<lparr>rp_request_client := q, rp_threads := (rp_threads s)[i := E_Ended]\<rparr>))
   | E_Ended \<Rightarrow> Inr s)"

datatype reporter_event =
    Main | Signal | Consume nat reading | Sender outcome RmsResponse | Command_End nat int

definition reporter_exec :: "nat \<Rightarrow> reporter_event \<Rightarrow> reporter \<Rightarrow> reporter res" where
  "reporter_exec sem_max ev s = (case ev of
     Main \<Rightarrow> main_step sem_max s
   | Signal \<Rightarrow> Inr (if rp_main s = M_Wait then s\<lparr>rp_main := M_Stop 0\<rparr> else s)
   | Consume i rd \<Rightarrow>
       (if i < length (rp_consumers s)
        then rbind (consumer_step sem_max rd (rp_consumers s ! i) (rp_request_client s)) (\<lambda>(c, q).
          Inr (s\<lparr>rp_consumers := (rp_consumers s)[i := c], rp_request_client := q\<rparr>))
        else Inr s)
   | Sender out resp \<Rightarrow> sender_step sem_max out resp s
   | Command_End i now \<Rightarrow> if i < length (rp_threads s) then executor_step sem_max i now s else Inr s)"

text \<open>Runs of the reporter whose events satisfy \<open>allowed\<close>, without a failure.\<close>

inductive reporter_run :: "nat \<Rightarrow> (reporter_event \<Rightarrow> bool) \<Rightarrow> reporter \<Rightarrow> reporter \<Rightarrow> bool"
  for sem_max allowed s
where
  reporter_refl: "reporter_run sem_max allowed s s"
| reporter_more: "reporter_run sem_max allowed s s1 \<Longrightarrow> allowed ev \<Longrightarrow> reporter_exec sem_max ev s1 = Inr s2 \<Longrightarrow>
    reporter_run sem_max allowed s s2"

section \<open>The reporter as a run of its request client\<close>

text \<open>What the consumers and the executors send.\<close>

definition reporter_request :: "queued_request \<Rightarrow> bool" where
  "reporter_request r \<longleftrightarrow> fst r = kTCP \<and>
     (data_count (rq_header (snd r)) = int (length (rq_items (snd r))) \<or> (\<exists>now e. r = notifyEnd now e))"

lemma reporter_request_simps [simp]:
  "reporter_request (cpu_consume u t)" "reporter_request (ram_consume m t)" "reporter_request (ping_consume t)"
  "reporter_request (notifyEnd t e)"
  by (auto simp: reporter_request_def cpu_consume_def ram_consume_def ping_consume_def consumer_request_def notifyEnd_def)

lemma consumer_poll_request: "consumer_poll k rd = Some (Inr r) \<Longrightarrow> reporter_request r"
  by (auto simp: consumer_poll_def split: consumer_kind.splits)

lemma log_ok_reporter_request: "reporter_request r \<Longrightarrow> log_ok r"
  by (simp add: reporter_request_def log_ok_def)

definition consumer_ok :: "consumer \<Rightarrow> bool" where
  "consumer_ok c \<longleftrightarrow> (case c_pc c of C_Append r \<Rightarrow> reporter_request r | _ \<Rightarrow> True)"

definition releasing :: "reporter \<Rightarrow> nat" where
  "releasing s = length (List.filter (\<lambda>c. c_pc c = C_Release) (rp_consumers s)) +
     length (List.filter (\<lambda>t. t = E_Release) (rp_threads s))"

definition reporter_ok :: "reporter \<Rightarrow> bool" where
  "reporter_ok s \<longleftrightarrow> unreleased (rp_request_client s) = releasing s \<and>
     length (rp_threads s) = length (launched (rp_executors s)) \<and> (\<forall>c \<in> set (rp_consumers s). consumer_ok c)"

lemma length_filter_update:
  "i < length xs \<Longrightarrow>
     length (List.filter P (xs[i := y])) + (if P (xs ! i) then 1 else 0) = length (List.filter P xs) + (if P y then 1 else 0)"
proof (induction xs arbitrary: i)
  case (Cons x xs)
  then show ?case by (cases i) auto
qed simp

lemma filter_pos_of_nth: "i < length xs \<Longrightarrow> P (xs ! i) \<Longrightarrow> 0 < length (List.filter P xs)"
  using nth_mem by (fastforce simp: filter_empty_conv)

lemma consumer_step_cases:
  assumes "consumer_step sem_max rd c q = Inr (c', q')" "consumer_ok c"
  shows "consumer_ok c' \<and>
    (q' = q \<and> c_pc c \<noteq> C_Release \<and> c_pc c' \<noteq> C_Release \<or>
     (\<exists>r. reporter_request r \<and> \<not> mtx_locked q \<and> q' = send_append r q \<and> c_pc c \<noteq> C_Release \<and> c_pc c' = C_Release) \<or>
     c_pc c = C_Release \<and> send_release sem_max q = Inr q' \<and> c_pc c' \<noteq> C_Release)"
proof (cases "c_pc c")
  case (C_Append r)
  with assms(2) have r: "reporter_request r" by (simp add: consumer_ok_def)
  show ?thesis
  proof (cases "mtx_locked q")
    case True
    with C_Append assms show ?thesis by (auto simp: consumer_step_def)
  next
    case False
    with C_Append assms(1) have "q' = send_append r q" "c_pc c' = C_Release" by (auto simp: consumer_step_def)
    moreover from this(2) have "consumer_ok c'" by (simp add: consumer_ok_def)
    moreover have "c_pc c \<noteq> C_Release" using C_Append by simp
    ultimately show ?thesis using False r by blast
  qed
next
  case C_Report
  show ?thesis
  proof (cases "consumer_poll (c_kind c) rd")
    case None
    with C_Report assms show ?thesis by (auto simp: consumer_step_def)
  next
    case (Some r)
    with C_Report assms(1) obtain req where "r = Inr req" "c' = c\<lparr>c_pc := C_Append req\<rparr>" "q' = q"
      by (auto simp: consumer_step_def)
    with Some C_Report show ?thesis by (auto simp: consumer_ok_def dest: consumer_poll_request)
  qed
next
  case C_Release
  with assms show ?thesis by (auto simp: consumer_step_def consumer_ok_def)
next
  case (C_Sleep i)
  with assms have "q' = q" "c_pc c' = C_Check \<or> c_pc c' = C_Sleep (i + 1)"
    by (auto simp: consumer_step_def split: if_splits)
  with C_Sleep show ?thesis by (auto simp: consumer_ok_def)
next
  case C_Check
  with assms have "q' = q" "c_pc c' = C_Report \<or> c_pc c' = C_Ended"
    by (auto simp: consumer_step_def split: if_splits)
  with C_Check show ?thesis by (auto simp: consumer_ok_def)
qed (use assms in \<open>simp_all add: consumer_step_def\<close>)

lemma unreleased_worker: "worker_step sem_max out q = Inr q' \<Longrightarrow> unreleased q' = unreleased q"
  by (cases "pc q")
    (auto simp: worker_step_def send_defs release_permit_def connect_attempt_def
      split: if_splits list.splits outcome.splits option.splits)

lemma launched_run_jobs:
  "run_jobs js cfg rc = (cfg', rc', b) \<Longrightarrow> length (launched rc) \<le> length (launched rc')"
proof (induction js cfg rc arbitrary: cfg' rc' b rule: run_jobs.induct)
  case (2 cmd js cfg rc)
  obtain cfg1 rc1 rej where r: "run_command cmd cfg rc = (cfg1, rc1, rej)" by (metis prod.exhaust)
  then have "length (launched rc) \<le> length (launched rc1)"
    by (auto simp: run_command_def emplace_executor_def Let_def split: prod.splits if_splits)
  with 2 r show ?case by (cases rej) fastforce+
qed auto

lemma filter_start_threads [simp]:
  "List.filter (\<lambda>t. t = E_Release) (start_threads rc ts) = List.filter (\<lambda>t. t = E_Release) ts"
  by (simp add: start_threads_def)

lemma length_start_threads: "length ts \<le> length (launched rc) \<Longrightarrow> length (start_threads rc ts) = length (launched rc)"
  by (simp add: start_threads_def)

text \<open>One event of the reporter is at most one event of the request client.\<close>

definition simulates :: "nat \<Rightarrow> RequestClient \<Rightarrow> RequestClient \<Rightarrow> bool" where
  "simulates sem_max q q' \<longleftrightarrow> q' = q \<or> (\<exists>ev. client_enabled ev q \<and> client_exec sem_max ev q = Inr q' \<and>
     (\<forall>r. ev = Append r \<longrightarrow> reporter_request r))"

lemma simulates_refl [simp]: "simulates sem_max q q"
  by (simp add: simulates_def)

lemma simulatesI:
  "client_enabled ev q \<Longrightarrow> client_exec sem_max ev q = Inr q' \<Longrightarrow> (\<And>r. ev = Append r \<Longrightarrow> reporter_request r) \<Longrightarrow>
     simulates sem_max q q'"
  by (auto simp: simulates_def)

lemma simulates_append: "reporter_request r \<Longrightarrow> \<not> mtx_locked q \<Longrightarrow> simulates sem_max q (send_append r q)"
  by (rule simulatesI [of "Append r"]) (simp_all add: client_enabled_def client_exec_def)

lemma simulates_release: "0 < unreleased q \<Longrightarrow> send_release sem_max q = Inr q' \<Longrightarrow> simulates sem_max q q'"
  by (rule simulatesI [of Release]) (simp_all add: client_enabled_def client_exec_def)

lemma simulates_worker: "worker_step sem_max out q = Inr q' \<Longrightarrow> simulates sem_max q q'"
  by (rule simulatesI [of "Worker out"]) (simp_all add: client_enabled_def client_exec_def)

lemma unreleased_send_append [simp]: "unreleased (send_append r q) = unreleased q + 1"
  by (simp add: send_append_def push_request_def)

lemma unreleased_send_release: "send_release sem_max q = Inr q' \<Longrightarrow> unreleased q' = unreleased q - 1"
  by (auto simp: send_release_def release_permit_def split: if_splits)

lemma releasing_consumer:
  assumes "i < length (rp_consumers s)" "rp_consumers s' = (rp_consumers s)[i := c]" "rp_threads s' = rp_threads s"
  shows "releasing s' + (if c_pc (rp_consumers s ! i) = C_Release then 1 else 0) =
    releasing s + (if c_pc c = C_Release then 1 else 0)"
  using length_filter_update [OF assms(1), of "\<lambda>c. c_pc c = C_Release" c] assms(2,3) by (simp add: releasing_def)

lemma releasing_thread:
  assumes "i < length (rp_threads s)" "rp_threads s' = (rp_threads s)[i := t]" "rp_consumers s' = rp_consumers s"
  shows "releasing s' + (if rp_threads s ! i = E_Release then 1 else 0) = releasing s + (if t = E_Release then 1 else 0)"
  using length_filter_update [OF assms(1), of "\<lambda>t. t = E_Release" t] assms(2,3) by (simp add: releasing_def)

lemma releasing_pos:
  "i < length (rp_consumers s) \<Longrightarrow> c_pc (rp_consumers s ! i) = C_Release \<Longrightarrow> 0 < releasing s"
  "i < length (rp_threads s) \<Longrightarrow> rp_threads s ! i = E_Release \<Longrightarrow> 0 < releasing s"
  using filter_pos_of_nth [of i "rp_consumers s" "\<lambda>c. c_pc c = C_Release"]
    filter_pos_of_nth [of i "rp_threads s" "\<lambda>t. t = E_Release"] by (simp_all add: releasing_def)

definition good_step :: "nat \<Rightarrow> reporter \<Rightarrow> reporter \<Rightarrow> bool" where
  "good_step sem_max s s' \<longleftrightarrow> reporter_ok s' \<and> simulates sem_max (rp_request_client s) (rp_request_client s')"

lemma good_consume:
  assumes "reporter_ok s" "i < length (rp_consumers s)"
    "consumer_step sem_max rd (rp_consumers s ! i) (rp_request_client s) = Inr (c, q)"
  shows "good_step sem_max s (s\<lparr>rp_consumers := (rp_consumers s)[i := c], rp_request_client := q\<rparr>)"
proof -
  let ?c = "rp_consumers s ! i" and ?q = "rp_request_client s"
  let ?s = "s\<lparr>rp_consumers := (rp_consumers s)[i := c], rp_request_client := q\<rparr>"
  have un: "unreleased ?q = releasing s" using assms(1) by (simp add: reporter_ok_def)
  have rel: "releasing ?s + (if c_pc ?c = C_Release then 1 else 0) = releasing s + (if c_pc c = C_Release then 1 else 0)"
    by (rule releasing_consumer [OF assms(2)]) simp_all
  have ok: "consumer_ok ?c" using assms(1,2) by (simp add: reporter_ok_def)
  note cs = consumer_step_cases [OF assms(3) ok]
  then consider "q = ?q" "c_pc ?c \<noteq> C_Release" "c_pc c \<noteq> C_Release"
    | r where "reporter_request r" "\<not> mtx_locked ?q" "q = send_append r ?q" "c_pc ?c \<noteq> C_Release" "c_pc c = C_Release"
    | "c_pc ?c = C_Release" "send_release sem_max ?q = Inr q" "c_pc c \<noteq> C_Release" by blast
  then have "unreleased q = releasing ?s \<and> simulates sem_max ?q q"
  proof cases
    case 1
    then show ?thesis using rel un by simp
  next
    case 2
    then show ?thesis using rel un by (simp add: simulates_append)
  next
    case 3
    have "0 < unreleased ?q" using releasing_pos(1) [OF assms(2) 3(1)] un by simp
    with 3 rel un unreleased_send_release [OF 3(2)] show ?thesis by (simp add: simulates_release)
  qed
  moreover have "\<forall>x \<in> set ((rp_consumers s)[i := c]). consumer_ok x"
    using assms(1) cs set_update_subset_insert [of "rp_consumers s" i c] by (auto simp: reporter_ok_def)
  ultimately show ?thesis using assms(1) by (simp add: good_step_def reporter_ok_def)
qed

lemma good_executor:
  assumes "reporter_ok s" "i < length (rp_threads s)" "executor_step sem_max i now s = Inr s'"
  shows "good_step sem_max s s'"
proof -
  have un: "unreleased (rp_request_client s) = releasing s" using assms(1) by (simp add: reporter_ok_def)
  show ?thesis
  proof (cases "rp_threads s ! i")
    case E_Running
    show ?thesis
    proof (cases "mtx_locked (rp_request_client s)")
      case True
      with E_Running assms show ?thesis by (simp add: executor_step_def good_step_def)
    next
      case False
      let ?r = "notifyEnd now (launched (rp_executors s) ! i)"
      have s': "s' = s\<lparr>rp_request_client := send_append ?r (rp_request_client s), rp_threads := (rp_threads s)[i := E_Release]\<rparr>"
        using E_Running False assms(3) by (simp add: executor_step_def)
      have "releasing s' = releasing s + 1"
        using releasing_thread [OF assms(2), of s' E_Release] E_Running s' by simp
      with False un assms(1) show ?thesis
        unfolding s' good_step_def reporter_ok_def by (simp add: simulates_append)
    qed
  next
    case E_Release
    then obtain q where q: "send_release sem_max (rp_request_client s) = Inr q"
      "s' = s\<lparr>rp_request_client := q, rp_threads := (rp_threads s)[i := E_Ended]\<rparr>"
      using assms(3) by (auto simp: executor_step_def)
    have "releasing s' + 1 = releasing s" using releasing_thread [OF assms(2), of s' E_Ended] E_Release q(2) by simp
    with q un assms(1) unreleased_send_release [OF q(1)] show ?thesis
      unfolding good_step_def reporter_ok_def by (simp add: simulates_release)
  next
    case E_Ended
    with assms show ?thesis by (simp add: executor_step_def good_step_def)
  qed
qed

text \<open>A step of the worker leaves everything as it is, or is a step of the request client, or handles jobs.\<close>

lemma sender_step_cases:
  assumes "sender_step sem_max out resp s = Inr s'"
  obtains "s' = s"
  | q where "worker_step sem_max out (rp_request_client s) = Inr q" "s' = s\<lparr>rp_request_client := q\<rparr>"
  | js where "responding out (rp_request_client s)" "handle_jobs sem_max out js s = Inr s'"
  using assms unfolding sender_step_def by (fastforce split: if_splits option.splits)

lemma handle_jobs_cases:
  assumes "handle_jobs sem_max out js s = Inr s'"
  obtains cfg rc js' where "run_jobs js (rp_config s) (rp_executors s) = (cfg, rc, Some js')"
    "s' = s\<lparr>rp_config := cfg, rp_executors := rc, rp_threads := start_threads rc (rp_threads s),
      rp_joining := Some (length (launched rc) - 1, js')\<rparr>"
  | cfg rc q where "run_jobs js (rp_config s) (rp_executors s) = (cfg, rc, None)"
    "worker_step sem_max out (rp_request_client s) = Inr q"
    "s' = s\<lparr>rp_config := cfg, rp_executors := rc, rp_threads := start_threads rc (rp_threads s),
      rp_request_client := q, rp_joining := None\<rparr>"
proof -
  obtain cfg rc rest where jobs: "run_jobs js (rp_config s) (rp_executors s) = (cfg, rc, rest)" by (metis prod.exhaust)
  show ?thesis
  proof (cases rest)
    case None
    with assms jobs obtain q where "worker_step sem_max out (rp_request_client s) = Inr q"
      "s' = s\<lparr>rp_config := cfg, rp_executors := rc, rp_threads := start_threads rc (rp_threads s),
        rp_request_client := q, rp_joining := None\<rparr>"
      by (auto simp: handle_jobs_def)
    with jobs None show ?thesis by (intro that(2)) simp_all
  next
    case (Some js')
    with assms jobs show ?thesis by (intro that(1)) (auto simp: handle_jobs_def)
  qed
qed

lemma good_jobs:
  assumes "reporter_ok s" "handle_jobs sem_max out js s = Inr s'"
  shows "good_step sem_max s s'"
  using assms(2)
proof (cases rule: handle_jobs_cases)
  case (1 cfg rc js')
  with assms(1) launched_run_jobs [OF 1(1)] show ?thesis
    by (simp add: good_step_def reporter_ok_def releasing_def length_start_threads)
next
  case (2 cfg rc q)
  have "unreleased q = unreleased (rp_request_client s)" by (rule unreleased_worker [OF 2(2)])
  with 2 assms(1) launched_run_jobs [OF 2(1)] show ?thesis
    by (simp add: good_step_def reporter_ok_def releasing_def length_start_threads simulates_worker)
qed

lemma good_sender:
  assumes "reporter_ok s" "sender_step sem_max out resp s = Inr s'"
  shows "good_step sem_max s s'"
  using assms(2)
proof (cases rule: sender_step_cases)
  case (2 q)
  have "unreleased q = unreleased (rp_request_client s)" by (rule unreleased_worker [OF 2(1)])
  with 2 assms(1) show ?thesis by (simp add: good_step_def reporter_ok_def releasing_def simulates_worker)
next
  case (3 js)
  with good_jobs assms(1) show ?thesis by blast
qed (use assms(1) in \<open>simp add: good_step_def\<close>)

text \<open>While \<open>start\<close> goes through the consumers, the later ones have no thread yet.\<close>

definition starting_ok :: "reporter \<Rightarrow> bool" where
  "starting_ok s \<longleftrightarrow> (case rp_main s of
     M_Start k \<Rightarrow> \<forall>j < length (rp_consumers s). k \<le> j \<longrightarrow> c_pc (rp_consumers s ! j) = C_None | _ \<Rightarrow> True)"

lemma good_main_start:
  assumes "reporter_ok s" "starting_ok s" "main_step sem_max s = Inr s'" "rp_main s = M_Start k"
  shows "good_step sem_max s s' \<and> starting_ok s'"
proof (cases "k < length (rp_consumers s)")
  case True
  let ?c = "(rp_consumers s ! k)\<lparr>is_consuming := True, c_pc := C_Check\<rparr>"
  have none: "c_pc (rp_consumers s ! k) = C_None" using assms(2,4) True by (simp add: starting_ok_def)
  have s': "s' = s\<lparr>rp_consumers := (rp_consumers s)[k := ?c], rp_main := M_Start (k + 1)\<rparr>"
    using assms(3,4) True by (simp add: main_step_def)
  have "releasing s' = releasing s" using releasing_consumer [OF True, of s' ?c] s' none by simp
  moreover have "\<forall>x \<in> set ((rp_consumers s)[k := ?c]). consumer_ok x"
    using assms(1) set_update_subset_insert [of "rp_consumers s" k ?c] by (auto simp: reporter_ok_def consumer_ok_def)
  ultimately have "good_step sem_max s s'" using assms(1) s' by (simp add: good_step_def reporter_ok_def)
  moreover have "starting_ok s'" using assms(2,4) s' by (simp add: starting_ok_def)
  ultimately show ?thesis by simp
next
  case False
  with assms show ?thesis
    by (auto simp: main_step_def good_step_def reporter_ok_def releasing_def starting_ok_def)
qed

lemma good_main_stop:
  assumes "reporter_ok s" "starting_ok s" "main_step sem_max s = Inr s'" "rp_main s = M_Stop k"
  shows "good_step sem_max s s' \<and> starting_ok s'"
proof (cases "k < length (rp_consumers s)")
  case True
  let ?c = "(rp_consumers s ! k)\<lparr>is_consuming := False\<rparr>"
  have s': "s' = s\<lparr>rp_consumers := (rp_consumers s)[k := ?c], rp_main := M_Join k\<rparr>"
    using assms(3,4) True by (simp add: main_step_def)
  have "releasing s' = releasing s" using releasing_consumer [OF True, of s' ?c] s' by (simp split: if_splits)
  moreover have "consumer_ok (rp_consumers s ! k)" using assms(1) True by (simp add: reporter_ok_def)
  then have "\<forall>x \<in> set ((rp_consumers s)[k := ?c]). consumer_ok x"
    using assms(1) set_update_subset_insert [of "rp_consumers s" k ?c]
    by (auto simp: reporter_ok_def consumer_ok_def split: consumer_pc.splits)
  ultimately show ?thesis using assms(1) s' by (simp add: good_step_def reporter_ok_def starting_ok_def)
next
  case False
  with assms show ?thesis
    by (auto simp: main_step_def good_step_def reporter_ok_def releasing_def starting_ok_def)
qed

lemma good_main:
  assumes "reporter_ok s" "starting_ok s" "main_step sem_max s = Inr s'"
  shows "good_step sem_max s s' \<and> starting_ok s'"
proof (cases "rp_main s")
  case (M_Start k)
  with assms show ?thesis by (rule good_main_start)
next
  case M_Start_Client
  then obtain q where q: "start_client (rp_request_client s) = Inr q" "s' = s\<lparr>rp_request_client := q, rp_main := M_Wait\<rparr>"
    using assms(3) by (auto simp: main_step_def)
  have "simulates sem_max (rp_request_client s) q"
    by (rule simulatesI [of Start]) (use q in \<open>simp_all add: client_enabled_def client_exec_def\<close>)
  moreover have "unreleased q = unreleased (rp_request_client s)"
    using q(1) by (auto simp: start_client_def split: if_splits)
  ultimately show ?thesis using q assms(1) by (simp add: good_step_def reporter_ok_def releasing_def starting_ok_def)
next
  case M_Stop_Client
  then obtain q where q: "stop_client sem_max (rp_request_client s) = Inr q"
      "s' = s\<lparr>rp_request_client := q, rp_main := M_Join_Worker\<rparr>"
    using assms(3) by (auto simp: main_step_def)
  have "simulates sem_max (rp_request_client s) q"
    by (rule simulatesI [of Stop]) (use q in \<open>simp_all add: client_enabled_def client_exec_def\<close>)
  moreover have "unreleased q = unreleased (rp_request_client s)"
    using q(1) by (auto simp: stop_client_def release_permit_def split: if_splits)
  ultimately show ?thesis using q assms(1) by (simp add: good_step_def reporter_ok_def releasing_def starting_ok_def)
next
  case (M_Stop k)
  with assms show ?thesis by (rule good_main_stop)
qed (use assms in \<open>auto simp: main_step_def good_step_def reporter_ok_def releasing_def starting_ok_def split: if_splits\<close>)

lemma starting_ok_same:
  "rp_main s' = rp_main s \<Longrightarrow> rp_consumers s' = rp_consumers s \<Longrightarrow> starting_ok s' = starting_ok s"
  unfolding starting_ok_def by (simp only:)

lemma consumer_step_none: "c_pc c = C_None \<Longrightarrow> consumer_step sem_max rd c q = Inr (c', q') \<Longrightarrow> c' = c"
  by (simp add: consumer_step_def)

lemma sender_step_frame:
  assumes "sender_step sem_max out resp s = Inr s'"
  shows "rp_main s' = rp_main s \<and> rp_consumers s' = rp_consumers s"
  using assms
proof (cases rule: sender_step_cases)
  case (3 js)
  from 3(2) show ?thesis by (cases rule: handle_jobs_cases) simp_all
qed simp_all

lemma executor_step_frame:
  "executor_step sem_max i now s = Inr s' \<Longrightarrow> rp_main s' = rp_main s \<and> rp_consumers s' = rp_consumers s"
  by (cases "rp_threads s ! i"; cases "mtx_locked (rp_request_client s)") (auto simp: executor_step_def)

lemma good_exec:
  assumes "reporter_ok s" "starting_ok s" "reporter_exec sem_max ev s = Inr s'"
  shows "good_step sem_max s s' \<and> starting_ok s'"
proof (cases ev)
  case Main
  with assms good_main show ?thesis by (simp add: reporter_exec_def)
next
  case Signal
  with assms show ?thesis
    by (cases "rp_main s = M_Wait") (auto simp: reporter_exec_def good_step_def reporter_ok_def releasing_def starting_ok_def)
next
  case (Consume i rd)
  show ?thesis
  proof (cases "i < length (rp_consumers s)")
    case True
    then obtain c q where cq: "consumer_step sem_max rd (rp_consumers s ! i) (rp_request_client s) = Inr (c, q)"
      "s' = s\<lparr>rp_consumers := (rp_consumers s)[i := c], rp_request_client := q\<rparr>"
      using Consume assms(3) by (auto simp: reporter_exec_def)
    have "starting_ok s'"
      using assms(2) cq(2) consumer_step_none [OF _ cq(1)] True
      by (auto simp: starting_ok_def nth_list_update split: main_pc.splits)
    with good_consume [OF assms(1) True cq(1)] cq(2) show ?thesis by simp
  next
    case False
    with Consume assms show ?thesis by (simp add: reporter_exec_def good_step_def)
  qed
next
  case (Sender out resp)
  with assms(3) have step: "sender_step sem_max out resp s = Inr s'" by (simp add: reporter_exec_def)
  from sender_step_frame [OF step] have "rp_main s' = rp_main s" "rp_consumers s' = rp_consumers s" by simp_all
  with good_sender [OF assms(1) step] assms(2) show ?thesis by (simp add: starting_ok_same [of s' s])
next
  case (Command_End i now)
  show ?thesis
  proof (cases "i < length (rp_threads s)")
    case True
    with Command_End assms(3) have step: "executor_step sem_max i now s = Inr s'" by (simp add: reporter_exec_def)
    from executor_step_frame [OF step] have "rp_main s' = rp_main s" "rp_consumers s' = rp_consumers s" by simp_all
    with good_executor [OF assms(1) True step] assms(2) show ?thesis by (simp add: starting_ok_same [of s' s])
  next
    case False
    with Command_End assms show ?thesis by (simp add: reporter_exec_def good_step_def)
  qed
qed

text \<open>A reporter before \<open>start\<close>: no consumer has a thread.\<close>

definition fresh_consumers :: "consumer list \<Rightarrow> bool" where
  "fresh_consumers cs \<longleftrightarrow> (\<forall>c \<in> set cs. c_pc c = C_None)"

lemma reporter_ok_new: "fresh_consumers cs \<Longrightarrow> reporter_ok (new_reporter cs cfg) \<and> starting_ok (new_reporter cs cfg)"
  by (auto simp: fresh_consumers_def reporter_ok_def starting_ok_def new_reporter_def releasing_def new_request_client_def
      new_reporter_client_def consumer_ok_def filter_empty_conv)

lemma run_simulation:
  assumes "reporter_run sem_max allowed (new_reporter cs cfg) s" "fresh_consumers cs"
  shows "reporter_ok s \<and> starting_ok s \<and>
    (\<exists>evs. client_run sem_max (\<lambda>_ _. True) new_request_client evs (Inr (rp_request_client s)) \<and>
       (\<forall>r \<in> set (appended evs). reporter_request r))"
  using assms
proof (induction rule: reporter_run.induct)
  case reporter_refl
  have "client_run sem_max (\<lambda>_ _. True) new_request_client [] (Inr (rp_request_client (new_reporter cs cfg)))"
    using client_none [of sem_max "\<lambda>_ _. True" new_request_client] by (simp add: new_reporter_def)
  then have "\<exists>evs. client_run sem_max (\<lambda>_ _. True) new_request_client evs (Inr (rp_request_client (new_reporter cs cfg))) \<and>
       (\<forall>r \<in> set (appended evs). reporter_request r)"
    by (intro exI [of _ "[]"]) simp
  with reporter_ok_new [OF reporter_refl] show ?case by blast
next
  case (reporter_more s1 ev s2)
  then obtain evs where IH: "reporter_ok s1" "starting_ok s1"
    "client_run sem_max (\<lambda>_ _. True) new_request_client evs (Inr (rp_request_client s1))"
    "\<forall>r \<in> set (appended evs). reporter_request r" by blast
  from good_exec [OF IH(1,2) reporter_more.hyps(3)]
  have good: "reporter_ok s2" "starting_ok s2" "simulates sem_max (rp_request_client s1) (rp_request_client s2)"
    by (simp_all add: good_step_def)
  from good(3) consider "rp_request_client s2 = rp_request_client s1"
    | cev where "client_enabled cev (rp_request_client s1)" "client_exec sem_max cev (rp_request_client s1) = Inr (rp_request_client s2)"
        "\<forall>r. cev = Append r \<longrightarrow> reporter_request r"
    unfolding simulates_def by blast
  then show ?case
  proof cases
    case 1
    with IH good show ?thesis by auto
  next
    case (2 cev)
    have "client_run sem_max (\<lambda>_ _. True) new_request_client (evs @ [cev]) (Inr (rp_request_client s2))"
      using client_more [OF IH(3) 2(1)] 2(2) by simp
    moreover have "\<forall>r \<in> set (appended (evs @ [cev])). reporter_request r"
      using IH(4) 2(3) by (cases cev) auto
    ultimately show ?thesis using good by blast
  qed
qed

text \<open>
  C6. The reporter refines its request client: however the main thread, the consumers, the
  executors and the worker interleave, what happens to the request client is one of its runs,
  in which every submitted request is one that a consumer or an executor builds; the
  requests delivered and those still queued are those submitted, in order; and a thread is
  between its append and its release exactly when the client counts it.
\<close>

theorem reporter_refines_client:
  assumes "reporter_run sem_max allowed (new_reporter cs cfg) s" "fresh_consumers cs"
  shows "\<exists>evs. client_run sem_max (\<lambda>_ _. True) new_request_client evs (Inr (rp_request_client s)) \<and>
    list_all reporter_request (appended evs) \<and>
    delivered (rp_request_client s) @ request_queue (rp_request_client s) = appended evs \<and>
    unreleased (rp_request_client s) = releasing s"
proof -
  obtain evs where run: "client_run sem_max (\<lambda>_ _. True) new_request_client evs (Inr (rp_request_client s))"
    "\<forall>r \<in> set (appended evs). reporter_request r" and ok: "reporter_ok s"
    using run_simulation [OF assms] by blast
  have "history_ok evs (rp_request_client s)" by (rule history_run [OF run(1) refl])
  then have "delivered (rp_request_client s) @ request_queue (rp_request_client s) = appended evs"
    unfolding history_ok_def by blast
  with run ok show ?thesis by (auto simp: reporter_ok_def list_all_iff)
qed

text \<open>Running a list of events, for concrete traces.\<close>

fun reporter_events :: "nat \<Rightarrow> reporter_event list \<Rightarrow> reporter \<Rightarrow> reporter res" where
  "reporter_events sem_max [] s = Inr s"
| "reporter_events sem_max (ev # evs) s = rbind (reporter_exec sem_max ev s) (reporter_events sem_max evs)"

lemma reporter_events_run:
  "reporter_run sem_max allowed s0 s \<Longrightarrow> list_all allowed evs \<Longrightarrow> reporter_events sem_max evs s = Inr s' \<Longrightarrow>
     reporter_run sem_max allowed s0 s'"
proof (induction evs arbitrary: s)
  case (Cons ev evs)
  then obtain s1 where "reporter_exec sem_max ev s = Inr s1" "reporter_events sem_max evs s1 = Inr s'" by auto
  with Cons show ?case by (auto intro: reporter_more)
qed simp

definition no_reading :: reading where
  "no_reading = \<lparr>stat_before = None, stat_after = None, meminfo = None, clock = 7\<rparr>"

definition no_response :: RmsResponse where
  "no_response = \<lparr>rs_header = \<lparr>timestamp = 0, data_count = 0\<rparr>, rs_items = []\<rparr>"

text \<open>A reporter with one consumer sends a ping, loses the server, and has the next ping ready.\<close>

definition outage_trace :: "reporter_event list" where
  "outage_trace = replicate 3 Main @ replicate 7 (Consume 0 no_reading) @
     replicate 5 (Sender Call_Ok no_response) @ [Sender Call_Failed no_response]"

definition ping_reporter :: reporter where
  "ping_reporter = new_reporter [new_consumer Ping_Consumer 0] initial_config"

lemmas reporter_defs = reporter_exec_def main_step_def sender_step_def handle_jobs_def executor_step_def consumer_step_def
  consumer_poll_def responding_def start_threads_def new_reporter_def new_consumer_def new_reporter_client_def

lemma fresh_ping: "fresh_consumers [new_consumer Ping_Consumer 0]"
  by (simp add: fresh_consumers_def new_consumer_def)

theorem reporter_refines_client_witness:
  "\<exists>s evs. reporter_run 2 (\<lambda>_. True) ping_reporter s \<and> rp_main s = M_Wait \<and>
     client_run 2 (\<lambda>_ _. True) new_request_client evs (Inr (rp_request_client s)) \<and> appended evs = [ping_consume 7]"
proof -
  have "\<exists>s. reporter_events 2 outage_trace ping_reporter = Inr s \<and> rp_main s = M_Wait \<and>
      delivered (rp_request_client s) @ request_queue (rp_request_client s) = [ping_consume 7]"
    by (simp add: outage_trace_def ping_reporter_def reporter_defs client_defs new_request_client_def numeral_eq_Suc
        send_front_def sendTcpRequest_def ping_consume_def consumer_request_def no_reading_def initial_config_def)
  then obtain s where s: "reporter_events 2 outage_trace ping_reporter = Inr s" "rp_main s = M_Wait"
      "delivered (rp_request_client s) @ request_queue (rp_request_client s) = [ping_consume 7]" by blast
  have run: "reporter_run 2 (\<lambda>_. True) ping_reporter s"
    by (rule reporter_events_run [OF reporter_refl _ s(1)]) (simp add: list_all_iff)
  from reporter_refines_client [OF run [unfolded ping_reporter_def] fresh_ping] obtain evs where
    evs: "client_run 2 (\<lambda>_ _. True) new_request_client evs (Inr (rp_request_client s))"
      "delivered (rp_request_client s) @ request_queue (rp_request_client s) = appended evs" by blast
  from evs(2) s(3) have "appended evs = [ping_consume 7]" by simp
  with run s(2) evs(1) show ?thesis by blast
qed

section \<open>Shutdown while the server is away\<close>

definition outage :: "reporter_event \<Rightarrow> bool" where
  "outage ev \<longleftrightarrow> (case ev of Sender out _ \<Rightarrow> out = Call_Failed | _ \<Rightarrow> True)"

text \<open>The main thread has not yet joined the \<open>k\<close>th consumer.\<close>

definition before_join :: "nat \<Rightarrow> main_pc \<Rightarrow> bool" where
  "before_join k m \<longleftrightarrow> (case m of M_Wait \<Rightarrow> True | M_Stop j \<Rightarrow> j \<le> k | M_Join j \<Rightarrow> j \<le> k | _ \<Rightarrow> False)"

definition stuck_shutdown :: "nat \<Rightarrow> queued_request \<Rightarrow> reporter \<Rightarrow> bool" where
  "stuck_shutdown k r s \<longleftrightarrow> stuck_reconnecting (rp_request_client s) \<and> k < length (rp_consumers s) \<and>
     c_pc (rp_consumers s ! k) = C_Append r \<and> before_join k (rp_main s)"

lemma stuck_send_release:
  assumes "stuck_reconnecting q" "send_release sem_max q = Inr q'"
  shows "stuck_reconnecting q' \<and> request_queue q' = request_queue q"
proof -
  have "q' = q\<lparr>unreleased := unreleased q - 1, request_counter := request_counter q + 1\<rparr>"
    using assms(2) by (simp add: send_release_def release_permit_def split: if_splits)
  with assms(1) show ?thesis by (simp add: stuck_reconnecting_def)
qed

lemma stuck_consumer_step:
  assumes "stuck_reconnecting q" "consumer_step sem_max rd c q = Inr (c', q')"
  shows "stuck_reconnecting q' \<and> request_queue q' = request_queue q \<and> (c_pc c = C_Append r \<longrightarrow> c' = c)"
proof (cases "c_pc c")
  case C_Release
  with assms(2) have "send_release sem_max q = Inr q'" by (auto simp: consumer_step_def)
  with stuck_send_release [OF assms(1)] C_Release show ?thesis by simp
next
  case (C_Append x)
  with assms show ?thesis by (auto simp: consumer_step_def stuck_reconnecting_def)
qed (use assms in \<open>auto simp: consumer_step_def split: option.splits\<close>)

lemma stuck_main_step:
  assumes "stuck_shutdown k r s" "main_step sem_max s = Inr s'"
  shows "stuck_shutdown k r s' \<and> rp_request_client s' = rp_request_client s"
proof (cases "rp_main s")
  case (M_Stop j)
  with assms have j: "j \<le> k" "j < length (rp_consumers s)" by (simp_all add: stuck_shutdown_def before_join_def)
  with M_Stop assms(2) have "s' = s\<lparr>rp_consumers := (rp_consumers s)[j := (rp_consumers s ! j)\<lparr>is_consuming := False\<rparr>],
      rp_main := M_Join j\<rparr>" by (simp add: main_step_def)
  with assms(1) j show ?thesis by (cases "j = k") (simp_all add: stuck_shutdown_def before_join_def)
next
  case (M_Join j)
  with assms(1) have "j \<le> k" "c_pc (rp_consumers s ! k) \<noteq> C_Ended" by (simp_all add: stuck_shutdown_def before_join_def)
  with M_Join assms show ?thesis
    by (cases "j = k") (auto simp: main_step_def stuck_shutdown_def before_join_def split: if_splits)
qed (use assms in \<open>auto simp: main_step_def stuck_shutdown_def before_join_def\<close>)

lemma stuck_worker_step: "stuck_reconnecting q \<Longrightarrow> worker_step sem_max Call_Failed q = Inr q"
  by (simp add: stuck_reconnecting_def worker_step_def connect_attempt_def)

lemma stuck_exec:
  assumes "stuck_shutdown k r s" "outage ev" "reporter_exec sem_max ev s = Inr s'"
  shows "stuck_shutdown k r s' \<and> request_queue (rp_request_client s') = request_queue (rp_request_client s)"
proof (cases ev)
  case Main
  with assms(3) have "main_step sem_max s = Inr s'" by (simp add: reporter_exec_def)
  from stuck_main_step [OF assms(1) this] show ?thesis by simp
next
  case Signal
  with assms(1,3) show ?thesis by (auto simp: reporter_exec_def stuck_shutdown_def before_join_def)
next
  case (Consume i rd)
  show ?thesis
  proof (cases "i < length (rp_consumers s)")
    case True
    then obtain c q where cq: "consumer_step sem_max rd (rp_consumers s ! i) (rp_request_client s) = Inr (c, q)"
      "s' = s\<lparr>rp_consumers := (rp_consumers s)[i := c], rp_request_client := q\<rparr>"
      using Consume assms(3) by (auto simp: reporter_exec_def)
    have "stuck_reconnecting (rp_request_client s)" using assms(1) by (simp add: stuck_shutdown_def)
    from stuck_consumer_step [OF this cq(1), of r] assms(1) True cq(2) show ?thesis
      by (cases "i = k") (simp_all add: stuck_shutdown_def)
  qed (use Consume assms in \<open>simp add: reporter_exec_def\<close>)
next
  case (Sender out resp)
  have q: "stuck_reconnecting (rp_request_client s)" using assms(1) by (simp add: stuck_shutdown_def)
  then have "\<not> responding out (rp_request_client s)" by (simp add: responding_def stuck_reconnecting_def)
  with Sender assms(2,3) stuck_worker_step [OF q, of sem_max] assms(1) show ?thesis
    by (cases "rp_joining s = None") (auto simp: outage_def reporter_exec_def sender_step_def stuck_shutdown_def)
next
  case (Command_End i now)
  have q: "stuck_reconnecting (rp_request_client s)" using assms(1) by (simp add: stuck_shutdown_def)
  show ?thesis
  proof (cases "i < length (rp_threads s) \<and> rp_threads s ! i = E_Release")
    case True
    then obtain q' where "send_release sem_max (rp_request_client s) = Inr q'"
      "s' = s\<lparr>rp_request_client := q', rp_threads := (rp_threads s)[i := E_Ended]\<rparr>"
      using Command_End assms(3) by (auto simp: reporter_exec_def executor_step_def)
    with stuck_send_release [OF q] assms(1) show ?thesis by (simp add: stuck_shutdown_def)
  next
    case False
    with Command_End assms q have "s' = s"
      by (auto simp: reporter_exec_def executor_step_def stuck_reconnecting_def split: if_splits executor_pc.splits)
    with assms(1) show ?thesis by simp
  qed
qed

text \<open>
  C29. The reporter cannot be shut down while the server is away: once the worker is
  reconnecting with the mutex held and a consumer waits for that mutex, no interleaving of the
  threads, a signal to terminate included, ends the process or queues another request.
\<close>

theorem outage_prevents_shutdown:
  assumes "reporter_run sem_max outage s s'" "stuck_shutdown k r s"
  shows "stuck_shutdown k r s' \<and> rp_main s' \<noteq> M_Done \<and>
    request_queue (rp_request_client s') = request_queue (rp_request_client s)"
  using assms
proof (induction rule: reporter_run.induct)
  case reporter_refl
  then show ?case by (auto simp: stuck_shutdown_def before_join_def)
next
  case (reporter_more s1 ev s2)
  then have "stuck_shutdown k r s1" by simp
  from stuck_exec [OF this reporter_more.hyps(2,3)] reporter_more show ?case
    by (auto simp: stuck_shutdown_def before_join_def)
qed

theorem outage_prevents_shutdown_witness:
  "\<exists>s s'. reporter_run 2 (\<lambda>_. True) ping_reporter s \<and> stuck_shutdown 0 (ping_consume 7) s \<and>
     reporter_run 2 outage s s' \<and> rp_main s' = M_Join 0 \<and> stuck_shutdown 0 (ping_consume 7) s'"
proof -
  have "\<exists>s. reporter_events 2 outage_trace ping_reporter = Inr s \<and> rp_main s = M_Wait \<and> length (rp_consumers s) = 1 \<and>
      stuck_shutdown 0 (ping_consume 7) s"
    by (simp add: outage_trace_def ping_reporter_def reporter_defs client_defs new_request_client_def numeral_eq_Suc
        send_front_def sendTcpRequest_def ping_consume_def consumer_request_def no_reading_def initial_config_def
        stuck_shutdown_def stuck_reconnecting_def before_join_def)
  then obtain s where s: "reporter_events 2 outage_trace ping_reporter = Inr s" "rp_main s = M_Wait"
      "length (rp_consumers s) = 1" "stuck_shutdown 0 (ping_consume 7) s" by blast
  have run: "reporter_run 2 (\<lambda>_. True) ping_reporter s"
    by (rule reporter_events_run [OF reporter_refl _ s(1)]) (simp add: list_all_iff)
  have "\<exists>s'. reporter_events 2 [Signal, Main] s = Inr s' \<and> rp_main s' = M_Join 0"
    using s(2,3) by (simp add: reporter_exec_def main_step_def)
  then obtain s' where s': "reporter_events 2 [Signal, Main] s = Inr s'" "rp_main s' = M_Join 0" by blast
  have "reporter_run 2 outage s s'"
    by (rule reporter_events_run [OF reporter_refl _ s'(1)]) (simp add: outage_def)
  with outage_prevents_shutdown [OF this s(4)] run s(4) s'(2) show ?thesis by blast
qed

section \<open>A command whose id is in use\<close>

fun command_ids :: "job list \<Rightarrow> 64 word list" where
  "command_ids [] = []"
| "command_ids (Run_Command cmd # js) = word_of_int (cmd_id cmd) # command_ids js"
| "command_ids (_ # js) = command_ids js"

lemma run_command_effect:
  assumes "run_command cmd cfg rc = (cfg1, rc1, rej)"
  shows "length (launched rc1) = length (launched rc) + 1 \<and>
    (rej = None \<longleftrightarrow> word_of_int (cmd_id cmd) \<notin> dom (executors rc)) \<and>
    (rej = None \<longrightarrow> dom (executors rc1) = insert (word_of_int (cmd_id cmd)) (dom (executors rc)))"
  using assms by (auto simp: run_command_def emplace_executor_def Let_def split: prod.splits if_splits)

text \<open>A response is handled to its end exactly if its ids are new and different; otherwise it has launched one more.\<close>

lemma run_jobs_rejects:
  assumes "run_jobs js cfg rc = (cfg', rc', rest)"
  shows "(rest = None \<longleftrightarrow> distinct (command_ids js) \<and> set (command_ids js) \<inter> dom (executors rc) = {}) \<and>
    (rest \<noteq> None \<longrightarrow> length (launched rc) < length (launched rc'))"
  using assms
proof (induction js cfg rc arbitrary: cfg' rc' rest rule: run_jobs.induct)
  case (2 cmd js cfg rc)
  obtain cfg1 rc1 rej where r: "run_command cmd cfg rc = (cfg1, rc1, rej)" by (metis prod.exhaust)
  note eff = run_command_effect [OF r]
  show ?case
  proof (cases rej)
    case None
    with 2(2) r have "run_jobs js cfg1 rc1 = (cfg', rc', rest)" by simp
    from 2(1) [OF r [symmetric] refl None this] eff None show ?thesis by auto
  next
    case (Some e)
    with 2(2) r eff show ?thesis by auto
  qed
qed auto

text \<open>The mutex is held exactly while the worker sends or reconnects.\<close>

definition lock_ok :: "RequestClient \<Rightarrow> bool" where
  "lock_ok q \<longleftrightarrow> (mtx_locked q \<longleftrightarrow> pc q = Sending \<or> pc q = Reconnecting)"

lemma lock_worker:
  assumes "worker_step sem_max out q = Inr q'" "lock_ok q"
  shows "lock_ok q' \<and> (pc q = Finished \<longrightarrow> pc q' = Finished)"
proof (cases "pc q = Sending")
  case True
  with assms have "send_step sem_max out q = Inr q'" by (simp add: worker_step_def)
  with True assms(2) show ?thesis
    by (auto simp: send_defs lock_ok_def release_permit_def split: list.splits if_splits)
next
  case False
  with assms show ?thesis
    by (cases "pc q"; cases out) (auto simp: worker_step_def connect_attempt_def lock_ok_def split: if_splits)
qed

lemma lock_event:
  assumes "client_exec sem_max ev q = Inr q'" "lock_ok q"
  shows "lock_ok q' \<and> (pc q = Finished \<longrightarrow> pc q' = Finished)"
proof (cases ev)
  case (Worker out)
  with assms lock_worker show ?thesis by (simp add: client_exec_def)
qed (use assms in \<open>auto simp: client_exec_def send_append_def push_request_def send_release_def release_permit_def
      start_client_def stop_client_def lock_ok_def split: if_splits\<close>)

lemma lock_simulates: "simulates sem_max q q' \<Longrightarrow> lock_ok q \<Longrightarrow> lock_ok q' \<and> (pc q = Finished \<longrightarrow> pc q' = Finished)"
  unfolding simulates_def using lock_event by blast

lemma done_step:
  assumes "reporter_exec sem_max ev s = Inr s'" "rp_main s \<noteq> M_Done" "rp_main s' = M_Done"
  shows "rp_request_client s' = rp_request_client s \<and> pc (rp_request_client s) = Finished"
proof (cases ev)
  case Main
  with assms show ?thesis by (auto simp: reporter_exec_def main_step_def split: main_pc.splits if_splits)
next
  case (Sender out resp)
  with assms sender_step_frame [of sem_max out resp s s'] show ?thesis by (simp add: reporter_exec_def)
next
  case (Command_End i now)
  with assms executor_step_frame [of sem_max i now s s'] show ?thesis by (simp add: reporter_exec_def split: if_splits)
qed (use assms in \<open>auto simp: reporter_exec_def split: if_splits\<close>)

lemma lock_run:
  assumes "reporter_run sem_max allowed (new_reporter cs cfg) s" "fresh_consumers cs"
  shows "lock_ok (rp_request_client s) \<and> (rp_main s = M_Done \<longrightarrow> pc (rp_request_client s) = Finished)"
  using assms
proof (induction rule: reporter_run.induct)
  case reporter_refl
  show ?case by (simp add: lock_ok_def new_reporter_def new_request_client_def)
next
  case (reporter_more s1 ev s2)
  have "simulates sem_max (rp_request_client s1) (rp_request_client s2)"
    using good_exec [OF _ _ reporter_more.hyps(3)] run_simulation [OF reporter_more.hyps(1) reporter_more.prems]
    by (simp add: good_step_def)
  with reporter_more lock_simulates [of sem_max "rp_request_client s1" "rp_request_client s2"]
    done_step [OF reporter_more.hyps(3)] show ?case by auto
qed

text \<open>
  The worker waits for the thread \<open>k\<close>, whose command runs or has ended but whose result is not
  sent, and holds the mutex that this thread needs to send it.
\<close>

definition waits_on_itself :: "nat \<Rightarrow> job list \<Rightarrow> reporter \<Rightarrow> bool" where
  "waits_on_itself k js s \<longleftrightarrow> rp_joining s = Some (k, js) \<and> k < length (rp_threads s) \<and> rp_threads s ! k = E_Running \<and>
     pc (rp_request_client s) = Sending \<and> mtx_locked (rp_request_client s) \<and> rp_main s \<noteq> M_Done"

definition same_queue :: "RequestClient \<Rightarrow> RequestClient \<Rightarrow> bool" where
  "same_queue q q' \<longleftrightarrow> request_queue q' = request_queue q \<and> submitted q' = submitted q \<and> delivered q' = delivered q \<and>
     pc q' = pc q \<and> mtx_locked q' = mtx_locked q"

lemma same_queue_refl [simp]: "same_queue q q"
  by (simp add: same_queue_def)

lemma same_queue_release: "send_release sem_max q = Inr q' \<Longrightarrow> same_queue q q'"
  by (auto simp: send_release_def release_permit_def same_queue_def split: if_splits)

lemma locked_consumer: "consumer_step sem_max rd c q = Inr (c', q') \<Longrightarrow> mtx_locked q \<Longrightarrow> same_queue q q'"
  by (cases "c_pc c") (auto simp: consumer_step_def dest: same_queue_release split: option.splits)

lemma locked_main:
  assumes "main_step sem_max s = Inr s'" "pc (rp_request_client s) = Sending" "rp_main s \<noteq> M_Done"
  shows "same_queue (rp_request_client s) (rp_request_client s') \<and> rp_threads s' = rp_threads s \<and>
    rp_joining s' = rp_joining s \<and> rp_main s' \<noteq> M_Done"
proof (cases "rp_main s")
  case M_Start_Client
  with assms show ?thesis by (auto simp: main_step_def start_client_def split: if_splits)
next
  case M_Stop_Client
  with assms show ?thesis
    by (auto simp: main_step_def stop_client_def release_permit_def same_queue_def split: if_splits)
qed (use assms in \<open>auto simp: main_step_def split: if_splits\<close>)

lemma locked_executor:
  assumes "executor_step sem_max i now s = Inr s'" "mtx_locked (rp_request_client s)" "rp_threads s ! k = E_Running"
  shows "same_queue (rp_request_client s) (rp_request_client s') \<and> length (rp_threads s') = length (rp_threads s) \<and>
    rp_threads s' ! k = E_Running \<and> rp_joining s' = rp_joining s \<and> rp_main s' = rp_main s"
proof (cases "rp_threads s ! i")
  case E_Release
  with assms(3) have "i \<noteq> k" by auto
  with E_Release assms show ?thesis by (auto simp: executor_step_def dest: same_queue_release)
qed (use assms in \<open>auto simp: executor_step_def\<close>)

lemma waits_exec:
  assumes "waits_on_itself k js s" "reporter_exec sem_max ev s = Inr s'"
  shows "waits_on_itself k js s' \<and> same_queue (rp_request_client s) (rp_request_client s')"
proof (cases ev)
  case Main
  with assms locked_main [of sem_max s s'] show ?thesis
    by (simp add: reporter_exec_def waits_on_itself_def same_queue_def)
next
  case Signal
  with assms show ?thesis by (cases "rp_main s = M_Wait") (auto simp: reporter_exec_def waits_on_itself_def)
next
  case (Consume i rd)
  show ?thesis
  proof (cases "i < length (rp_consumers s)")
    case True
    then obtain c q where "consumer_step sem_max rd (rp_consumers s ! i) (rp_request_client s) = Inr (c, q)"
      "s' = s\<lparr>rp_consumers := (rp_consumers s)[i := c], rp_request_client := q\<rparr>"
      using Consume assms(2) by (auto simp: reporter_exec_def)
    with assms(1) locked_consumer show ?thesis by (fastforce simp: waits_on_itself_def same_queue_def)
  qed (use Consume assms in \<open>simp add: reporter_exec_def\<close>)
next
  case (Sender out resp)
  with assms have "s' = s"
    by (auto simp: reporter_exec_def sender_step_def waits_on_itself_def split: if_splits)
  with assms(1) show ?thesis by simp
next
  case (Command_End i now)
  with assms locked_executor [of sem_max i now s s' k] show ?thesis
    by (auto simp: reporter_exec_def waits_on_itself_def same_queue_def split: if_splits)
qed

lemma waits_run:
  "reporter_run sem_max allowed s s' \<Longrightarrow> waits_on_itself k js s \<Longrightarrow>
     waits_on_itself k js s' \<and> same_queue (rp_request_client s) (rp_request_client s')"
proof (induction rule: reporter_run.induct)
  case (reporter_more s1 ev s2)
  with waits_exec [OF _ reporter_more.hyps(3)] show ?case by (auto simp: same_queue_def)
qed simp


definition sleep_response :: RmsResponse where
  "sleep_response = \<lparr>rs_header = \<lparr>timestamp = 0, data_count = 1\<rparr>,
     rs_items = [\<lparr>rs_data_type = kRunCommand, rs_data = default_response_values\<lparr>rsv_command := \<lparr>cmd_command = ''sleep 9'', cmd_id = 4\<rparr>\<rparr>\<rparr>]\<rparr>"

text \<open>Two pings; the response to the first one runs a command, and so does that to the second, with the same id.\<close>

definition twice_trace :: "reporter_event list" where
  "twice_trace = replicate 3 Main @ replicate 5 (Consume 0 no_reading) @ replicate 5 (Sender Call_Ok no_response) @
     [Sender Call_Ok sleep_response] @ replicate 5 (Consume 0 no_reading) @ replicate 3 (Sender Call_Ok no_response)"

lemma twice_evaluates:
  "(case reporter_events 2 twice_trace ping_reporter of Inl e \<Rightarrow> False
    | Inr s \<Rightarrow> rp_joining s = None \<and> responding Call_Ok (rp_request_client s) \<and>
        (case executors (rp_executors s) 4 of None \<Rightarrow> False | Some e \<Rightarrow> True) \<and>
        (case reporter_events 2 [Sender Call_Ok sleep_response] s of Inl e \<Rightarrow> False
         | Inr s1 \<Rightarrow> (case reporter_events 2 [Signal, Main, Command_End 1 0, Sender Call_Ok no_response] s1 of
             Inl e \<Rightarrow> False | Inr s2 \<Rightarrow> True)))"
  by code_simp


section \<open>The rhythm of a consumer\<close>

text \<open>A consumer that runs alone for a number of steps.\<close>

fun consumer_run :: "nat \<Rightarrow> reading \<Rightarrow> nat \<Rightarrow> consumer \<times> RequestClient \<Rightarrow> (consumer \<times> RequestClient) res" where
  "consumer_run sem_max rd 0 (c, q) = Inr (c, q)"
| "consumer_run sem_max rd (Suc n) (c, q) = rbind (consumer_step sem_max rd c q) (consumer_run sem_max rd n)"

lemma consumer_run_add:
  "consumer_run sem_max rd (m + n) (c, q) = rbind (consumer_run sem_max rd m (c, q)) (consumer_run sem_max rd n)"
proof (induction m arbitrary: c q)
  case (Suc m)
  then show ?case by (cases "consumer_step sem_max rd c q") auto
qed simp

lemma consumer_sleeps:
  assumes "c_pc c = C_Sleep i" "is_consuming c" "int (i + n) = c_timeout c"
  shows "consumer_run sem_max rd (n + 1) (c, q) = Inr (c\<lparr>c_pc := C_Check\<rparr>, q)"
  using assms
proof (induction n arbitrary: c i)
  case 0
  then show ?case by (simp add: consumer_step_def)
next
  case (Suc n)
  then have "consumer_step sem_max rd c q = Inr (c\<lparr>c_pc := C_Sleep (i + 1)\<rparr>, q)" by (simp add: consumer_step_def)
  with Suc.IH [of "c\<lparr>c_pc := C_Sleep (i + 1)\<rparr>" "i + 1"] Suc.prems show ?case by simp
qed

definition with_request :: "queued_request \<Rightarrow> RequestClient \<Rightarrow> RequestClient" where
  "with_request r q = (push_request r q)\<lparr>request_counter := request_counter q + 1\<rparr>"

text \<open>
  A consumer sends one request in each period: from the head of its loop, when nothing
  holds the mutex and the semaphore has room, the next round takes five steps and one for
  each second of its timeout, and ends at the head of the loop with exactly one more request
  in the queue and one more permit.
\<close>

theorem consumer_period:
  assumes "c_pc c = C_Check" "is_consuming c" "0 \<le> c_timeout c" "consumer_poll (c_kind c) rd = Some (Inr r)"
    and "\<not> mtx_locked q" "request_counter q < sem_max"
  shows "consumer_run sem_max rd (5 + nat (c_timeout c)) (c, q) = Inr (c, with_request r q)"
proof -
  have "consumer_run sem_max rd 4 (c, q) = Inr (c\<lparr>c_pc := C_Sleep 0\<rparr>, with_request r q)"
    using assms
    by (simp add: numeral_eq_Suc consumer_step_def send_append_def push_request_def send_release_def release_permit_def
        with_request_def)
  moreover have "consumer_run sem_max rd (nat (c_timeout c) + 1) (c\<lparr>c_pc := C_Sleep 0\<rparr>, with_request r q) =
      Inr (c\<lparr>c_pc := C_Check\<rparr>, with_request r q)"
    using consumer_sleeps [of "c\<lparr>c_pc := C_Sleep 0\<rparr>" 0 "nat (c_timeout c)"] assms(2,3) by simp
  moreover have "c\<lparr>c_pc := C_Check\<rparr> = c" using assms(1) by simp
  ultimately show ?thesis using consumer_run_add [of sem_max rd 4 "nat (c_timeout c) + 1" c q] by simp
qed

theorem consumer_period_witness:
  "consumer_run 1 no_reading (5 + nat 3)
     ((new_consumer Ping_Consumer 3)\<lparr>c_pc := C_Check, is_consuming := True\<rparr>, new_request_client) =
   Inr ((new_consumer Ping_Consumer 3)\<lparr>c_pc := C_Check, is_consuming := True\<rparr>, with_request (ping_consume 7) new_request_client)"
  using consumer_period [of "(new_consumer Ping_Consumer 3)\<lparr>c_pc := C_Check, is_consuming := True\<rparr>" no_reading
      "ping_consume 7" new_request_client 1]
  by (simp add: new_consumer_def consumer_poll_def no_reading_def new_request_client_def)

text \<open>How many requests a stopped consumer still sends, and within how many steps it ends.\<close>

definition remaining :: "consumer_pc \<Rightarrow> nat \<times> nat" where
  "remaining p = (case p of C_None \<Rightarrow> (0, 0) | C_Check \<Rightarrow> (0, 1) | C_Report \<Rightarrow> (1, 5) | C_Append _ \<Rightarrow> (1, 4)
     | C_Release \<Rightarrow> (0, 3) | C_Sleep _ \<Rightarrow> (0, 2) | C_Ended \<Rightarrow> (0, 0))"

text \<open>
  A consumer that is told to stop ends: wherever its thread is, if its machine reading
  returns, the mutex is free and the semaphore has room, at most five of its own steps bring
  it to its end, with at most one more request sent, whatever its timeout.
\<close>

theorem consumer_stops:
  assumes "\<not> is_consuming c" "c_pc c \<noteq> C_None" "\<exists>r. consumer_poll (c_kind c) rd = Some (Inr r)"
    and "\<not> mtx_locked q" "request_counter q < sem_max"
  shows "\<exists>c' q'. consumer_run sem_max rd (snd (remaining (c_pc c))) (c, q) = Inr (c', q') \<and> c_pc c' = C_Ended \<and>
    length (submitted q') = length (submitted q) + fst (remaining (c_pc c))"
  using assms
  by (cases "c_pc c")
    (auto simp: remaining_def numeral_eq_Suc consumer_step_def send_append_def push_request_def send_release_def
      release_permit_def simp del: rbind_eq_Inr)

theorem consumer_stops_witness:
  "\<exists>c' q'. consumer_run 1 no_reading 5 ((new_consumer Ping_Consumer 300)\<lparr>c_pc := C_Report\<rparr>, new_request_client) = Inr (c', q') \<and>
     c_pc c' = C_Ended \<and> length (submitted q') = 1"
  using consumer_stops [of "(new_consumer Ping_Consumer 300)\<lparr>c_pc := C_Report\<rparr>" no_reading new_request_client 1]
  by (simp add: new_consumer_def consumer_poll_def new_request_client_def remaining_def)

end
