(* ===== verification/Reporter_Main.thy ===== *)
theory Reporter_Main
  imports Reporter_System
begin

text \<open>
  The reporter as a process: \<open>main\<close> (\<open>reporter/common/src/main.cpp\<close>) with the constructor of
  \<open>RmsReporterClient\<close>, up to the state from which the threads run (\<open>Reporter_System\<close>), and what
  happens after \<open>main\<close> has returned, when the static \<open>RmsReporterClient\<close> is destroyed.
\<close>

section \<open>Start\<close>

definition reporter_config_path :: string where
  "reporter_config_path = ''/home/larry/Programming/C++/rms_2_0/rms_reporter.cfg''"

text \<open>
  The constructor reports the system to learn the number of cores, which is a byte and so not
  negative, and makes the consumers; \<open>None\<close> is a report that does not return.
\<close>

definition new_RmsReporterClient :: "VersionData \<Rightarrow> machine \<Rightarrow> RmsConfig \<Rightarrow> reporter res option" where
  "new_RmsReporterClient version m cfg =
     map_option (\<lambda>r. rbind r (\<lambda>info.
       (case new_consumers (nat (cpu_cores (cpu_info info))) cfg of
          (Inl e, _) \<Rightarrow> Inl e
        | (Inr cs, cfg1) \<Rightarrow> Inr (new_reporter cs cfg1)))) (sys_report version m)"

definition reporter_main :: "VersionData \<Rightarrow> machine \<Rightarrow> file_system \<Rightarrow> reporter res option" where
  "reporter_main version m fs = (case RmsConfig_load reporter_config_path initial_config fs of
     (Inl e, _) \<Rightarrow> Some (Inl e)
   | (Inr _, cfg) \<Rightarrow> new_RmsReporterClient version m cfg)"

section \<open>The end of the process\<close>

text \<open>
  After \<open>main\<close> the members of \<open>RmsReporterClient\<close> are destroyed, the last one first: the request
  client, then the executors, in an order that the map decides, then the consumers. No one
  calls \<open>removeExecutor\<close>, so every executor is still there. The destructor of an executor
  waits for its thread; the threads that have not ended go on, and their next step, which
  appends the result or releases the semaphore, uses the request client that does not
  exist any more. A thread whose command does not end takes no step.
\<close>

datatype exit_event = Destructor | Executor_Thread nat

text \<open>The executors that are left to destroy; with none left the process ends with code 0.\<close>

fun destroy_step :: "exit_event \<Rightarrow> executor_pc list \<Rightarrow> nat list \<Rightarrow> nat list res" where
  "destroy_step Destructor ts [] = Inr []"
| "destroy_step Destructor ts (k # ks) = (if ts ! k = E_Ended then Inr ks else Inr (k # ks))"
| "destroy_step (Executor_Thread k) ts ks =
     (if k < length ts \<and> ts ! k \<noteq> E_Ended then Inl Dangling_Pointer else Inr ks)"

fun destroy_executors :: "executor_pc list \<Rightarrow> exit_event list \<Rightarrow> nat list \<Rightarrow> nat list res" where
  "destroy_executors ts [] ks = Inr ks"
| "destroy_executors ts (ev # evs) ks = rbind (destroy_step ev ts ks) (destroy_executors ts evs)"

section \<open>Starting up\<close>

text \<open>An entry of the configuration that is a number for \<open>std::stol\<close>.\<close>

definition timeout_of :: "string \<Rightarrow> RmsConfig \<Rightarrow> int res" where
  "timeout_of key cfg = rbind (stol (case config cfg key of None \<Rightarrow> [] | Some t \<Rightarrow> t)) (\<lambda>n. Inr (to_i32 n))"

lemma consumer_timeout_value:
  assumes "config_path cfg \<noteq> []"
  shows "\<exists>cfg1. consumer_timeout key cfg = (timeout_of key cfg, cfg1) \<and> config_path cfg1 \<noteq> [] \<and>
    timeout_of k cfg1 = timeout_of k cfg \<and> timeout_of k' cfg1 = timeout_of k' cfg"
  using assms
  by (auto simp: consumer_timeout_def timeout_of_def RmsConfig_find_def split: option.splits)

lemma new_consumers_value:
  assumes "config_path cfg \<noteq> []"
  shows "fst (new_consumers n cfg) =
    rbind (timeout_of RMS_REPORTER_CONFIG_TIMEOUT cfg) (\<lambda>a.
    rbind (timeout_of RMS_REPORTER_CONFIG_PING_TIMEOUT cfg) (\<lambda>c.
      Inr [new_consumer (Cpu_Consumer (n * 2)) a, new_consumer Ram_Consumer a, new_consumer Ping_Consumer c]))"
proof -
  let ?T = RMS_REPORTER_CONFIG_TIMEOUT and ?P = RMS_REPORTER_CONFIG_PING_TIMEOUT
  obtain c1 where 1: "consumer_timeout ?T cfg = (timeout_of ?T cfg, c1)" "config_path c1 \<noteq> []"
    "timeout_of ?T c1 = timeout_of ?T cfg" "timeout_of ?P c1 = timeout_of ?P cfg"
    using consumer_timeout_value [OF assms, of ?T ?T ?P] by blast
  obtain c2 where 2: "consumer_timeout ?T c1 = (timeout_of ?T c1, c2)" "config_path c2 \<noteq> []"
    "timeout_of ?P c2 = timeout_of ?P c1"
    using consumer_timeout_value [OF 1(2), of ?T ?T ?P] by blast
  obtain c3 where 3: "consumer_timeout ?P c2 = (timeout_of ?P c2, c3)"
    using consumer_timeout_value [OF 2(2), of ?P] by blast
  show ?thesis
    unfolding new_consumers_def 1(1) 1(3) [symmetric] using 2 3 1(3,4)
    by (cases "timeout_of ?T cfg") (simp_all add: Let_def)
qed

lemma fresh_new_consumers: "fst (new_consumers n cfg) = Inr cs \<Longrightarrow> fresh_consumers cs"
  by (auto simp: new_consumers_def fresh_consumers_def new_consumer_def split: sum.splits prod.splits)

lemma load_path: "RmsConfig_load path cfg fs = (Inr x, cfg') \<Longrightarrow> config_path cfg' = path"
  by (auto simp: RmsConfig_load_def split: option.splits)

lemma reporter_main_new:
  assumes "reporter_main version m fs = Some (Inr s0)"
    and "RmsConfig_load reporter_config_path initial_config fs = (Inr (), cfg)" "sys_report version m = Some (Inr info)"
  shows "\<exists>cs cfg1. new_consumers (nat (cpu_cores (cpu_info info))) cfg = (Inr cs, cfg1) \<and> s0 = new_reporter cs cfg1"
proof -
  obtain r cfg1 where r: "new_consumers (nat (cpu_cores (cpu_info info))) cfg = (r, cfg1)" by fastforce
  with assms show ?thesis by (cases r) (simp_all add: reporter_main_def new_RmsReporterClient_def)
qed

text \<open>
  A reporter that starts has a consumer for the processor with twice the cores of the machine,
  one for the memory and one for pings, with the timeouts of the configuration file, and
  none of their threads runs yet. From then on, in every interleaving, what it sends and
  keeps are requests built by its consumers and executors.
\<close>

theorem reporter_main_starts:
  assumes "reporter_main version m fs = Some (Inr s0)"
    and "RmsConfig_load reporter_config_path initial_config fs = (Inr (), cfg)" "sys_report version m = Some (Inr info)"
  shows "(\<exists>a c. timeout_of RMS_REPORTER_CONFIG_TIMEOUT cfg = Inr a \<and> timeout_of RMS_REPORTER_CONFIG_PING_TIMEOUT cfg = Inr c \<and>
      rp_consumers s0 = [new_consumer (Cpu_Consumer (nat (cpu_cores (cpu_info info)) * 2)) a, new_consumer Ram_Consumer a,
        new_consumer Ping_Consumer c] \<and> rp_main s0 = M_Start 0) \<and>
    (\<forall>sem_max allowed s. reporter_run sem_max allowed s0 s \<longrightarrow>
      list_all reporter_request (delivered (rp_request_client s) @ request_queue (rp_request_client s)))"
proof -
  obtain cs cfg1 where s0: "new_consumers (nat (cpu_cores (cpu_info info))) cfg = (Inr cs, cfg1)" "s0 = new_reporter cs cfg1"
    using reporter_main_new [OF assms] by blast
  have "config_path cfg \<noteq> []" using load_path [OF assms(2)] by (simp add: reporter_config_path_def)
  from new_consumers_value [OF this, of "nat (cpu_cores (cpu_info info))"]
  have cs: "Inr cs = rbind (timeout_of RMS_REPORTER_CONFIG_TIMEOUT cfg) (\<lambda>a.
      rbind (timeout_of RMS_REPORTER_CONFIG_PING_TIMEOUT cfg) (\<lambda>c.
        Inr [new_consumer (Cpu_Consumer (nat (cpu_cores (cpu_info info)) * 2)) a, new_consumer Ram_Consumer a,
          new_consumer Ping_Consumer c]))"
    unfolding s0(1) by simp
  have "\<exists>a c. timeout_of RMS_REPORTER_CONFIG_TIMEOUT cfg = Inr a \<and> timeout_of RMS_REPORTER_CONFIG_PING_TIMEOUT cfg = Inr c \<and>
      rp_consumers s0 = [new_consumer (Cpu_Consumer (nat (cpu_cores (cpu_info info)) * 2)) a, new_consumer Ram_Consumer a,
        new_consumer Ping_Consumer c] \<and> rp_main s0 = M_Start 0"
    using cs unfolding s0(2)
    by (cases "timeout_of RMS_REPORTER_CONFIG_TIMEOUT cfg"; cases "timeout_of RMS_REPORTER_CONFIG_PING_TIMEOUT cfg")
      (simp_all add: new_reporter_def)
  moreover have "list_all reporter_request (delivered (rp_request_client s) @ request_queue (rp_request_client s))"
    if "reporter_run sem_max allowed s0 s" for sem_max allowed s
  proof -
    have "fresh_consumers cs" using fresh_new_consumers [of "nat (cpu_cores (cpu_info info))" cfg] s0(1) by simp
    with run_simulation [OF that [unfolded s0(2)]] obtain evs where
      evs: "client_run sem_max (\<lambda>_ _. True) new_request_client evs (Inr (rp_request_client s))"
      "\<forall>r \<in> set (appended evs). reporter_request r" by blast
    from history_run [OF evs(1) refl] evs(2) show ?thesis by (simp add: history_ok_def list_all_iff)
  qed
  ultimately show ?thesis by blast
qed

definition shutdown_trace :: "reporter_event list" where
  "shutdown_trace = replicate 3 Main @ replicate 5 (Consume 0 no_reading) @
     replicate 5 (Sender Call_Ok no_response) @ [Sender Call_Ok sleep_response, Signal, Main] @
     replicate 3 (Consume 0 no_reading) @ replicate 3 Main @ [Sender Call_Ok no_response, Main]"

text \<open>
  Without its configuration file the reporter exits with code -1; with a file that has no
  timeout for the consumers or for the pings the conversion of the empty text throws and
  ends the process. Either way no thread was started.
\<close>

theorem reporter_main_errors:
  assumes "reporter_config_path \<in> dom (files fs) \<longrightarrow>
      RmsConfig_load reporter_config_path initial_config fs = (Inr (), cfg) \<and> sys_report version m = Some (Inr info) \<and>
      (config cfg RMS_REPORTER_CONFIG_TIMEOUT = None \<or>
       (\<exists>t. timeout_of RMS_REPORTER_CONFIG_TIMEOUT cfg = Inr t) \<and> config cfg RMS_REPORTER_CONFIG_PING_TIMEOUT = None)"
  shows "reporter_main version m fs =
    Some (Inl (if reporter_config_path \<in> dom (files fs) then Invalid_Argument else Exit (- 1)))"
proof (cases "files fs reporter_config_path")
  case None
  then show ?thesis by (simp add: reporter_main_def RmsConfig_load_def domIff)
next
  case (Some contents)
  with assms have l: "RmsConfig_load reporter_config_path initial_config fs = (Inr (), cfg)" "sys_report version m = Some (Inr info)"
    and t: "config cfg RMS_REPORTER_CONFIG_TIMEOUT = None \<or>
       (\<exists>t. timeout_of RMS_REPORTER_CONFIG_TIMEOUT cfg = Inr t) \<and> config cfg RMS_REPORTER_CONFIG_PING_TIMEOUT = None"
    by auto
  have missing: "timeout_of k cfg = Inl Invalid_Argument" if "config cfg k = None" for k
    using that by (simp add: timeout_of_def)
  have "config_path cfg \<noteq> []" using load_path [OF l(1)] by (simp add: reporter_config_path_def)
  from new_consumers_value [OF this] t missing have "fst (new_consumers n cfg) = Inl Invalid_Argument" for n by auto
  then obtain c1 where "new_consumers (nat (cpu_cores (cpu_info info))) cfg = (Inl Invalid_Argument, c1)"
    by (metis prod.collapse)
  with l Some show ?thesis by (simp add: reporter_main_def new_RmsReporterClient_def domIff)
qed

section \<open>Shutting down\<close>

lemma emplace_launched: "emplace_executor k e rc = (rc', rej) \<Longrightarrow> launched rc' = launched rc @ [e]"
  by (auto simp: emplace_executor_def Let_def split: if_splits)

lemma run_command_launched: "run_command cmd cfg rc = (cfg', rc', rej) \<Longrightarrow> \<exists>e. launched rc' = launched rc @ [e]"
  by (auto simp: run_command_def Let_def dest!: emplace_launched split: prod.splits)

lemma run_jobs_launched:
  "run_jobs js cfg rc = (cfg', rc', b) \<Longrightarrow> \<exists>es. launched rc' = launched rc @ es"
proof (induction js cfg rc arbitrary: cfg' rc' b rule: run_jobs.induct)
  case (2 cmd js cfg rc)
  obtain cfg1 rc1 rej where r: "run_command cmd cfg rc = (cfg1, rc1, rej)" by (metis prod.exhaust)
  from run_command_launched [OF r] obtain e where "launched rc1 = launched rc @ [e]" by blast
  with 2 r show ?case by (cases rej) fastforce+
qed auto

text \<open>An executor that has ended or is about to has submitted its result.\<close>

definition results_sent :: "reporter \<Rightarrow> bool" where
  "results_sent s \<longleftrightarrow> (\<forall>i < length (rp_threads s). rp_threads s ! i \<noteq> E_Running \<longrightarrow>
     (\<exists>now. notifyEnd now (launched (rp_executors s) ! i) \<in> set (submitted (rp_request_client s))))"

lemma simulates_submitted: "simulates sem_max q q' \<Longrightarrow> set (submitted q) \<subseteq> set (submitted q')"
  by (auto simp: simulates_def dest!: history_event)

lemma results_sentI:
  assumes "results_sent s" "simulates sem_max (rp_request_client s) (rp_request_client s')"
    and "\<And>i. i < length (rp_threads s') \<Longrightarrow> rp_threads s' ! i \<noteq> E_Running \<Longrightarrow>
      i < length (rp_threads s) \<and> launched (rp_executors s') ! i = launched (rp_executors s) ! i \<and>
      (rp_threads s ! i \<noteq> E_Running \<or>
       (\<exists>now. notifyEnd now (launched (rp_executors s) ! i) \<in> set (submitted (rp_request_client s'))))"
  shows "results_sent s'"
  unfolding results_sent_def
proof (intro allI impI)
  fix i
  assume "i < length (rp_threads s')" "rp_threads s' ! i \<noteq> E_Running"
  from assms(3) [OF this] show "\<exists>now. notifyEnd now (launched (rp_executors s') ! i) \<in> set (submitted (rp_request_client s'))"
    using assms(1) simulates_submitted [OF assms(2)] unfolding results_sent_def by fastforce
qed

lemma main_step_frame:
  "main_step sem_max s = Inr s' \<Longrightarrow> rp_threads s' = rp_threads s \<and> rp_executors s' = rp_executors s"
  by (auto simp: main_step_def split: main_pc.splits if_splits)

lemma jobs_threads:
  assumes "reporter_ok s" "run_jobs js (rp_config s) (rp_executors s) = (cfg, rc, rest)"
    and "i < length (start_threads rc (rp_threads s))" "start_threads rc (rp_threads s) ! i \<noteq> E_Running"
  shows "i < length (rp_threads s) \<and> launched rc ! i = launched (rp_executors s) ! i \<and>
    start_threads rc (rp_threads s) ! i = rp_threads s ! i"
proof -
  obtain es where es: "launched rc = launched (rp_executors s) @ es" using run_jobs_launched [OF assms(2)] by blast
  have "length (rp_threads s) = length (launched (rp_executors s))" using assms(1) by (simp add: reporter_ok_def)
  with es assms(3,4) show ?thesis by (auto simp: start_threads_def nth_append split: if_splits)
qed

lemma sender_step_threads:
  assumes "reporter_ok s" "sender_step sem_max out resp s = Inr s'" "i < length (rp_threads s')" "rp_threads s' ! i \<noteq> E_Running"
  shows "i < length (rp_threads s) \<and> launched (rp_executors s') ! i = launched (rp_executors s) ! i \<and>
    rp_threads s' ! i = rp_threads s ! i"
  using assms(2)
proof (cases rule: sender_step_cases)
  case (3 js)
  from 3(2) show ?thesis
  proof (cases rule: handle_jobs_cases)
    case (1 cfg rc js')
    with jobs_threads [OF assms(1) 1(1), of i] assms(3,4) show ?thesis by simp
  next
    case (2 cfg rc q)
    with jobs_threads [OF assms(1) 2(1), of i] assms(3,4) show ?thesis by simp
  qed
qed (use assms(3,4) in simp_all)

lemma exec_step_threads:
  assumes "executor_step sem_max i now s = Inr s'" "i < length (rp_threads s)"
  shows "rp_executors s' = rp_executors s \<and> length (rp_threads s') = length (rp_threads s) \<and>
    (\<forall>j < length (rp_threads s). rp_threads s' ! j \<noteq> E_Running \<longrightarrow> rp_threads s ! j \<noteq> E_Running \<or>
      (\<exists>now. notifyEnd now (launched (rp_executors s) ! j) \<in> set (submitted (rp_request_client s'))))"
proof (cases "rp_threads s ! i")
  case E_Running
  with assms show ?thesis
    by (cases "mtx_locked (rp_request_client s)")
      (auto simp: executor_step_def send_append_def push_request_def nth_list_update split: if_splits)
next
  case E_Release
  with assms show ?thesis by (auto simp: executor_step_def nth_list_update split: if_splits)
next
  case E_Ended
  with assms show ?thesis by (simp add: executor_step_def)
qed

lemma results_sent_step:
  assumes "reporter_ok s" "starting_ok s" "results_sent s" "reporter_exec sem_max ev s = Inr s'"
  shows "results_sent s'"
proof -
  have sim: "simulates sem_max (rp_request_client s) (rp_request_client s')"
    using good_exec [OF assms(1,2,4)] by (simp add: good_step_def)
  have same: "results_sent s'" if "rp_threads s' = rp_threads s" "rp_executors s' = rp_executors s"
    using that by (intro results_sentI [OF assms(3) sim]) simp
  show ?thesis
  proof (cases ev)
    case Main
    with assms(4) main_step_frame same show ?thesis by (simp add: reporter_exec_def)
  next
    case Signal
    with assms(4) have "rp_threads s' = rp_threads s" "rp_executors s' = rp_executors s" by (auto simp: reporter_exec_def)
    then show ?thesis by (rule same)
  next
    case (Consume i rd)
    with assms(4) have "rp_threads s' = rp_threads s" "rp_executors s' = rp_executors s"
      by (auto simp: reporter_exec_def split: if_splits)
    then show ?thesis by (rule same)
  next
    case (Sender out resp)
    with assms(4) have "sender_step sem_max out resp s = Inr s'" by (simp add: reporter_exec_def)
    from sender_step_threads [OF assms(1) this] show ?thesis by (intro results_sentI [OF assms(3) sim]) auto
  next
    case (Command_End i now)
    show ?thesis
    proof (cases "i < length (rp_threads s)")
      case True
      with Command_End assms(4) have "executor_step sem_max i now s = Inr s'" by (simp add: reporter_exec_def)
      from exec_step_threads [OF this True] show ?thesis by (intro results_sentI [OF assms(3) sim]) auto
    next
      case False
      with Command_End assms(4) same show ?thesis by (simp add: reporter_exec_def)
    qed
  qed
qed

lemma results_sent_run:
  assumes "reporter_run sem_max allowed (new_reporter cs cfg) s" "fresh_consumers cs"
  shows "results_sent s"
  using assms
proof (induction rule: reporter_run.induct)
  case reporter_refl
  show ?case by (simp add: results_sent_def new_reporter_def)
next
  case (reporter_more s1 ev s2)
  from run_simulation [OF reporter_more.hyps(1) reporter_more.prems] have "reporter_ok s1" "starting_ok s1" by simp_all
  with reporter_more show ?case by (intro results_sent_step [of s1 sem_max ev s2]) simp_all
qed

lemma destroy_ended:
  assumes "list_all (\<lambda>t. t = E_Ended) ts" "\<forall>k \<in> set ks. k < length ts"
  shows "destroy_executors ts (replicate (length ks) Destructor) ks = Inr []" "\<exists>ks'. destroy_executors ts evs ks = Inr ks'"
proof -
  show "destroy_executors ts (replicate (length ks) Destructor) ks = Inr []"
    using assms by (induction ks) (simp_all add: list_all_length)
  have "\<exists>ks'. destroy_step ev ts ks = Inr ks' \<and> set ks' \<subseteq> set ks" for ev ks
    using assms(1) by (cases "(ev, ts, ks)" rule: destroy_step.cases) (auto simp: list_all_length)
  then show "\<exists>ks'. destroy_executors ts evs ks = Inr ks'"
  proof (induction evs arbitrary: ks)
    case (Cons ev evs)
    from Cons.prems [of ev ks] obtain ks1 where "destroy_step ev ts ks = Inr ks1" by blast
    with Cons show ?case by simp
  qed simp
qed

lemma destroy_waits:
  assumes "k \<in> set ks" "k < length ts" "ts ! k \<noteq> E_Ended" "destroy_executors ts evs ks = Inr ks'"
  shows "k \<in> set ks' \<and> (Executor_Thread k \<notin> set evs)"
  using assms(1,4)
proof (induction evs arbitrary: ks)
  case (Cons ev evs)
  then obtain ks1 where s: "destroy_step ev ts ks = Inr ks1" "destroy_executors ts evs ks1 = Inr ks'" by auto
  have "k \<in> set ks1 \<and> ev \<noteq> Executor_Thread k"
    using s(1) Cons.prems(1) assms(2,3) by (cases "(ev, ts, ks)" rule: destroy_step.cases) (auto split: if_splits)
  with Cons.IH [OF _ s(2)] show ?case by auto
qed simp

lemma destroy_dangling:
  assumes "k < length ts" "ts ! k \<noteq> E_Ended" "Executor_Thread k \<in> set evs"
  shows "destroy_executors ts evs ks = Inl Dangling_Pointer"
  using assms(3)
proof (induction evs arbitrary: ks)
  case (Cons ev evs)
  have "destroy_step ev ts ks = Inl Dangling_Pointer \<or> (\<exists>ks1. destroy_step ev ts ks = Inr ks1)"
    by (cases "(ev, ts, ks)" rule: destroy_step.cases) auto
  with Cons assms(1,2) show ?case by auto
qed simp


lemma shutdown_evaluates:
  "(case reporter_events 2 shutdown_trace ping_reporter of Inl e \<Rightarrow> False
    | Inr s \<Rightarrow> rp_main s = M_Done \<and> rp_threads s = [E_Running])"
  by code_simp

text \<open>
  A signal while a command runs: the reporter stops its consumers and its request client,
  \<open>main\<close> returns, and the executor then uses the destroyed request client.
\<close>

theorem shutdown_during_command:
  "\<exists>s. reporter_run 2 (\<lambda>_. True) ping_reporter s \<and> rp_main s = M_Done \<and>
     destroy_executors (rp_threads s) [Destructor, Executor_Thread 0] [0] = Inl Dangling_Pointer"
proof -
  obtain s where s: "reporter_events 2 shutdown_trace ping_reporter = Inr s" "rp_main s = M_Done" "rp_threads s = [E_Running]"
    using shutdown_evaluates by (auto split: sum.splits)
  have "reporter_run 2 (\<lambda>_. True) ping_reporter s"
    by (rule reporter_events_run [OF reporter_refl _ s(1)]) (simp add: list_all_iff)
  with s(2,3) show ?thesis by (intro exI [of _ s]) simp
qed

definition sample_main_config :: RmsConfig where
  "sample_main_config =
     \<lparr>config = [''timeout'' \<mapsto> to_string 5, ''ping_timeout'' \<mapsto> to_string 1], config_path = reporter_config_path\<rparr>"

definition sample_main_fs :: file_system where
  "sample_main_fs = RmsConfig_save (\<lambda>_. [''timeout'', ''ping_timeout'']) sample_main_config sample_fs"

lemma sample_main_loads: "RmsConfig_load reporter_config_path initial_config sample_main_fs = (Inr (), sample_main_config)"
proof -
  have "config_ok (config sample_main_config)"
    using to_string_no_space
    by (auto simp: sample_main_config_def config_ok_def entry_ok_def is_word_def is_space_def split: if_splits)
  moreover have "set [''timeout'', ''ping_timeout''] = dom (config sample_main_config)" by (auto simp: sample_main_config_def)
  ultimately show ?thesis
    unfolding sample_main_fs_def
    by (intro saved_config_loads) (simp_all add: sample_fs_def sample_main_config_def reporter_config_path_def)
qed

lemma sample_main_timeouts:
  "timeout_of RMS_REPORTER_CONFIG_TIMEOUT sample_main_config = Inr 5"
  "timeout_of RMS_REPORTER_CONFIG_PING_TIMEOUT sample_main_config = Inr 1"
  by (simp_all add: timeout_of_def sample_main_config_def config_keys in_i64_def to_i32_def)

lemma sample_main_starts:
  assumes "sys_report default_version full_machine = Some (Inr info)"
  shows "\<exists>s0. reporter_main default_version full_machine sample_main_fs = Some (Inr s0)"
proof -
  have p: "config_path sample_main_config \<noteq> []" by (simp add: sample_main_config_def reporter_config_path_def)
  obtain cs cfg1 where "new_consumers (nat (cpu_cores (cpu_info info))) sample_main_config = (Inr cs, cfg1)"
    using new_consumers_value [OF p, of "nat (cpu_cores (cpu_info info))"] sample_main_timeouts
    by (cases "new_consumers (nat (cpu_cores (cpu_info info))) sample_main_config") auto
  with assms sample_main_loads show ?thesis by (simp add: reporter_main_def new_RmsReporterClient_def)
qed

theorem reporter_main_starts_witness:
  "\<exists>s0 n. reporter_main default_version full_machine sample_main_fs = Some (Inr s0) \<and>
     map c_kind (rp_consumers s0) = [Cpu_Consumer (n * 2), Ram_Consumer, Ping_Consumer] \<and>
     map c_timeout (rp_consumers s0) = [5, 5, 1]"
proof -
  obtain info where info: "sys_report default_version full_machine = Some (Inr info)" using full_machine_reports by blast
  from sample_main_starts [OF info] obtain s0 where
    s0: "reporter_main default_version full_machine sample_main_fs = Some (Inr s0)" by blast
  from reporter_main_starts [OF s0 sample_main_loads info]
  have "rp_consumers s0 = [new_consumer (Cpu_Consumer (nat (cpu_cores (cpu_info info)) * 2)) 5, new_consumer Ram_Consumer 5,
      new_consumer Ping_Consumer 1]" by (auto simp: sample_main_timeouts)
  then have "map c_kind (rp_consumers s0) = [Cpu_Consumer (nat (cpu_cores (cpu_info info)) * 2), Ram_Consumer, Ping_Consumer] \<and>
      map c_timeout (rp_consumers s0) = [5, 5, 1]" by (simp add: new_consumer_def)
  with s0 show ?thesis by (intro exI [of _ s0] exI [of _ "nat (cpu_cores (cpu_info info))"] conjI) simp_all
qed

theorem reporter_main_errors_witness:
  "reporter_main default_version full_machine \<lparr>files = Map.empty, writable = (\<lambda>_. True)\<rparr> = Some (Inl (Exit (- 1)))"
  using reporter_main_errors [of "\<lparr>files = Map.empty, writable = (\<lambda>_. True)\<rparr>"] by simp

definition idle_trace :: "reporter_event list" where
  "idle_trace = replicate 5 Main @ [Sender Call_Ok no_response, Signal, Main, Consume 0 no_reading, Main, Main,
     Consume 1 no_reading, Main, Main, Consume 2 no_reading, Main, Main, Main, Sender Call_Ok no_response,
     Sender Call_Ok no_response, Main]"

lemma idle_evaluates:
  "\<exists>s. reporter_events 2 idle_trace
      (new_reporter [new_consumer (Cpu_Consumer n) a, new_consumer Ram_Consumer b, new_consumer Ping_Consumer c] cfg) = Inr s \<and>
     rp_main s = M_Done \<and> rp_threads s = []"
  by (simp add: idle_trace_def reporter_defs client_defs new_request_client_def numeral_eq_Suc)


end
