(* ===== verification/Command_Executor.thy ===== *)
theory Command_Executor
  imports Rms_Reporter_Client
begin

text \<open>
  The process side of \<open>CommandExecutor\<close> (\<open>reporter/linux/src/executor/command_executor.cpp\<close>):
  the pipes it makes, what the child does between \<open>fork\<close> and \<open>exec\<close>, the descriptors its
  thread keeps and closes, the signal of its destructor, and its input. The descriptor
  tables are those of POSIX: a call takes the lowest free number. Several executors run at
  a time, each in its thread; their system calls interleave on one table.
\<close>

section \<open>Descriptor tables\<close>

datatype stream_kind = Stdin | Stdout | Stderr | Signal_Pipe

text \<open>An open file: one the reporter had before, or an end of a pipe of the executor \<open>i\<close>.\<close>

datatype open_file = Inherited nat | Read_End nat stream_kind | Write_End nat stream_kind

fun owner :: "open_file \<Rightarrow> nat option" where
  "owner (Inherited n) = None"
| "owner (Read_End i s) = Some i"
| "owner (Write_End i s) = Some i"

text \<open>The length of a table is the limit of the process.\<close>

type_synonym fd_table = "open_file option list"

fun lowest_free :: "fd_table \<Rightarrow> nat option" where
  "lowest_free [] = None"
| "lowest_free (None # t) = Some 0"
| "lowest_free (Some f # t) = map_option Suc (lowest_free t)"

definition fd_view :: "fd_table \<Rightarrow> int \<Rightarrow> open_file option" where
  "fd_view t k = (if 0 \<le> k \<and> nat k < length t then t ! nat k else None)"

definition fd_alloc :: "open_file \<Rightarrow> fd_table \<Rightarrow> (int \<times> fd_table) option" where
  "fd_alloc f t = map_option (\<lambda>k. (int k, t[k := Some f])) (lowest_free t)"

definition fd_close :: "int \<Rightarrow> fd_table \<Rightarrow> fd_table" where
  "fd_close k t = (if 0 \<le> k then t[nat k := None] else t)"

definition fd_dup :: "int \<Rightarrow> fd_table \<Rightarrow> fd_table" where
  "fd_dup k t = (case fd_view t k of
     None \<Rightarrow> t
   | Some f \<Rightarrow> (case fd_alloc f t of None \<Rightarrow> t | Some (_, t1) \<Rightarrow> t1))"

definition fd_pipe :: "nat \<Rightarrow> stream_kind \<Rightarrow> fd_table \<Rightarrow> (int \<times> int \<times> fd_table) option" where
  "fd_pipe i s t = (case fd_alloc (Read_End i s) t of
     None \<Rightarrow> None
   | Some (r, t1) \<Rightarrow> (case fd_alloc (Write_End i s) t1 of
       None \<Rightarrow> None
     | Some (w, t2) \<Rightarrow> Some (r, w, t2)))"

section \<open>What a table promises\<close>

text \<open>
  The executors use a table only through this contract: a new descriptor was free, and
  closing forgets one descriptor. The lemmas speak of the set of open descriptors.
\<close>

locale descriptor_table =
  fixes view :: "'t \<Rightarrow> 'k \<Rightarrow> 'f option"
    and alloc :: "'f \<Rightarrow> 't \<Rightarrow> ('k \<times> 't) option"
    and close :: "'k \<Rightarrow> 't \<Rightarrow> 't"
  assumes alloc_free: "alloc f t = Some (k, t') \<Longrightarrow> view t k = None"
    and view_alloc: "alloc f t = Some (k, t') \<Longrightarrow> view t' = (view t)(k \<mapsto> f)"
    and view_close: "view (close k t) = (view t)(k := None)"
begin

lemma graph_alloc: "alloc f t = Some (k, t') \<Longrightarrow> Map.graph (view t') = insert (k, f) (Map.graph (view t))"
  by (frule alloc_free) (auto simp: view_alloc graph_def split: if_splits)

lemma graph_close: "(k, f) \<in> Map.graph (view t) \<Longrightarrow> Map.graph (view (close k t)) = Map.graph (view t) - {(k, f)}"
  by (auto simp: view_close graph_def split: if_splits)

lemma close_closed: "view t k = None \<Longrightarrow> view (close k t) = view t"
  by (auto simp: view_close)

lemma view_close_all: "view (fold close ks t) = (\<lambda>k. if k \<in> set ks then None else view t k)"
  by (induction ks arbitrary: t) (auto simp: view_close)

lemma graph_close_all:
  assumes "set (zip ks fs) \<subseteq> Map.graph (view t)" "length ks = length fs"
  shows "Map.graph (view (fold close ks t)) = Map.graph (view t) - set (zip ks fs)"
proof -
  have "view t k = Some f \<Longrightarrow> k \<in> set ks \<Longrightarrow> (k, f) \<in> set (zip ks fs)" for k f
    using assms by (fastforce simp: in_set_conv_nth set_zip graph_def)
  then show ?thesis
    using assms(2) by (auto simp: view_close_all graph_def dest: set_zip_leftD split: if_splits)
qed

end

lemma lowest_free_Some: "lowest_free t = Some k \<Longrightarrow> k < length t \<and> t ! k = None \<and> (\<forall>j<k. t ! j \<noteq> None)"
proof (induction t arbitrary: k rule: lowest_free.induct)
  case (3 f t)
  then show ?case by (auto simp: nth_Cons split: nat.splits)
qed simp_all

lemma lowest_freeI: "k < length t \<Longrightarrow> t ! k = None \<Longrightarrow> (\<And>j. j < k \<Longrightarrow> t ! j \<noteq> None) \<Longrightarrow> lowest_free t = Some k"
proof (induction t arbitrary: k rule: lowest_free.induct)
  case (2 t)
  then show ?case by (cases k) force+
next
  case (3 f t)
  then show ?case
    by (cases k) (use 3(3) in \<open>fastforce intro: 3(1)\<close>)+
qed simp

interpretation fd: descriptor_table fd_view fd_alloc fd_close
proof
  show "fd_alloc f t = Some (k, t') \<Longrightarrow> fd_view t k = None" for f t k t'
    by (auto simp: fd_alloc_def fd_view_def dest: lowest_free_Some)
  show "fd_alloc f t = Some (k, t') \<Longrightarrow> fd_view t' = (fd_view t)(k \<mapsto> f)" for f t k t'
    by (fastforce simp: fd_alloc_def fd_view_def fun_eq_iff nth_list_update dest: lowest_free_Some)
  show "fd_view (fd_close k t) = (fd_view t)(k := None)" for k t
    by (auto simp: fd_close_def fd_view_def fun_eq_iff nth_list_update)
qed

lemma fd_table_ext: "fd_view t = fd_view t' \<Longrightarrow> length t = length t' \<Longrightarrow> t = t'"
  by (rule nth_equalityI) (auto simp: fd_view_def fun_eq_iff dest!: spec [where x = "int _"] split: if_splits)

lemma fd_length [simp]:
  "length (fd_close k t) = length t" "length (fd_dup k t) = length t" "length (fold fd_close ks t) = length t"
proof -
  show "length (fd_close k t) = length t" for k t by (simp add: fd_close_def)
  then show "length (fold fd_close ks t) = length t" by (induction ks arbitrary: t) simp_all
  show "length (fd_dup k t) = length t" by (auto simp: fd_dup_def fd_alloc_def split: option.splits)
qed

lemma fd_alloc_length: "fd_alloc f t = Some (k, t') \<Longrightarrow> length t' = length t \<and> 0 \<le> k"
  by (auto simp: fd_alloc_def)

lemma fd_pipeD:
  assumes "fd_pipe i s t = Some (r, w, t')"
  shows "Map.graph (fd_view t') = insert (r, Read_End i s) (insert (w, Write_End i s) (Map.graph (fd_view t)))"
    and "length t' = length t" "0 \<le> r" "0 \<le> w"
proof -
  obtain t1 where a: "fd_alloc (Read_End i s) t = Some (r, t1)" "fd_alloc (Write_End i s) t1 = Some (w, t')"
    using assms by (auto simp: fd_pipe_def split: option.splits)
  show "Map.graph (fd_view t') = insert (r, Read_End i s) (insert (w, Write_End i s) (Map.graph (fd_view t)))"
    using fd.graph_alloc [OF a(1)] fd.graph_alloc [OF a(2)] by auto
  show "length t' = length t" "0 \<le> r" "0 \<le> w"
    using fd_alloc_length [OF a(1)] fd_alloc_length [OF a(2)] by simp_all
qed

section \<open>Starting a command\<close>

record pipe_fds =
  stdin_pipes :: "int \<times> int"
  stdout_pipes :: "int \<times> int"
  stderr_pipes :: "int \<times> int"

text \<open>
  The three pipes. The results of \<open>pipe\<close> are not looked at: after one that fails the array
  has no values, and the next use of them reads these.
\<close>

definition create_pipes :: "nat \<Rightarrow> fd_table \<Rightarrow> (pipe_fds \<times> fd_table) res" where
  "create_pipes i t = (case fd_pipe i Stdin t of
     None \<Rightarrow> Inl Indeterminate_Value
   | Some (r0, w0, t1) \<Rightarrow> (case fd_pipe i Stdout t1 of
       None \<Rightarrow> Inl Indeterminate_Value
     | Some (r1, w1, t2) \<Rightarrow> (case fd_pipe i Stderr t2 of
         None \<Rightarrow> Inl Indeterminate_Value
       | Some (r2, w2, t3) \<Rightarrow>
           Inr (\<lparr>stdin_pipes = (r0, w0), stdout_pipes = (r1, w1), stderr_pipes = (r2, w2)\<rparr>, t3))))"

text \<open>What the child does to its copy of the table before \<open>execlp\<close>.\<close>

definition child_fds :: "pipe_fds \<Rightarrow> fd_table \<Rightarrow> fd_table" where
  "child_fds p t =
     (let t1 = fd_dup (fst (stdin_pipes p)) (fd_close 0 t);
          t2 = fd_dup (snd (stdout_pipes p)) (fd_close 1 t1);
          t3 = fd_dup (snd (stderr_pipes p)) (fd_close 2 t2)
      in fold fd_close
           [fst (stdin_pipes p), snd (stdin_pipes p), fst (stdout_pipes p), snd (stdout_pipes p),
            fst (stderr_pipes p), snd (stderr_pipes p)] t3)"

text \<open>The descriptors an executor keeps.\<close>

record executor_fds =
  stdin_write_fd :: int
  stdout_read_fd :: int
  stderr_read_fd :: int
  signal_fd :: "int \<times> int"

definition no_fds :: executor_fds where
  "no_fds = \<lparr>stdin_write_fd = - 1, stdout_read_fd = - 1, stderr_read_fd = - 1, signal_fd = (- 1, - 1)\<rparr>"

text \<open>The other branch: the pipe of the signal, whose failure is ignored, and the ends of the child are closed.\<close>

definition parent_fds :: "nat \<Rightarrow> pipe_fds \<Rightarrow> fd_table \<Rightarrow> executor_fds \<times> fd_table" where
  "parent_fds i p t =
     (let (sig, t1) = (case fd_pipe i Signal_Pipe t of None \<Rightarrow> ((- 1, - 1), t) | Some (r, w, t1) \<Rightarrow> ((r, w), t1))
      in (\<lparr>stdin_write_fd = snd (stdin_pipes p), stdout_read_fd = fst (stdout_pipes p),
           stderr_read_fd = fst (stderr_pipes p), signal_fd = sig\<rparr>,
          fold fd_close [fst (stdin_pipes p), snd (stdout_pipes p), snd (stderr_pipes p)] t1))"

text \<open>\<open>poll\<close> ignores negative descriptors; without others it never returns.\<close>

definition watched :: "executor_fds \<Rightarrow> int list" where
  "watched e = List.filter (\<lambda>k. 0 \<le> k) [stdout_read_fd e, stderr_read_fd e, fst (signal_fd e)]"

text \<open>The end of \<open>runCommand\<close>; only the first descriptor of the signal is forgotten.\<close>

definition close_executor_fds :: "executor_fds \<Rightarrow> fd_table \<Rightarrow> executor_fds \<times> fd_table" where
  "close_executor_fds e t =
     (e\<lparr>signal_fd := (- 1, snd (signal_fd e))\<rparr>,
      fold fd_close [stdin_write_fd e, stdout_read_fd e, stderr_read_fd e, fst (signal_fd e), snd (signal_fd e)] t)"

text \<open>\<open>input\<close>: the file that gets the text, with the null byte at its end.\<close>

definition executor_input :: "executor_fds \<Rightarrow> string \<Rightarrow> fd_table \<Rightarrow> (open_file \<times> string) option" where
  "executor_input e s t = map_option (\<lambda>f. (f, s @ [CHR 0x00])) (fd_view t (stdin_write_fd e))"

section \<open>Executors side by side\<close>

datatype phase = Created | Piped pipe_fds | Forked pipe_fds | Collecting | Closed

record executor_thread =
  t_phase :: phase
  t_fds :: executor_fds
  t_signalled :: bool
  t_destroyed :: bool

definition new_thread :: executor_thread where
  "new_thread = \<lparr>t_phase = Created, t_fds = no_fds, t_signalled = False, t_destroyed = False\<rparr>"

text \<open>
  A child process. \<open>c_loop\<close> is \<open>None\<close> once the shell replaced it; a child whose \<open>execlp\<close>
  failed goes on into the loop of the parent, with its own copy of the executor.
\<close>

record child =
  c_owner :: nat
  c_table :: fd_table
  c_loop :: "executor_fds option"

record executor_world =
  reporter_fds :: fd_table
  threads :: "executor_thread list"
  children :: "child list"

text \<open>The reader of the output sees its end when no process can write to the pipe any more.\<close>

definition hung_up :: "nat \<Rightarrow> executor_world \<Rightarrow> bool" where
  "hung_up i w \<longleftrightarrow> Some (Write_End i Stdout) \<notin> set (reporter_fds w) \<and>
     (\<forall>c \<in> set (children w). Some (Write_End i Stdout) \<notin> set (c_table c))"

datatype fork_result = Fork_Failed | Exec_Done | Exec_Failed

text \<open>
  What a process of a command can do to the pipes: close a descriptor, as \<open>exec >&-\<close> does, put one in
  the place of another, as a redirection does, leave a process in the background with a
  copy of its table, and end.
\<close>

datatype process_action = Process_Close int | Process_Dup2 int int | Process_Fork | Process_Exit

definition process_result :: "process_action \<Rightarrow> child \<Rightarrow> child list" where
  "process_result a c = (case a of
     Process_Close k \<Rightarrow> [c\<lparr>c_table := fd_close k (c_table c)\<rparr>]
   | Process_Dup2 j k \<Rightarrow>
       [if 0 \<le> k then c\<lparr>c_table := (case fd_view (c_table c) j of None \<Rightarrow> c_table c | Some f \<Rightarrow> (c_table c)[nat k := Some f])\<rparr>
        else c]
   | Process_Fork \<Rightarrow> [c, c]
   | Process_Exit \<Rightarrow> [])"

text \<open>\<open>Child_Exits\<close> is the end of all processes of a command, \<open>Process\<close> an action of the process at an index.\<close>

datatype executor_event =
    Launch
  | Make_Pipes nat
  | Fork nat fork_result
  | Parent nat
  | Child_Exits nat
  | Process nat process_action
  | Finish nat
  | Destroy nat

definition phase_of :: "nat \<Rightarrow> executor_world \<Rightarrow> phase option" where
  "phase_of i w = (if i < length (threads w) then Some (t_phase (threads w ! i)) else None)"

definition executor_enabled :: "executor_event \<Rightarrow> executor_world \<Rightarrow> bool" where
  "executor_enabled ev w = (case ev of
     Launch \<Rightarrow> True
   | Make_Pipes i \<Rightarrow> phase_of i w = Some Created
   | Fork i r \<Rightarrow> (case phase_of i w of Some (Piped p) \<Rightarrow> True | _ \<Rightarrow> False)
   | Parent i \<Rightarrow> (case phase_of i w of Some (Forked p) \<Rightarrow> True | _ \<Rightarrow> False)
   | Child_Exits i \<Rightarrow> (\<exists>c \<in> set (children w). c_owner c = i \<and> (case c_loop c of None \<Rightarrow> True | Some e \<Rightarrow> watched e \<noteq> []))
   | Process k a \<Rightarrow> k < length (children w) \<and> c_loop (children w ! k) = None
   | Finish i \<Rightarrow> phase_of i w = Some Collecting \<and> (hung_up i w \<or> t_signalled (threads w ! i))
   | Destroy i \<Rightarrow> i < length (threads w) \<and> \<not> t_destroyed (threads w ! i))"

definition set_thread :: "nat \<Rightarrow> executor_thread \<Rightarrow> executor_world \<Rightarrow> executor_world" where
  "set_thread i th w = w\<lparr>threads := (threads w)[i := th]\<rparr>"

text \<open>The child of a fork, when there is one.\<close>

definition forked_child :: "nat \<Rightarrow> fork_result \<Rightarrow> pipe_fds \<Rightarrow> fd_table \<Rightarrow> child list" where
  "forked_child i r p t = (case r of
     Fork_Failed \<Rightarrow> []
   | Exec_Done \<Rightarrow> [\<lparr>c_owner = i, c_table = child_fds p t, c_loop = None\<rparr>]
   | Exec_Failed \<Rightarrow> [\<lparr>c_owner = i, c_table = child_fds p t, c_loop = Some no_fds\<rparr>])"

text \<open>The destructor writes to the pipe of the signal when it sees one.\<close>

definition destroy_thread :: "executor_thread \<Rightarrow> executor_thread" where
  "destroy_thread th =
     th\<lparr>t_destroyed := True, t_signalled := t_signalled th \<or> fst (signal_fd (t_fds th)) \<noteq> - 1\<rparr>"

definition executor_exec :: "executor_event \<Rightarrow> executor_world \<Rightarrow> executor_world res" where
  "executor_exec ev w = (case ev of
     Launch \<Rightarrow> Inr (w\<lparr>threads := threads w @ [new_thread]\<rparr>)
   | Make_Pipes i \<Rightarrow>
       rbind (create_pipes i (reporter_fds w)) (\<lambda>(p, t).
         Inr (set_thread i ((threads w ! i)\<lparr>t_phase := Piped p\<rparr>) (w\<lparr>reporter_fds := t\<rparr>)))
   | Fork i r \<Rightarrow> (case t_phase (threads w ! i) of
       Piped p \<Rightarrow> Inr (set_thread i ((threads w ! i)\<lparr>t_phase := Forked p\<rparr>)
                        (w\<lparr>children := children w @ forked_child i r p (reporter_fds w)\<rparr>))
     | _ \<Rightarrow> Inr w)
   | Parent i \<Rightarrow> (case t_phase (threads w ! i) of
       Forked p \<Rightarrow> (let (e, t) = parent_fds i p (reporter_fds w)
                     in Inr (set_thread i ((threads w ! i)\<lparr>t_phase := Collecting, t_fds := e\<rparr>) (w\<lparr>reporter_fds := t\<rparr>)))
     | _ \<Rightarrow> Inr w)
   | Child_Exits i \<Rightarrow> Inr (w\<lparr>children := List.filter (\<lambda>c. c_owner c \<noteq> i) (children w)\<rparr>)
   | Process k a \<Rightarrow>
       Inr (w\<lparr>children := take k (children w) @ process_result a (children w ! k) @ drop (Suc k) (children w)\<rparr>)
   | Finish i \<Rightarrow>
       (let (e, t) = close_executor_fds (t_fds (threads w ! i)) (reporter_fds w)
        in Inr (set_thread i ((threads w ! i)\<lparr>t_phase := Closed, t_fds := e\<rparr>) (w\<lparr>reporter_fds := t\<rparr>)))
   | Destroy i \<Rightarrow> Inr (set_thread i (destroy_thread (threads w ! i)) w))"

text \<open>Runs without a failure whose events satisfy \<open>allowed\<close> in the state they happen.\<close>

inductive executor_run ::
  "(executor_event \<Rightarrow> executor_world \<Rightarrow> bool) \<Rightarrow> executor_world \<Rightarrow> executor_event list \<Rightarrow> executor_world \<Rightarrow> bool"
  for allowed
where
  run_none: "executor_run allowed w [] w"
| run_event: "executor_run allowed w evs w1 \<Longrightarrow> executor_enabled ev w1 \<Longrightarrow> allowed ev w1 \<Longrightarrow>
    executor_exec ev w1 = Inr w2 \<Longrightarrow> executor_run allowed w (evs @ [ev]) w2"

inductive_cases executor_run_snocE: "executor_run allowed w (evs @ [ev]) w'"

definition idle_world :: "fd_table \<Rightarrow> executor_world" where
  "idle_world t = \<lparr>reporter_fds = t, threads = [], children = []\<rparr>"

text \<open>The table before the first command: standard streams open, no pipe of an executor.\<close>

definition base_table :: "fd_table \<Rightarrow> bool" where
  "base_table t \<longleftrightarrow> (\<forall>f. Some f \<in> set t \<longrightarrow> owner f = None) \<and>
     fd_view t 0 \<noteq> None \<and> fd_view t 1 \<noteq> None \<and> fd_view t 2 \<noteq> None"

section \<open>Which descriptors belong to whom\<close>

definition pipe_ends :: "nat \<Rightarrow> pipe_fds \<Rightarrow> (int \<times> open_file) set" where
  "pipe_ends i p =
     {(fst (stdin_pipes p), Read_End i Stdin), (snd (stdin_pipes p), Write_End i Stdin),
      (fst (stdout_pipes p), Read_End i Stdout), (snd (stdout_pipes p), Write_End i Stdout),
      (fst (stderr_pipes p), Read_End i Stderr), (snd (stderr_pipes p), Write_End i Stderr)}"

definition kept :: "nat \<Rightarrow> executor_fds \<Rightarrow> (int \<times> open_file) set" where
  "kept i e =
     {(stdin_write_fd e, Write_End i Stdin), (stdout_read_fd e, Read_End i Stdout), (stderr_read_fd e, Read_End i Stderr)} \<union>
     (if fst (signal_fd e) = - 1 then {}
      else {(fst (signal_fd e), Read_End i Signal_Pipe), (snd (signal_fd e), Write_End i Signal_Pipe)})"

definition held :: "nat \<Rightarrow> executor_thread \<Rightarrow> (int \<times> open_file) set" where
  "held i th = (case t_phase th of
     Created \<Rightarrow> {} | Piped p \<Rightarrow> pipe_ends i p | Forked p \<Rightarrow> pipe_ends i p | Collecting \<Rightarrow> kept i (t_fds th) | Closed \<Rightarrow> {})"

lemma held_owner: "x \<in> held i th \<Longrightarrow> owner (snd x) = Some i"
  by (auto simp: held_def pipe_ends_def kept_def split: phase.splits if_splits)

definition thread_ok :: "executor_thread \<Rightarrow> bool" where
  "thread_ok th \<longleftrightarrow> (case t_phase th of
     Created \<Rightarrow> t_fds th = no_fds | Piped p \<Rightarrow> t_fds th = no_fds | Forked p \<Rightarrow> t_fds th = no_fds
   | Collecting \<Rightarrow> fst (signal_fd (t_fds th)) = - 1 \<longrightarrow> snd (signal_fd (t_fds th)) = - 1
   | Closed \<Rightarrow> fst (signal_fd (t_fds th)) = - 1)"

abbreviation open_fds :: "fd_table \<Rightarrow> (int \<times> open_file) set" where
  "open_fds t \<equiv> Map.graph (fd_view t)"

definition fds_ok :: "fd_table \<Rightarrow> executor_world \<Rightarrow> bool" where
  "fds_ok t0 w \<longleftrightarrow> length (reporter_fds w) = length t0 \<and> (\<forall>th \<in> set (threads w). thread_ok th) \<and>
     open_fds (reporter_fds w) = open_fds t0 \<union> (\<Union>i<length (threads w). held i (threads w ! i))"

lemma fd_view_in_table: "fd_view t k = Some f \<Longrightarrow> Some f \<in> set t"
  by (auto simp: fd_view_def split: if_splits) (metis nth_mem)

lemma in_table_fd_view: "Some f \<in> set t \<longleftrightarrow> (\<exists>k. (k, f) \<in> open_fds t)"
proof
  assume "Some f \<in> set t"
  then obtain n where "n < length t" "t ! n = Some f" by (auto simp: in_set_conv_nth)
  then have "fd_view t (int n) = Some f" by (simp add: fd_view_def)
  then show "\<exists>k. (k, f) \<in> open_fds t" by (auto simp: graph_def)
qed (auto simp: graph_def dest: fd_view_in_table)

lemma base_owner: "base_table t0 \<Longrightarrow> x \<in> open_fds t0 \<Longrightarrow> owner (snd x) = None"
  using fd_view_in_table by (fastforce simp: base_table_def graph_def)

lemma thread_ok_nth: "fds_ok t0 w \<Longrightarrow> i < length (threads w) \<Longrightarrow> thread_ok (threads w ! i)"
  by (simp add: fds_ok_def)

lemma held_open: "fds_ok t0 w \<Longrightarrow> i < length (threads w) \<Longrightarrow> held i (threads w ! i) \<subseteq> open_fds (reporter_fds w)"
  by (auto simp: fds_ok_def)

lemma fds_ok_set_thread:
  assumes "base_table t0" "fds_ok t0 w" "i < length (threads w)" "thread_ok th" "length t = length (reporter_fds w)"
    and "open_fds t = (open_fds (reporter_fds w) - held i (threads w ! i)) \<union> held i th"
  shows "fds_ok t0 (set_thread i th (w\<lparr>reporter_fds := t\<rparr>))"
proof -
  have "open_fds (reporter_fds w) - held i (threads w ! i) =
      open_fds t0 \<union> (\<Union>j\<in>{..<length (threads w)} - {i}. held j (threads w ! j))"
  proof -
    have "x \<notin> held i (threads w ! i)" if "x \<in> open_fds t0" for x
      using base_owner [OF assms(1) that] held_owner [of x i "threads w ! i"] by auto
    moreover have "x \<notin> held i (threads w ! i)" if "x \<in> held j (threads w ! j)" "j \<noteq> i" for x j
      using that held_owner [of x j "threads w ! j"] held_owner [of x i "threads w ! i"] by auto
    moreover have "open_fds (reporter_fds w) = open_fds t0 \<union> (\<Union>j<length (threads w). held j (threads w ! j))"
      using assms(2) by (simp add: fds_ok_def)
    ultimately show ?thesis by blast
  qed
  moreover have "(\<Union>j<length (threads w). held j ((threads w)[i := th] ! j)) =
      (\<Union>j\<in>{..<length (threads w)} - {i}. held j (threads w ! j)) \<union> held i th"
    using assms(3) by (auto simp: nth_list_update split: if_splits)
  ultimately show ?thesis
    using assms by (auto simp: fds_ok_def set_thread_def dest!: set_update_subset_insert [THEN subsetD])
qed

lemma create_pipesD:
  assumes "create_pipes i t = Inr (p, t')"
  shows "open_fds t' = open_fds t \<union> pipe_ends i p" "length t' = length t"
proof -
  obtain t1 t2 where
    "fd_pipe i Stdin t = Some (fst (stdin_pipes p), snd (stdin_pipes p), t1)"
    "fd_pipe i Stdout t1 = Some (fst (stdout_pipes p), snd (stdout_pipes p), t2)"
    "fd_pipe i Stderr t2 = Some (fst (stderr_pipes p), snd (stderr_pipes p), t')"
    using assms by (auto simp: create_pipes_def split: option.splits)
  from this [THEN fd_pipeD(1)] this [THEN fd_pipeD(2)]
  show "open_fds t' = open_fds t \<union> pipe_ends i p" "length t' = length t"
    by (auto simp: pipe_ends_def)
qed

lemma swap_ends:
  "S1 = S \<union> N \<Longrightarrow> A = R \<union> K \<Longrightarrow> A \<subseteq> S \<Longrightarrow> R \<inter> K = {} \<Longrightarrow> R \<inter> N = {} \<Longrightarrow> S1 - R = S - A \<union> (K \<union> N)"
  by auto

lemma parent_fdsD:
  assumes "parent_fds i p t = (e, t')" "pipe_ends i p \<subseteq> open_fds t"
  shows "open_fds t' = open_fds t - pipe_ends i p \<union> kept i e" "length t' = length t"
    "fst (signal_fd e) = - 1 \<longrightarrow> snd (signal_fd e) = - 1"
proof -
  let ?ks = "[fst (stdin_pipes p), snd (stdout_pipes p), snd (stderr_pipes p)]"
  let ?fs = "[Read_End i Stdin, Write_End i Stdout, Write_End i Stderr]"
  let ?K = "{(snd (stdin_pipes p), Write_End i Stdin), (fst (stdout_pipes p), Read_End i Stdout),
    (fst (stderr_pipes p), Read_End i Stderr)}"
  have closed: "open_fds (fold fd_close ?ks t1) = open_fds t - pipe_ends i p \<union> (?K \<union> N)"
    if "open_fds t1 = open_fds t \<union> N" "\<forall>(k, f) \<in> N. f \<notin> set ?fs" for t1 N
  proof -
    have "open_fds (fold fd_close ?ks t1) = open_fds t1 - set (zip ?ks ?fs)"
      using that(1) assms(2) by (intro fd.graph_close_all) (auto simp: pipe_ends_def)
    also have "\<dots> = open_fds t - pipe_ends i p \<union> (?K \<union> N)"
      using that assms(2) by (intro swap_ends) (auto simp: pipe_ends_def)
    finally show ?thesis .
  qed
  have e: "stdin_write_fd e = snd (stdin_pipes p)" "stdout_read_fd e = fst (stdout_pipes p)"
    "stderr_read_fd e = fst (stderr_pipes p)"
    using assms(1) by (auto simp: parent_fds_def split: option.splits)
  have "open_fds t' = open_fds t - pipe_ends i p \<union> kept i e \<and> length t' = length t \<and>
      (fst (signal_fd e) = - 1 \<longrightarrow> snd (signal_fd e) = - 1)"
  proof (cases "fd_pipe i Signal_Pipe t")
    case None
    then have "t' = fold fd_close ?ks t" "signal_fd e = (- 1, - 1)" using assms(1) by (auto simp: parent_fds_def)
    with closed [of t "{}"] e show ?thesis by (simp add: kept_def del: fold_simps)
  next
    case (Some x)
    then obtain r w t1 where sig: "fd_pipe i Signal_Pipe t = Some (r, w, t1)" by (cases x) auto
    then have t': "t' = fold fd_close ?ks t1" "signal_fd e = (r, w)" using assms(1) by (auto simp: parent_fds_def)
    from fd_pipeD [OF sig] closed [of t1 "{(r, Read_End i Signal_Pipe), (w, Write_End i Signal_Pipe)}"]
    have "open_fds t' = open_fds t - pipe_ends i p \<union> (?K \<union> {(r, Read_End i Signal_Pipe), (w, Write_End i Signal_Pipe)})"
      "length t' = length t" "r \<noteq> - 1"
      unfolding t' by (simp_all del: fold_simps)
    with t' e show ?thesis by (simp add: kept_def)
  qed
  then show "open_fds t' = open_fds t - pipe_ends i p \<union> kept i e" "length t' = length t"
    "fst (signal_fd e) = - 1 \<longrightarrow> snd (signal_fd e) = - 1" by simp_all
qed

lemma close_executor_fdsD:
  assumes "close_executor_fds e t = (e', t')" "kept i e \<subseteq> open_fds t"
    and "fst (signal_fd e) = - 1 \<longrightarrow> snd (signal_fd e) = - 1"
  shows "open_fds t' = open_fds t - kept i e" "length t' = length t" "fst (signal_fd e') = - 1"
proof -
  let ?ks = "[stdin_write_fd e, stdout_read_fd e, stderr_read_fd e]"
  let ?fs = "[Write_End i Stdin, Read_End i Stdout, Read_End i Stderr]"
  have t': "t' = fd_close (snd (signal_fd e)) (fd_close (fst (signal_fd e)) (fold fd_close ?ks t))"
    and e': "e' = e\<lparr>signal_fd := (- 1, snd (signal_fd e))\<rparr>"
    using assms(1) by (auto simp: close_executor_fds_def)
  show "length t' = length t" "fst (signal_fd e') = - 1" unfolding t' e' by simp_all
  show "open_fds t' = open_fds t - kept i e"
  proof (cases "fst (signal_fd e) = - 1")
    case True
    have "open_fds (fold fd_close ?ks t) = open_fds t - set (zip ?ks ?fs)"
      using assms(2) by (intro fd.graph_close_all) (auto simp: kept_def)
    moreover have "t' = fold fd_close ?ks t" unfolding t' using True assms(3) by (simp add: fd_close_def)
    ultimately show ?thesis using True by (simp add: kept_def del: fold_simps)
  next
    case False
    let ?ks' = "?ks @ [fst (signal_fd e), snd (signal_fd e)]"
    let ?fs' = "?fs @ [Read_End i Signal_Pipe, Write_End i Signal_Pipe]"
    have "open_fds (fold fd_close ?ks' t) = open_fds t - set (zip ?ks' ?fs')"
      using assms(2) False by (intro fd.graph_close_all) (auto simp: kept_def)
    moreover have "t' = fold fd_close ?ks' t" unfolding t' by simp
    ultimately show ?thesis using False by (simp add: kept_def insert_commute del: fold_simps)
  qed
qed

lemma new_thread_simps [simp]:
  "t_phase new_thread = Created" "t_fds new_thread = no_fds" "\<not> t_signalled new_thread" "\<not> t_destroyed new_thread"
  by (simp_all add: new_thread_def)

lemma destroy_thread_simps [simp]:
  "t_phase (destroy_thread th) = t_phase th" "t_fds (destroy_thread th) = t_fds th"
  "t_destroyed (destroy_thread th)"
  by (simp_all add: destroy_thread_def)

lemma destroy_thread_holds [simp]:
  "held i (destroy_thread th) = held i th" "thread_ok (destroy_thread th) = thread_ok th"
  by (simp_all add: held_def thread_ok_def cong: phase.case_cong)

lemmas executor_step_defs = executor_enabled_def executor_exec_def phase_of_def

lemma fds_ok_idle: "fds_ok t0 (idle_world t0)"
  by (simp add: fds_ok_def idle_world_def)

lemma thread_ok_fresh: "thread_ok th \<Longrightarrow> t_phase th \<in> {Created} \<union> range Piped \<union> range Forked \<Longrightarrow> t_fds th = no_fds"
  by (auto simp: thread_ok_def)

lemma fds_ok_phase:
  assumes "base_table t0" "fds_ok t0 w" "i < length (threads w)" "thread_ok th" "held i th = held i (threads w ! i)"
  shows "fds_ok t0 (set_thread i th (w\<lparr>children := cs\<rparr>))"
proof -
  have "fds_ok t0 (set_thread i th (w\<lparr>reporter_fds := reporter_fds w\<rparr>))"
    using held_open [OF assms(2,3)] assms by (intro fds_ok_set_thread) auto
  then show ?thesis by (simp add: fds_ok_def set_thread_def)
qed

lemma fds_ok_launch:
  assumes "base_table t0" "fds_ok t0 w" "executor_enabled Launch w" "executor_exec Launch w = Inr w'"
  shows "fds_ok t0 w'"
proof -
  have "(\<Union>i<length (threads w @ [new_thread]). held i ((threads w @ [new_thread]) ! i)) =
      (\<Union>i<length (threads w). held i (threads w ! i)) \<union> held (length (threads w)) new_thread"
    by (simp add: lessThan_Suc nth_append Un_commute)
  moreover have "held (length (threads w)) new_thread = {}" "thread_ok new_thread"
    by (simp_all add: held_def new_thread_def thread_ok_def)
  moreover have "w' = w\<lparr>threads := threads w @ [new_thread]\<rparr>" using assms(4) by (simp add: executor_exec_def)
  ultimately show ?thesis using assms(2) by (simp add: fds_ok_def)
qed

lemma fds_ok_parent:
  assumes "base_table t0" "fds_ok t0 w" "executor_enabled (Parent i) w" "executor_exec (Parent i) w = Inr w'"
  shows "fds_ok t0 w'"
proof -
  let ?th = "threads w ! i"
  from assms(3,4) obtain p e t where i: "i < length (threads w)" "t_phase ?th = Forked p"
    "parent_fds i p (reporter_fds w) = (e, t)"
    "w' = set_thread i (?th\<lparr>t_phase := Collecting, t_fds := e\<rparr>) (w\<lparr>reporter_fds := t\<rparr>)"
    by (auto simp: executor_step_defs split: if_splits phase.splits prod.splits)
  have "pipe_ends i p \<subseteq> open_fds (reporter_fds w)"
    using held_open [OF assms(2) i(1)] i(2) by (simp add: held_def)
  with parent_fdsD [OF i(3)] show ?thesis
    unfolding i(4) using i by (intro fds_ok_set_thread assms(1,2)) (auto simp: held_def thread_ok_def)
qed

lemma fds_ok_finish:
  assumes "base_table t0" "fds_ok t0 w" "executor_enabled (Finish i) w" "executor_exec (Finish i) w = Inr w'"
  shows "fds_ok t0 w'"
proof -
  let ?th = "threads w ! i"
  from assms(3,4) obtain e t where i: "i < length (threads w)" "t_phase ?th = Collecting"
    "close_executor_fds (t_fds ?th) (reporter_fds w) = (e, t)"
    "w' = set_thread i (?th\<lparr>t_phase := Closed, t_fds := e\<rparr>) (w\<lparr>reporter_fds := t\<rparr>)"
    by (auto simp: executor_step_defs split: if_splits prod.splits)
  have "kept i (t_fds ?th) \<subseteq> open_fds (reporter_fds w)"
    using held_open [OF assms(2) i(1)] i(2) by (simp add: held_def)
  with close_executor_fdsD [OF i(3)] thread_ok_nth [OF assms(2) i(1)] i show ?thesis
    unfolding i(4) by (intro fds_ok_set_thread assms(1,2)) (auto simp: held_def thread_ok_def)
qed

lemma fds_ok_step:
  assumes "base_table t0" "fds_ok t0 w" "executor_enabled ev w" "executor_exec ev w = Inr w'"
  shows "fds_ok t0 w'"
proof (cases ev)
  case Launch
  with assms show ?thesis using fds_ok_launch by blast
next
  case (Make_Pipes i)
  let ?th = "threads w ! i"
  from Make_Pipes assms(3) have i: "i < length (threads w)" "t_phase ?th = Created"
    by (auto simp: executor_step_defs split: if_splits)
  with Make_Pipes assms(4) obtain p t where p: "create_pipes i (reporter_fds w) = Inr (p, t)"
    "w' = set_thread i (?th\<lparr>t_phase := Piped p\<rparr>) (w\<lparr>reporter_fds := t\<rparr>)"
    by (auto simp: executor_step_defs)
  show ?thesis
    unfolding p(2) using i thread_ok_nth [OF assms(2) i(1)] create_pipesD [OF p(1)]
    by (intro fds_ok_set_thread assms(1,2)) (auto simp: held_def thread_ok_def)
next
  case (Fork i r)
  let ?th = "threads w ! i"
  from Fork assms(3,4) obtain p cs where i: "i < length (threads w)" "t_phase ?th = Piped p"
    "w' = set_thread i (?th\<lparr>t_phase := Forked p\<rparr>) (w\<lparr>children := cs\<rparr>)"
    by (auto simp: executor_step_defs split: if_splits phase.splits)
  show ?thesis
    unfolding i(3) using i thread_ok_nth [OF assms(2) i(1)]
    by (intro fds_ok_phase assms(1,2)) (auto simp: held_def thread_ok_def)
next
  case (Parent i)
  with assms show ?thesis using fds_ok_parent by blast
next
  case (Child_Exits i)
  with assms show ?thesis by (auto simp: executor_step_defs fds_ok_def)
next
  case (Process k a)
  with assms show ?thesis by (auto simp: executor_step_defs fds_ok_def)
next
  case (Finish i)
  with assms show ?thesis using fds_ok_finish by blast
next
  case (Destroy i)
  let ?th = "threads w ! i"
  from Destroy assms(3,4) have i: "i < length (threads w)" "w' = set_thread i (destroy_thread ?th) (w\<lparr>children := children w\<rparr>)"
    by (auto simp: executor_step_defs)
  show ?thesis
    unfolding i(2) using i(1) thread_ok_nth [OF assms(2) i(1)] by (intro fds_ok_phase assms(1,2)) simp_all
qed

lemma fds_ok_run:
  "executor_run allowed w evs w' \<Longrightarrow> base_table t0 \<Longrightarrow> fds_ok t0 w \<Longrightarrow> fds_ok t0 w'"
  by (induction rule: executor_run.induct) (auto intro: fds_ok_step)

section \<open>No descriptor is lost\<close>

lemma in_graph_iff: "(k, v) \<in> Map.graph m \<longleftrightarrow> m k = Some v"
  by (simp add: graph_def)

lemma graph_inject: "Map.graph m = Map.graph m' \<Longrightarrow> m = m'"
proof (rule ext)
  fix k
  assume "Map.graph m = Map.graph m'"
  then have "m k = Some v \<longleftrightarrow> m' k = Some v" for v by (simp flip: in_graph_iff)
  then show "m k = m' k" by (metis not_None_eq)
qed

text \<open>
  C5. However the executors interleave, and whatever their commands do: once none of them is
  between making its pipes and closing them, the reporter has exactly the descriptors it
  had before the first command, and a descriptor of a command that collects output is an
  end of that command's own pipes.
\<close>

theorem executors_leak_nothing:
  assumes "base_table t0" "executor_run allowed (idle_world t0) evs w"
  shows "((\<forall>th \<in> set (threads w). t_phase th = Created \<or> t_phase th = Closed) \<longrightarrow> reporter_fds w = t0) \<and>
    (\<forall>i < length (threads w). t_phase (threads w ! i) = Collecting \<longrightarrow>
      fd_view (reporter_fds w) (stdin_write_fd (t_fds (threads w ! i))) = Some (Write_End i Stdin) \<and>
      fd_view (reporter_fds w) (stdout_read_fd (t_fds (threads w ! i))) = Some (Read_End i Stdout) \<and>
      fd_view (reporter_fds w) (stderr_read_fd (t_fds (threads w ! i))) = Some (Read_End i Stderr))"
proof -
  have ok: "fds_ok t0 w"
    by (rule fds_ok_run [OF assms(2,1) fds_ok_idle])
  have "reporter_fds w = t0" if "\<forall>th \<in> set (threads w). t_phase th = Created \<or> t_phase th = Closed"
  proof (rule fd_table_ext)
    have "held i (threads w ! i) = {}" if "i < length (threads w)" for i
      using \<open>\<forall>th \<in> set (threads w). _\<close> that by (auto simp: held_def dest!: nth_mem)
    then have "open_fds (reporter_fds w) = open_fds t0" using ok by (simp add: fds_ok_def)
    then show "fd_view (reporter_fds w) = fd_view t0" by (rule graph_inject)
  qed (use ok in \<open>simp add: fds_ok_def\<close>)
  moreover have "kept i (t_fds (threads w ! i)) \<subseteq> open_fds (reporter_fds w)"
    if "i < length (threads w)" "t_phase (threads w ! i) = Collecting" for i
    using held_open [OF ok that(1)] that(2) by (simp add: held_def)
  then have "\<forall>i < length (threads w). t_phase (threads w ! i) = Collecting \<longrightarrow>
      fd_view (reporter_fds w) (stdin_write_fd (t_fds (threads w ! i))) = Some (Write_End i Stdin) \<and>
      fd_view (reporter_fds w) (stdout_read_fd (t_fds (threads w ! i))) = Some (Read_End i Stdout) \<and>
      fd_view (reporter_fds w) (stderr_read_fd (t_fds (threads w ! i))) = Some (Read_End i Stderr)"
    by (simp add: kept_def graph_def)
  ultimately show ?thesis by blast
qed

section \<open>What a child inherits\<close>

lemma fd_view_nat: "fd_view t (int n) = (if n < length t then t ! n else None)"
  by (simp add: fd_view_def)

lemma fd_dup_lowest:
  assumes "fd_view t k = Some f" "fd_view t (int n) = None" "n < length t" "\<And>j. j < n \<Longrightarrow> fd_view t (int j) \<noteq> None"
  shows "fd_view (fd_dup k t) = (fd_view t)(int n \<mapsto> f)"
proof -
  have "lowest_free t = Some n"
    using assms(2-4) by (intro lowest_freeI) (auto simp: fd_view_nat split: if_splits)
  then have a: "fd_alloc f t = Some (int n, t[n := Some f])" by (simp add: fd_alloc_def)
  then have "fd_dup k t = t[n := Some f]" using assms(1) by (simp add: fd_dup_def)
  with fd.view_alloc [OF a] show ?thesis by simp
qed

text \<open>Closing one of the standard streams and duplicating a descriptor puts it in its place.\<close>

lemma fd_replace:
  assumes "fd_view t k = Some f" "k \<noteq> int n" "\<And>j. j \<le> n \<Longrightarrow> fd_view t (int j) \<noteq> None"
  shows "fd_view (fd_dup k (fd_close (int n) t)) = (fd_view t)(int n \<mapsto> f)"
proof -
  have "n < length t" using assms(3) [of n] by (auto simp: fd_view_nat split: if_splits)
  moreover have "fd_view (fd_close (int n) t) (int j) \<noteq> None" if "j < n" for j
    using assms(3) [of j] that by (simp add: fd.view_close)
  ultimately have "fd_view (fd_dup k (fd_close (int n) t)) = (fd_view (fd_close (int n) t))(int n \<mapsto> f)"
    using assms(1,2) by (intro fd_dup_lowest) (auto simp: fd.view_close)
  then show ?thesis by (simp add: fd.view_close)
qed

lemma child_view:
  assumes "pipe_ends i p \<subseteq> open_fds t" "\<And>k. k \<in> {0, 1, 2} \<Longrightarrow> \<exists>f. fd_view t k = Some f \<and> owner f = None"
  shows "fd_view (child_fds p t) = (\<lambda>k. if k \<in> fst ` pipe_ends i p then None else fd_view t k)
    (0 \<mapsto> Read_End i Stdin, 1 \<mapsto> Write_End i Stdout, 2 \<mapsto> Write_End i Stderr)"
proof -
  have own: "fd_view t k = Some f" "k \<notin> {0, 1, 2}" if "(k, f) \<in> pipe_ends i p" for k f
  proof -
    show v: "fd_view t k = Some f" using assms(1) that by (auto simp flip: in_graph_iff)
    have "owner f = Some i" using that by (auto simp: pipe_ends_def)
    then show "k \<notin> {0, 1, 2}" using assms(2) [of k] v by auto
  qed
  have p: "(fst (stdin_pipes p), Read_End i Stdin) \<in> pipe_ends i p" "(snd (stdout_pipes p), Write_End i Stdout) \<in> pipe_ends i p"
    "(snd (stderr_pipes p), Write_End i Stderr) \<in> pipe_ends i p" by (simp_all add: pipe_ends_def)
  define t1 where "t1 = fd_dup (fst (stdin_pipes p)) (fd_close (int 0) t)"
  define t2 where "t2 = fd_dup (snd (stdout_pipes p)) (fd_close (int 1) t1)"
  define t3 where "t3 = fd_dup (snd (stderr_pipes p)) (fd_close (int 2) t2)"
  have std: "fd_view t 0 \<noteq> None" "fd_view t 1 \<noteq> None" "fd_view t 2 \<noteq> None" using assms(2) by force+
  have v1: "fd_view t1 = (fd_view t)(0 \<mapsto> Read_End i Stdin)"
    unfolding t1_def using fd_replace [OF own(1) [OF p(1)], of 0] own(2) [OF p(1)] std by simp
  have v2: "fd_view t2 = (fd_view t1)(1 \<mapsto> Write_End i Stdout)"
    unfolding t2_def using own [OF p(2)] std
    by (subst fd_replace [of t1 "snd (stdout_pipes p)" "Write_End i Stdout" 1]) (auto simp: v1 le_Suc_eq)
  have v3: "fd_view t3 = (fd_view t2)(2 \<mapsto> Write_End i Stderr)"
    unfolding t3_def using own [OF p(3)] std
    by (subst fd_replace [of t2 "snd (stderr_pipes p)" "Write_End i Stderr" 2]) (auto simp: v1 v2 le_Suc_eq numeral_2_eq_2)
  have child: "child_fds p t = fold fd_close [fst (stdin_pipes p), snd (stdin_pipes p), fst (stdout_pipes p),
      snd (stdout_pipes p), fst (stderr_pipes p), snd (stderr_pipes p)] t3"
    by (simp add: child_fds_def t3_def t2_def t1_def)
  have "fd_view (child_fds p t) = (\<lambda>k. if k \<in> fst ` pipe_ends i p then None else fd_view t3 k)"
    unfolding child fd.view_close_all by (simp add: pipe_ends_def)
  then show ?thesis
    using own(2) unfolding v1 v2 v3 by (fastforce simp: fun_eq_iff)
qed

lemma reporter_owned:
  assumes "base_table t0" "fds_ok t0 w" "i < length (threads w)"
  shows "fd_view (reporter_fds w) k = Some f \<and> owner f = Some i \<longleftrightarrow> (k, f) \<in> held i (threads w ! i)"
proof
  assume f: "fd_view (reporter_fds w) k = Some f \<and> owner f = Some i"
  then have "(k, f) \<in> open_fds t0 \<union> (\<Union>j<length (threads w). held j (threads w ! j))"
    using assms(2) by (simp add: fds_ok_def flip: in_graph_iff)
  with f base_owner [OF assms(1), of "(k, f)"] held_owner [of "(k, f)"] show "(k, f) \<in> held i (threads w ! i)" by fastforce
next
  assume "(k, f) \<in> held i (threads w ! i)"
  then show "fd_view (reporter_fds w) k = Some f \<and> owner f = Some i"
    using held_open [OF assms(2,3)] held_owner [of "(k, f)"] by (auto simp flip: in_graph_iff)
qed

lemma reporter_standard:
  assumes "base_table t0" "fds_ok t0 w" "k \<in> {0, 1, 2}"
  shows "\<exists>f. fd_view (reporter_fds w) k = Some f \<and> owner f = None"
proof -
  obtain f where f: "(k, f) \<in> open_fds t0" using assms(1,3) by (auto simp: base_table_def in_graph_iff)
  then have "(k, f) \<in> open_fds (reporter_fds w)" using assms(2) by (simp add: fds_ok_def)
  with base_owner [OF assms(1) f] show ?thesis by (auto simp: in_graph_iff)
qed

lemma child_descriptors_aux:
  assumes "base_table t0" "executor_run allowed (idle_world t0) evs w"
    and "executor_enabled (Fork i r) w" "r \<noteq> Fork_Failed" "executor_exec (Fork i r) w = Inr w'"
  shows "\<exists>c. children w' = children w @ [c] \<and> c_owner c = i \<and>
    fd_view (c_table c) = (\<lambda>k. case fd_view (reporter_fds w) k of
        None \<Rightarrow> None | Some f \<Rightarrow> if owner f = Some i then None else Some f)
      (0 \<mapsto> Read_End i Stdin, 1 \<mapsto> Write_End i Stdout, 2 \<mapsto> Write_End i Stderr)"
proof -
  have ok: "fds_ok t0 w"
    by (rule fds_ok_run [OF assms(2,1) fds_ok_idle])
  from assms(3) obtain p where i: "i < length (threads w)" "t_phase (threads w ! i) = Piped p"
    by (auto simp: executor_step_defs split: if_splits phase.splits)
  have "fd_view (child_fds p (reporter_fds w)) = (\<lambda>k. if k \<in> fst ` pipe_ends i p then None else fd_view (reporter_fds w) k)
      (0 \<mapsto> Read_End i Stdin, 1 \<mapsto> Write_End i Stdout, 2 \<mapsto> Write_End i Stderr)"
    using held_open [OF ok i(1)] i(2) reporter_standard [OF assms(1) ok] by (intro child_view) (auto simp: held_def)
  also have "(\<lambda>k. if k \<in> fst ` pipe_ends i p then None else fd_view (reporter_fds w) k) =
      (\<lambda>k. case fd_view (reporter_fds w) k of None \<Rightarrow> None | Some f \<Rightarrow> if owner f = Some i then None else Some f)"
  proof
    fix k
    have "k \<in> fst ` pipe_ends i p \<longleftrightarrow> (\<exists>f. fd_view (reporter_fds w) k = Some f \<and> owner f = Some i)"
      using reporter_owned [OF assms(1) ok i(1), of k] i(2) by (force simp: held_def image_iff)
    then show "(if k \<in> fst ` pipe_ends i p then None else fd_view (reporter_fds w) k) =
      (case fd_view (reporter_fds w) k of None \<Rightarrow> None | Some f \<Rightarrow> if owner f = Some i then None else Some f)"
      by (auto split: option.splits)
  qed
  finally have view: "fd_view (child_fds p (reporter_fds w)) =
      (\<lambda>k. case fd_view (reporter_fds w) k of None \<Rightarrow> None | Some f \<Rightarrow> if owner f = Some i then None else Some f)
      (0 \<mapsto> Read_End i Stdin, 1 \<mapsto> Write_End i Stdout, 2 \<mapsto> Write_End i Stderr)" .
  have "\<exists>c. children w' = children w @ [c] \<and> c_owner c = i \<and> c_table c = child_fds p (reporter_fds w)"
    using assms(4,5) i(2) by (cases r) (auto simp: executor_exec_def forked_child_def set_thread_def)
  with view show ?thesis by metis
qed

text \<open>
  C33. A command starts with the three ends of its own pipes as its standard streams and has
  no other end of them. It inherits every other descriptor the reporter has at that moment:
  its files and connections, and the pipes of all other commands.
\<close>

theorem child_descriptors:
  assumes "base_table t0" "executor_run allowed (idle_world t0) evs w"
    and "executor_enabled (Fork i r) w" "r \<noteq> Fork_Failed" "executor_exec (Fork i r) w = Inr w'"
  shows "\<exists>c. children w' = children w @ [c] \<and> c_owner c = i \<and>
    fd_view (c_table c) = (\<lambda>k. case fd_view (reporter_fds w) k of
        None \<Rightarrow> None | Some f \<Rightarrow> if owner f = Some i then None else Some f)
      (0 \<mapsto> Read_End i Stdin, 1 \<mapsto> Write_End i Stdout, 2 \<mapsto> Write_End i Stderr)"
  using assms by (rule child_descriptors_aux)

section \<open>Seeing the end of a command\<close>

fun is_starting :: "phase \<Rightarrow> bool" where
  "is_starting (Piped p) = True"
| "is_starting (Forked p) = True"
| "is_starting _ = False"

lemma stdout_writer_held: "(k, Write_End j Stdout) \<in> held j th \<Longrightarrow> is_starting (t_phase th)"
  by (auto simp: held_def kept_def split: phase.splits if_splits)

lemma starting_holds_stdout: "is_starting (t_phase th) \<Longrightarrow> \<exists>k. (k, Write_End j Stdout) \<in> held j th"
  by (cases "t_phase th") (auto simp: held_def pipe_ends_def)

text \<open>The reporter itself can write to the output pipe of a command only while it starts the command.\<close>

lemma reporter_stdout_writer:
  assumes "base_table t0" "fds_ok t0 w"
  shows "Some (Write_End j Stdout) \<in> set (reporter_fds w) \<longleftrightarrow>
    j < length (threads w) \<and> is_starting (t_phase (threads w ! j))"
proof
  assume "Some (Write_End j Stdout) \<in> set (reporter_fds w)"
  then obtain k where "(k, Write_End j Stdout) \<in> open_fds t0 \<union> (\<Union>i<length (threads w). held i (threads w ! i))"
    using assms(2) unfolding in_table_fd_view by (auto simp: fds_ok_def)
  with base_owner [OF assms(1), of "(k, Write_End j Stdout)"] held_owner [of "(k, Write_End j Stdout)"]
  have "j < length (threads w)" "(k, Write_End j Stdout) \<in> held j (threads w ! j)" by fastforce+
  then show "j < length (threads w) \<and> is_starting (t_phase (threads w ! j))" using stdout_writer_held by blast
next
  assume j: "j < length (threads w) \<and> is_starting (t_phase (threads w ! j))"
  with starting_holds_stdout obtain k where "(k, Write_End j Stdout) \<in> held j (threads w ! j)" by blast
  with j held_open [OF assms(2), of j] show "Some (Write_End j Stdout) \<in> set (reporter_fds w)"
    unfolding in_table_fd_view by blast
qed

text \<open>No two commands are started at the same time.\<close>

definition one_at_a_time :: "executor_event \<Rightarrow> executor_world \<Rightarrow> bool" where
  "one_at_a_time ev w \<longleftrightarrow>
     (case ev of Make_Pipes i \<Rightarrow> \<forall>th \<in> set (threads w). \<not> is_starting (t_phase th) | _ \<Rightarrow> True)"

definition starts_apart :: "executor_world \<Rightarrow> bool" where
  "starts_apart w \<longleftrightarrow> (\<forall>i < length (threads w). \<forall>j < length (threads w).
     is_starting (t_phase (threads w ! i)) \<longrightarrow> is_starting (t_phase (threads w ! j)) \<longrightarrow> i = j)"

definition writers_apart :: "executor_world \<Rightarrow> bool" where
  "writers_apart w \<longleftrightarrow> (\<forall>c \<in> set (children w). \<forall>j. Some (Write_End j Stdout) \<in> set (c_table c) \<longrightarrow> j = c_owner c)"

lemma starts_apart_step:
  assumes "starts_apart w" "executor_enabled ev w" "one_at_a_time ev w" "executor_exec ev w = Inr w'"
  shows "starts_apart w'"
proof (cases ev)
  case (Make_Pipes i)
  then obtain p where "threads w' = (threads w)[i := (threads w ! i)\<lparr>t_phase := Piped p\<rparr>]"
    using assms(4) by (auto simp: executor_exec_def set_thread_def)
  then have "j = i" if "j < length (threads w')" "is_starting (t_phase (threads w' ! j))" for j
    using that Make_Pipes assms(3) by (cases "j = i") (auto simp: one_at_a_time_def)
  then show ?thesis unfolding starts_apart_def by blast
qed (use assms in \<open>auto simp: executor_step_defs starts_apart_def set_thread_def nth_append nth_list_update
      split: if_splits phase.splits prod.splits\<close>)

lemma child_stdout_writer:
  assumes "fd_view t = (\<lambda>k. case fd_view t1 k of None \<Rightarrow> None | Some f \<Rightarrow> if owner f = Some i then None else Some f)
      (0 \<mapsto> Read_End i Stdin, 1 \<mapsto> Write_End i Stdout, 2 \<mapsto> Write_End i Stderr)"
  shows "Some (Write_End i Stdout) \<in> set t"
    "j \<noteq> i \<Longrightarrow> Some (Write_End j Stdout) \<in> set t \<Longrightarrow> Some (Write_End j Stdout) \<in> set t1"
proof -
  have "fd_view t 1 = Some (Write_End i Stdout)" by (simp add: assms)
  then show "Some (Write_End i Stdout) \<in> set t" by (rule fd_view_in_table)
  show "j \<noteq> i \<Longrightarrow> Some (Write_End j Stdout) \<in> set t \<Longrightarrow> Some (Write_End j Stdout) \<in> set t1"
    by (auto simp: in_table_fd_view in_graph_iff assms split: option.splits if_splits)
qed

lemma fd_close_files: "Some f \<in> set (fd_close k t) \<Longrightarrow> Some f \<in> set t"
  by (auto simp: fd_close_def dest: set_update_subset_insert [THEN subsetD] split: if_splits)

text \<open>An action leaves the command and the loop as they are, and gives no process a new file.\<close>

lemma process_resultD:
  assumes "c' \<in> set (process_result a c)"
  shows "c_owner c' = c_owner c" "c_loop c' = c_loop c" "Some f \<in> set (c_table c') \<Longrightarrow> Some f \<in> set (c_table c)"
proof -
  show "c_owner c' = c_owner c" "c_loop c' = c_loop c"
    using assms by (cases a; auto simp: process_result_def split: if_splits)+
  show "Some f \<in> set (c_table c') \<Longrightarrow> Some f \<in> set (c_table c)"
    using assms by (cases a) (auto simp: process_result_def fd_view_in_table split: if_splits option.splits
        dest: fd_close_files set_update_subset_insert [THEN subsetD])
qed

lemma executor_step_children:
  assumes "executor_enabled ev w" "executor_exec ev w = Inr w'"
  obtains i r p where "ev = Fork i r" "i < length (threads w)" "t_phase (threads w ! i) = Piped p"
      "children w' = children w @ forked_child i r p (reporter_fds w)" "threads w' = (threads w)[i := (threads w ! i)\<lparr>t_phase := Forked p\<rparr>]"
  | i where "ev = Child_Exits i" "children w' = List.filter (\<lambda>c. c_owner c \<noteq> i) (children w)"
  | k a where "ev = Process k a" "k < length (children w)" "c_loop (children w ! k) = None"
      "children w' = take k (children w) @ process_result a (children w ! k) @ drop (Suc k) (children w)"
  | "children w' = children w"
proof (cases ev)
  case (Fork i r)
  with assms obtain p where "i < length (threads w)" "t_phase (threads w ! i) = Piped p"
    by (auto simp: executor_step_defs split: if_splits phase.splits)
  with Fork assms(2) show ?thesis by (intro that(1) [of i r p]) (auto simp: executor_exec_def set_thread_def)
next
  case (Child_Exits i)
  with assms(2) show ?thesis by (intro that(2) [of i]) (auto simp: executor_exec_def)
next
  case (Process k a)
  with assms show ?thesis by (intro that(3) [of k a]) (auto simp: executor_step_defs)
next
  case (Parent i)
  with assms show ?thesis
    by (intro that(4)) (auto simp: executor_exec_def set_thread_def split: phase.splits prod.splits)
qed (use assms(2) in \<open>intro that(4), auto simp: executor_exec_def set_thread_def split: prod.splits\<close>)

lemma replaced_child:
  assumes "c' \<in> set (take k cs @ process_result a (cs ! k) @ drop (Suc k) cs)" "k < length cs"
  obtains "c' \<in> set cs" | "cs ! k \<in> set cs" "c' \<in> set (process_result a (cs ! k))"
  using assms by (auto dest: in_set_takeD in_set_dropD)

lemma writers_apart_step:
  assumes "base_table t0" "executor_run allowed (idle_world t0) evs w" "starts_apart w" "writers_apart w"
    and "executor_enabled ev w" "executor_exec ev w = Inr w'"
  shows "writers_apart w'"
  using assms(5,6)
proof (cases rule: executor_step_children)
  case (1 i r p)
  show ?thesis
  proof (cases "r = Fork_Failed")
    case True
    with 1(4) assms(4) show ?thesis by (simp add: writers_apart_def forked_child_def)
  next
    case False
    obtain c where c: "children w' = children w @ [c]" "c_owner c = i"
      "fd_view (c_table c) = (\<lambda>k. case fd_view (reporter_fds w) k of
          None \<Rightarrow> None | Some f \<Rightarrow> if owner f = Some i then None else Some f)
        (0 \<mapsto> Read_End i Stdin, 1 \<mapsto> Write_End i Stdout, 2 \<mapsto> Write_End i Stderr)"
      using child_descriptors_aux [OF assms(1,2) _ False] assms(5,6) unfolding 1(1) by blast
    have i: "i < length (threads w)" "is_starting (t_phase (threads w ! i))" using 1(2,3) by simp_all
    have "Some (Write_End j Stdout) \<in> set (c_table c) \<Longrightarrow> j = i" for j
      using child_stdout_writer(2) [OF c(3), of j] i assms(3)
        reporter_stdout_writer [OF assms(1) fds_ok_run [OF assms(2,1) fds_ok_idle], of j]
      by (auto simp: starts_apart_def)
    with c assms(4) show ?thesis by (auto simp: writers_apart_def)
  qed
next
  case (3 k a)
  have "j = c_owner c'" if "c' \<in> set (children w')" "Some (Write_End j Stdout) \<in> set (c_table c')" for c' j
    using that(1) unfolding 3(4)
  proof (rule replaced_child [OF _ 3(2)])
    assume "c' \<in> set (children w)"
    with that(2) assms(4) show "j = c_owner c'" by (simp add: writers_apart_def)
  next
    assume "children w ! k \<in> set (children w)" "c' \<in> set (process_result a (children w ! k))"
    with that(2) assms(4) process_resultD [of c' a "children w ! k"] show "j = c_owner c'" by (simp add: writers_apart_def)
  qed
  then show ?thesis by (simp add: writers_apart_def)
qed (use assms(4) in \<open>auto simp: writers_apart_def\<close>)

lemma apart_run:
  "executor_run one_at_a_time (idle_world t0) evs w \<Longrightarrow> base_table t0 \<Longrightarrow> starts_apart w \<and> writers_apart w"
proof (induction "idle_world t0" evs w rule: executor_run.induct)
  case run_none
  show ?case by (simp add: idle_world_def starts_apart_def writers_apart_def)
next
  case (run_event evs w1 ev w2)
  then show ?case using starts_apart_step writers_apart_step by metis
qed

lemma hang_up_exact_aux:
  assumes "base_table t0" "executor_run one_at_a_time (idle_world t0) evs w"
    and "i < length (threads w)" "t_phase (threads w ! i) = Collecting"
  shows "(hung_up i w \<longleftrightarrow> (\<forall>c \<in> set (children w). c_owner c = i \<longrightarrow> Some (Write_End i Stdout) \<notin> set (c_table c))) \<and>
    (executor_enabled (Finish i) w \<longleftrightarrow>
      (\<forall>c \<in> set (children w). c_owner c = i \<longrightarrow> Some (Write_End i Stdout) \<notin> set (c_table c)) \<or> t_signalled (threads w ! i)) \<and>
    ((\<forall>c \<in> set (children w). c_owner c \<noteq> i) \<longrightarrow> executor_enabled (Finish i) w)"
proof -
  have "Some (Write_End i Stdout) \<notin> set (reporter_fds w)"
    using reporter_stdout_writer [OF assms(1) fds_ok_run [OF assms(2,1) fds_ok_idle]] assms(4) by simp
  then have "hung_up i w \<longleftrightarrow> (\<forall>c \<in> set (children w). c_owner c = i \<longrightarrow> Some (Write_End i Stdout) \<notin> set (c_table c))"
    using apart_run [OF assms(2,1)] by (auto simp: hung_up_def writers_apart_def)
  then show ?thesis using assms(3,4) by (auto simp: executor_step_defs)
qed

text \<open>
  C31. When commands are started one after the other, a command's output pipe is held by its
  own processes only: whatever they do, the reporter sees the end of the output exactly
  when none of them, the shell or one left in the background, has the pipe open any more;
  and the executor can close its pipes exactly then, or when the destructor wrote its
  signal. A command that has ended with all its processes is always seen; one that has
  closed its output is taken for ended; one that left a process in the background is not.
\<close>

theorem hang_up_exact:
  assumes "base_table t0" "executor_run one_at_a_time (idle_world t0) evs w"
    and "i < length (threads w)" "t_phase (threads w ! i) = Collecting"
  shows "(hung_up i w \<longleftrightarrow> (\<forall>c \<in> set (children w). c_owner c = i \<longrightarrow> Some (Write_End i Stdout) \<notin> set (c_table c))) \<and>
    (executor_enabled (Finish i) w \<longleftrightarrow>
      (\<forall>c \<in> set (children w). c_owner c = i \<longrightarrow> Some (Write_End i Stdout) \<notin> set (c_table c)) \<or> t_signalled (threads w ! i)) \<and>
    ((\<forall>c \<in> set (children w). c_owner c \<noteq> i) \<longrightarrow> executor_enabled (Finish i) w)"
  using assms by (rule hang_up_exact_aux)

section \<open>Commands that cannot be executed\<close>

fun has_forked :: "phase \<Rightarrow> bool" where
  "has_forked Created = False"
| "has_forked (Piped p) = False"
| "has_forked _ = True"

lemma has_forked_step:
  assumes "executor_enabled ev w" "executor_exec ev w = Inr w'" "i < length (threads w)" "has_forked (t_phase (threads w ! i))"
  shows "i < length (threads w') \<and> has_forked (t_phase (threads w' ! i))"
  using assms
  by (cases ev) (auto simp: executor_step_defs set_thread_def nth_append nth_list_update split: if_splits phase.splits prod.splits)

lemma forked_child_in: "c \<in> set (forked_child i r p t) \<Longrightarrow> c_owner c = i"
  by (auto simp: forked_child_def split: fork_result.splits)

definition forked_once :: "executor_world \<Rightarrow> bool" where
  "forked_once w \<longleftrightarrow>
     (\<forall>c \<in> set (children w). c_owner c < length (threads w) \<and> has_forked (t_phase (threads w ! c_owner c)))"

lemma forked_once_step:
  assumes "forked_once w" "executor_enabled ev w" "executor_exec ev w = Inr w'"
  shows "forked_once w'"
proof -
  have old: "c_owner c < length (threads w') \<and> has_forked (t_phase (threads w' ! c_owner c))" if "c \<in> set (children w)" for c
    using has_forked_step [OF assms(2,3)] assms(1) that by (simp add: forked_once_def)
  from assms(2,3) show ?thesis
  proof (cases rule: executor_step_children)
    case (1 i r p)
    then show ?thesis using old by (auto simp: forked_once_def dest!: forked_child_in)
  next
    case (3 k a)
    have "c_owner c < length (threads w') \<and> has_forked (t_phase (threads w' ! c_owner c))" if "c \<in> set (children w')" for c
      using that unfolding 3(4)
      by (rule replaced_child [OF _ 3(2)]) (use old process_resultD(1) in \<open>fastforce+\<close>)
    then show ?thesis by (simp add: forked_once_def)
  qed (use old in \<open>auto simp: forked_once_def\<close>)
qed

lemma forked_once_run: "executor_run allowed w evs w' \<Longrightarrow> forked_once w \<Longrightarrow> forked_once w'"
  by (induction rule: executor_run.induct) (auto intro: forked_once_step)

text \<open>The only child of \<open>i\<close> is stuck in the loop; it can write to the output pipe.\<close>

definition stuck_child :: "nat \<Rightarrow> executor_world \<Rightarrow> bool" where
  "stuck_child i w \<longleftrightarrow> i < length (threads w) \<and> has_forked (t_phase (threads w ! i)) \<and>
     (\<exists>c \<in> set (children w). c_owner c = i \<and> Some (Write_End i Stdout) \<in> set (c_table c)) \<and>
     (\<forall>c \<in> set (children w). c_owner c = i \<longrightarrow> c_loop c = Some no_fds)"

lemma watched_no_fds [simp]: "watched no_fds = []"
  by (simp add: watched_def no_fds_def)

lemma stuck_child_step:
  assumes "stuck_child i w" "executor_enabled ev w" "executor_exec ev w = Inr w'"
  shows "stuck_child i w'"
proof -
  have i: "i < length (threads w')" "has_forked (t_phase (threads w' ! i))" "has_forked (t_phase (threads w ! i))"
    using has_forked_step [OF assms(2,3)] assms(1) by (simp_all add: stuck_child_def)
  from assms(2,3) show ?thesis
  proof (cases rule: executor_step_children)
    case (1 j r p)
    with i(3) have "j \<noteq> i" by auto
    with 1 i(1,2) assms(1) show ?thesis unfolding stuck_child_def by (auto dest!: forked_child_in)
  next
    case (2 j)
    with assms(1,2) have "j \<noteq> i" by (auto simp: stuck_child_def executor_enabled_def)
    with 2 i(1,2) assms(1) show ?thesis by (auto simp: stuck_child_def)
  next
    case (3 k a)
    let ?c = "children w ! k"
    have other: "c_owner ?c \<noteq> i" using 3(2,3) assms(1) by (auto simp: stuck_child_def)
    obtain c where c: "c \<in> set (children w)" "c_owner c = i" "Some (Write_End i Stdout) \<in> set (c_table c)"
      using assms(1) by (auto simp: stuck_child_def)
    then have "c \<in> set (children w')"
      using other id_take_nth_drop [OF 3(2)] unfolding 3(4) by (metis Un_iff set_append set_ConsD)
    moreover have "c_loop c' = Some no_fds" if "c' \<in> set (children w')" "c_owner c' = i" for c'
      using that(1) unfolding 3(4)
      by (rule replaced_child [OF _ 3(2)]) (use that(2) other process_resultD(1) assms(1) in \<open>auto simp: stuck_child_def\<close>)
    ultimately show ?thesis using c i(1,2) by (auto simp: stuck_child_def)
  qed (use i(1,2) assms(1) in \<open>auto simp: stuck_child_def\<close>)
qed

lemma stuck_child_run: "executor_run allowed w evs w' \<Longrightarrow> stuck_child i w \<Longrightarrow> stuck_child i w'"
  by (induction rule: executor_run.induct) (auto intro: stuck_child_step)

lemma stuck_child_blocks: "stuck_child i w \<Longrightarrow> \<not> hung_up i w"
  by (auto simp: stuck_child_def hung_up_def)

text \<open>The signal is only ever written by the destructor.\<close>

definition unsignalled :: "nat \<Rightarrow> executor_world \<Rightarrow> bool" where
  "unsignalled i w \<longleftrightarrow> i < length (threads w) \<and> \<not> t_signalled (threads w ! i) \<and> t_phase (threads w ! i) \<noteq> Closed"

lemma unsignalled_step:
  assumes "unsignalled i w" "executor_enabled ev w" "executor_exec ev w = Inr w'" "\<not> hung_up i w" "ev \<noteq> Destroy i"
  shows "unsignalled i w'"
  using assms
  by (cases ev) (auto simp: executor_step_defs unsignalled_def set_thread_def nth_append nth_list_update
      split: if_splits phase.splits prod.splits)

lemma unsignalled_run:
  "executor_run allowed w evs w' \<Longrightarrow> stuck_child i w \<Longrightarrow> unsignalled i w \<Longrightarrow> Destroy i \<notin> set evs \<Longrightarrow> unsignalled i w'"
proof (induction rule: executor_run.induct)
  case (run_event w evs w1 ev w2)
  have "\<not> hung_up i w1"
    by (rule stuck_child_blocks, rule stuck_child_run [OF run_event.hyps(1) run_event.prems(1)])
  with run_event show ?case by (intro unsignalled_step [of i w1 ev w2]) auto
qed

definition signal_ok :: "executor_world \<Rightarrow> bool" where
  "signal_ok w \<longleftrightarrow> (\<forall>th \<in> set (threads w). t_signalled th \<longrightarrow> t_destroyed th)"

lemma executor_step_threads:
  assumes "executor_enabled ev w" "executor_exec ev w = Inr w'"
  obtains "threads w' = threads w" | "threads w' = threads w @ [new_thread]"
  | i where "i < length (threads w)" "threads w' = (threads w)[i := threads w' ! i]"
      "t_destroyed (threads w' ! i) \<or> t_signalled (threads w' ! i) = t_signalled (threads w ! i) \<and>
        t_destroyed (threads w' ! i) = t_destroyed (threads w ! i)"
proof (cases ev)
  case (Make_Pipes i)
  with assms show ?thesis by (intro that(3) [of i]) (auto simp: executor_step_defs set_thread_def split: if_splits)
next
  case (Fork i r)
  with assms show ?thesis
    by (intro that(3) [of i]) (auto simp: executor_step_defs set_thread_def split: if_splits phase.splits)
next
  case (Parent i)
  with assms show ?thesis
    by (intro that(3) [of i]) (auto simp: executor_step_defs set_thread_def split: if_splits phase.splits prod.splits)
next
  case (Finish i)
  with assms show ?thesis
    by (intro that(3) [of i]) (auto simp: executor_step_defs set_thread_def split: if_splits prod.splits)
next
  case (Destroy i)
  with assms show ?thesis by (intro that(3) [of i]) (auto simp: executor_step_defs set_thread_def)
qed (use assms that in \<open>auto simp: executor_exec_def\<close>)

lemma signal_ok_step:
  assumes "signal_ok w" "executor_enabled ev w" "executor_exec ev w = Inr w'"
  shows "signal_ok w'"
  using assms(2,3)
proof (cases rule: executor_step_threads)
  case (3 i)
  let ?th = "threads w' ! i"
  from 3 have "t_signalled ?th \<longrightarrow> t_destroyed ?th" using assms(1) by (auto simp: signal_ok_def)
  moreover have "set (threads w') \<subseteq> insert ?th (set (threads w))"
    using set_update_subset_insert [of "threads w" i ?th] 3(2) by simp
  ultimately show ?thesis using assms(1) by (auto simp: signal_ok_def)
qed (use assms(1) in \<open>auto simp: signal_ok_def\<close>)

lemma signal_ok_run: "executor_run allowed w evs w' \<Longrightarrow> signal_ok w \<Longrightarrow> signal_ok w'"
  by (induction rule: executor_run.induct) (auto intro: signal_ok_step)

text \<open>
  C32. When the shell cannot be executed, the child goes on as a copy of the reporter that waits
  for nothing and never ends. It keeps the output pipe open, so whatever else happens the
  executor never sees the end of its command: until it is destroyed it never closes its
  pipes, and the result of the command is never sent.
\<close>

theorem failed_exec_never_ends:
  assumes "base_table t0" "executor_run allowed (idle_world t0) evs w"
    and "executor_enabled (Fork i Exec_Failed) w" "executor_exec (Fork i Exec_Failed) w = Inr w1"
    and "executor_run allowed2 w1 evs2 w2"
  shows "\<not> hung_up i w2 \<and>
    (\<not> t_destroyed (threads w ! i) \<and> Destroy i \<notin> set evs2 \<longrightarrow>
      t_phase (threads w2 ! i) \<noteq> Closed \<and> \<not> executor_enabled (Finish i) w2)"
proof -
  have i: "i < length (threads w)" "\<exists>p. t_phase (threads w ! i) = Piped p"
    using assms(3) by (auto simp: executor_step_defs split: if_splits phase.splits)
  have "forked_once w" using forked_once_run [OF assms(2)] by (simp add: forked_once_def idle_world_def)
  with i have "\<forall>c \<in> set (children w). c_owner c \<noteq> i" by (auto simp: forked_once_def)
  moreover have "Exec_Failed \<noteq> Fork_Failed" by simp
  from child_descriptors_aux [OF assms(1-3) this assms(4)] child_stdout_writer(1)
  obtain c where "children w1 = children w @ [c]" "c_owner c = i" "Some (Write_End i Stdout) \<in> set (c_table c)" by blast
  moreover have "threads w1 ! i = (threads w ! i)\<lparr>t_phase := t_phase (threads w1 ! i)\<rparr> \<and> is_starting (t_phase (threads w1 ! i)) \<and>
      has_forked (t_phase (threads w1 ! i)) \<and> length (threads w1) = length (threads w) \<and>
      (\<forall>c \<in> set (children w1) - set (children w). c_loop c = Some no_fds)"
    using assms(4) i by (auto simp: executor_exec_def set_thread_def forked_child_def)
  ultimately have "stuck_child i w1" "t_phase (threads w1 ! i) \<noteq> Closed" "t_signalled (threads w1 ! i) = t_signalled (threads w ! i)"
    using i by (auto simp: stuck_child_def dest: arg_cong [where f = t_signalled])
  note stuck = this stuck_child_run [OF assms(5) this(1), THEN stuck_child_blocks]
  have "unsignalled i w2" if "\<not> t_destroyed (threads w ! i)" "Destroy i \<notin> set evs2"
  proof -
    have "signal_ok w" using signal_ok_run [OF assms(2)] by (simp add: signal_ok_def idle_world_def)
    with that(1) i have "\<not> t_signalled (threads w ! i)" by (auto simp: signal_ok_def)
    with stuck have "unsignalled i w1" by (simp add: unsignalled_def stuck_child_def)
    with unsignalled_run [OF assms(5) stuck(1)] that(2) show ?thesis by blast
  qed
  with stuck(4) show ?thesis by (auto simp: unsignalled_def executor_step_defs split: if_splits)
qed

section \<open>Destroying an executor\<close>

lemma destroyed_step:
  assumes "executor_enabled ev w" "executor_exec ev w = Inr w'" "i < length (threads w)" "t_destroyed (threads w ! i)"
  shows "i < length (threads w') \<and> t_destroyed (threads w' ! i) \<and> t_signalled (threads w' ! i) = t_signalled (threads w ! i)"
  using assms
  by (cases ev) (auto simp: executor_step_defs set_thread_def nth_append nth_list_update split: if_splits phase.splits prod.splits)

lemma destroyed_run:
  "executor_run allowed w evs w' \<Longrightarrow> i < length (threads w) \<Longrightarrow> t_destroyed (threads w ! i) \<Longrightarrow>
   i < length (threads w') \<and> t_destroyed (threads w' ! i) \<and> t_signalled (threads w' ! i) = t_signalled (threads w ! i)"
proof (induction rule: executor_run.induct)
  case (run_event w evs w1 ev w2)
  with destroyed_step [OF run_event.hyps(2,4)] show ?case by simp
qed simp

text \<open>
  The destructor of an executor that collects output makes its thread stop: it can finish
  although the command still runs. One that runs before the thread has made the pipe of the
  signal has no effect: the thread is never told, and the destructor, which waits for the
  thread, waits for the command.
\<close>

theorem destructor_signal:
  assumes "base_table t0" "executor_run allowed (idle_world t0) evs w"
    and "executor_enabled (Destroy i) w" "executor_exec (Destroy i) w = Inr w1" "executor_run allowed2 w1 evs2 w2"
  shows "(t_phase (threads w ! i) = Collecting \<and> fst (signal_fd (t_fds (threads w ! i))) \<noteq> - 1 \<and>
      t_phase (threads w2 ! i) = Collecting \<longrightarrow> executor_enabled (Finish i) w2) \<and>
    (t_phase (threads w ! i) = Created \<or> is_starting (t_phase (threads w ! i)) \<longrightarrow>
      \<not> t_signalled (threads w2 ! i) \<and> (executor_enabled (Finish i) w2 \<longrightarrow> hung_up i w2))"
proof -
  have i: "i < length (threads w)" "\<not> t_destroyed (threads w ! i)" using assms(3) by (simp_all add: executor_step_defs)
  have "signal_ok w" using signal_ok_run [OF assms(2)] by (simp add: signal_ok_def idle_world_def)
  with i have "\<not> t_signalled (threads w ! i)" by (auto simp: signal_ok_def)
  with i assms(4) have w1: "i < length (threads w1)" "t_destroyed (threads w1 ! i)"
    "t_signalled (threads w1 ! i) \<longleftrightarrow> fst (signal_fd (t_fds (threads w ! i))) \<noteq> - 1"
    by (auto simp: executor_exec_def set_thread_def destroy_thread_def)
  then have w2: "i < length (threads w2)" "t_signalled (threads w2 ! i) \<longleftrightarrow> fst (signal_fd (t_fds (threads w ! i))) \<noteq> - 1"
    using destroyed_run [OF assms(5)] by simp_all
  have "t_fds (threads w ! i) = no_fds" if "t_phase (threads w ! i) = Created \<or> is_starting (t_phase (threads w ! i))"
    using thread_ok_nth [OF fds_ok_run [OF assms(2,1) fds_ok_idle] i(1)] that
    by (cases "t_phase (threads w ! i)") (auto simp: thread_ok_def)
  then have "\<not> t_signalled (threads w2 ! i)" if "t_phase (threads w ! i) = Created \<or> is_starting (t_phase (threads w ! i))"
    using w2(2) that by (simp add: no_fds_def)
  with w2 show ?thesis by (auto simp: executor_step_defs)
qed

section \<open>Input of a command\<close>

text \<open>
  The input given to a command goes to the standard input of that command, with a null
  byte at its end, while its output is collected. Given earlier, it is lost.
\<close>

theorem input_reaches_command:
  assumes "base_table t0" "executor_run allowed (idle_world t0) evs w"
    and "i < length (threads w)" "t_phase (threads w ! i) \<noteq> Closed"
  shows "executor_input (t_fds (threads w ! i)) s (reporter_fds w) =
    (if t_phase (threads w ! i) = Collecting then Some (Write_End i Stdin, s @ [CHR 0x00]) else None)"
proof -
  have ok: "fds_ok t0 w"
    by (rule fds_ok_run [OF assms(2,1) fds_ok_idle])
  show ?thesis
  proof (cases "t_phase (threads w ! i) = Collecting")
    case True
    then have "(stdin_write_fd (t_fds (threads w ! i)), Write_End i Stdin) \<in> held i (threads w ! i)"
      by (simp add: held_def kept_def)
    with held_open [OF ok assms(3)] True show ?thesis by (auto simp: executor_input_def in_graph_iff)
  next
    case False
    with thread_ok_nth [OF ok assms(3)] assms(4) have "t_fds (threads w ! i) = no_fds"
      by (cases "t_phase (threads w ! i)") (auto simp: thread_ok_def)
    with False show ?thesis by (simp add: executor_input_def no_fds_def fd_view_def)
  qed
qed

section \<open>Runs\<close>

fun executor_events ::
  "(executor_event \<Rightarrow> executor_world \<Rightarrow> bool) \<Rightarrow> executor_event list \<Rightarrow> executor_world \<Rightarrow> executor_world option"
where
  "executor_events allowed [] w = Some w"
| "executor_events allowed (ev # evs) w =
     (if executor_enabled ev w \<and> allowed ev w
      then (case executor_exec ev w of Inl e \<Rightarrow> None | Inr w1 \<Rightarrow> executor_events allowed evs w1)
      else None)"

lemma executor_events_run:
  "executor_run allowed w evs0 w1 \<Longrightarrow> executor_events allowed evs w1 = Some w2 \<Longrightarrow> executor_run allowed w (evs0 @ evs) w2"
proof (induction evs arbitrary: evs0 w1)
  case (Cons ev evs)
  then obtain w' where "executor_enabled ev w1" "allowed ev w1" "executor_exec ev w1 = Inr w'"
    "executor_events allowed evs w' = Some w2"
    by (auto split: if_splits sum.splits)
  with Cons.prems(1) Cons.IH [of "evs0 @ [ev]" w'] run_event show ?case by fastforce
qed simp

lemmas executor_runI = executor_events_run [OF run_none, simplified]

definition sample_table :: fd_table where
  "sample_table = [Some (Inherited 0), Some (Inherited 1), Some (Inherited 2)] @ replicate 20 None"

lemma sample_table_base: "base_table sample_table"
  by (auto simp: base_table_def sample_table_def fd_view_def)

definition overlap_trace :: "executor_event list" where
  "overlap_trace = [Launch, Launch, Make_Pipes 0, Make_Pipes 1, Fork 1 Exec_Done, Fork 0 Exec_Done, Parent 0, Parent 1, Child_Exits 0]"

text \<open>
  When the starts of two commands overlap, the second command inherits the output pipe of
  the first. The first command can have ended without its executor seeing that: it goes on
  waiting, and sends no result, until the second command has ended too.
\<close>

theorem overlapping_start_hides_end:
  "\<exists>w. executor_run (\<lambda>_ _. True) (idle_world sample_table) overlap_trace w \<and>
     t_phase (threads w ! 0) = Collecting \<and> (\<forall>c \<in> set (children w). c_owner c \<noteq> 0) \<and> \<not> executor_enabled (Finish 0) w \<and>
     (\<exists>w'. executor_exec (Child_Exits 1) w = Inr w' \<and> executor_enabled (Finish 0) w')"
proof -
  have "(case executor_events (\<lambda>_ _. True) overlap_trace (idle_world sample_table) of None \<Rightarrow> False
    | Some w \<Rightarrow> t_phase (threads w ! 0) = Collecting \<and> (\<forall>c \<in> set (children w). c_owner c \<noteq> 0) \<and> \<not> executor_enabled (Finish 0) w \<and>
        (case executor_exec (Child_Exits 1) w of Inl e \<Rightarrow> False | Inr w' \<Rightarrow> executor_enabled (Finish 0) w'))"
    by code_simp
  then show ?thesis by (auto intro: executor_runI split: option.splits sum.splits)
qed

definition one_command :: "nat \<Rightarrow> executor_event list" where
  "one_command i = [Launch, Make_Pipes i, Fork i Exec_Done, Parent i]"

text \<open>
  The number of the input pipe is kept after the pipe was closed, and the next command gets
  the same numbers: input for a command that has ended goes to another command.
\<close>

theorem input_after_end:
  "\<exists>w. executor_run one_at_a_time (idle_world sample_table) (one_command 0 @ [Child_Exits 0, Finish 0] @ one_command 1) w \<and>
     t_phase (threads w ! 0) = Closed \<and> t_phase (threads w ! 1) = Collecting \<and>
     executor_input (t_fds (threads w ! 0)) s (reporter_fds w) = Some (Write_End 1 Stdin, s @ [CHR 0x00])"
proof -
  have "(case executor_events one_at_a_time (one_command 0 @ [Child_Exits 0, Finish 0] @ one_command 1) (idle_world sample_table) of
      None \<Rightarrow> False
    | Some w \<Rightarrow> t_phase (threads w ! 0) = Closed \<and> t_phase (threads w ! 1) = Collecting \<and>
        fd_view (reporter_fds w) (stdin_write_fd (t_fds (threads w ! 0))) = Some (Write_End 1 Stdin))"
    by code_simp
  then show ?thesis by (auto simp: executor_input_def intro: executor_runI split: option.splits)
qed

lemma one_command_runs:
  "\<exists>w. executor_run one_at_a_time (idle_world sample_table) (one_command 0) w \<and>
     threads w \<noteq> [] \<and> t_phase (threads w ! 0) = Collecting \<and>
     (\<exists>c \<in> set (children w). c_owner c = 0 \<and> Some (Write_End 0 Stdout) \<in> set (c_table c)) \<and>
     fst (signal_fd (t_fds (threads w ! 0))) = 9 \<and> \<not> t_signalled (threads w ! 0) \<and> executor_enabled (Destroy 0) w"
proof -
  have "(case executor_events one_at_a_time (one_command 0) (idle_world sample_table) of
      None \<Rightarrow> False
    | Some w \<Rightarrow> threads w \<noteq> [] \<and> t_phase (threads w ! 0) = Collecting \<and>
        (\<exists>c \<in> set (children w). c_owner c = 0 \<and> Some (Write_End 0 Stdout) \<in> set (c_table c)) \<and>
        fst (signal_fd (t_fds (threads w ! 0))) = 9 \<and> \<not> t_signalled (threads w ! 0) \<and> executor_enabled (Destroy 0) w)"
    by code_simp
  then show ?thesis by (auto intro: executor_runI split: option.splits)
qed

theorem executors_leak_nothing_witness:
  "\<exists>w. executor_run one_at_a_time (idle_world sample_table) (one_command 0 @ [Child_Exits 0, Finish 0]) w \<and>
     threads w \<noteq> [] \<and> reporter_fds w = sample_table"
proof -
  have "(case executor_events one_at_a_time (one_command 0 @ [Child_Exits 0, Finish 0]) (idle_world sample_table) of
      None \<Rightarrow> False
    | Some w \<Rightarrow> threads w \<noteq> [] \<and> (\<forall>th \<in> set (threads w). t_phase th = Created \<or> t_phase th = Closed))"
    by code_simp
  then obtain w where w: "executor_run one_at_a_time (idle_world sample_table) (one_command 0 @ [Child_Exits 0, Finish 0]) w"
    "threads w \<noteq> []" "\<forall>th \<in> set (threads w). t_phase th = Created \<or> t_phase th = Closed"
    by (auto intro: executor_runI split: option.splits)
  with executors_leak_nothing [OF sample_table_base w(1)] show ?thesis by auto
qed

text \<open>A command that leaves a process in the background and ends; the process then closes its output.\<close>

definition background_trace :: "executor_event list" where
  "background_trace = one_command 0 @ [Process 0 Process_Fork, Process 0 Process_Exit]"

lemma background_runs:
  "\<exists>w w1. executor_run one_at_a_time (idle_world sample_table) background_trace w \<and>
     executor_run one_at_a_time (idle_world sample_table) (background_trace @ [Process 0 (Process_Close 1)]) w1 \<and>
     threads w \<noteq> [] \<and> t_phase (threads w ! 0) = Collecting \<and> \<not> t_signalled (threads w ! 0) \<and>
     (\<exists>c \<in> set (children w). c_owner c = 0 \<and> Some (Write_End 0 Stdout) \<in> set (c_table c)) \<and>
     threads w1 \<noteq> [] \<and> t_phase (threads w1 ! 0) = Collecting \<and> children w1 \<noteq> [] \<and>
     (\<forall>c \<in> set (children w1). Some (Write_End 0 Stdout) \<notin> set (c_table c))"
proof -
  have "(case executor_events one_at_a_time background_trace (idle_world sample_table) of
      None \<Rightarrow> False
    | Some w \<Rightarrow> threads w \<noteq> [] \<and> t_phase (threads w ! 0) = Collecting \<and> \<not> t_signalled (threads w ! 0) \<and>
        (\<exists>c \<in> set (children w). c_owner c = 0 \<and> Some (Write_End 0 Stdout) \<in> set (c_table c)))"
    by code_simp
  moreover have "(case executor_events one_at_a_time (background_trace @ [Process 0 (Process_Close 1)]) (idle_world sample_table) of
      None \<Rightarrow> False
    | Some w \<Rightarrow> threads w \<noteq> [] \<and> t_phase (threads w ! 0) = Collecting \<and> children w \<noteq> [] \<and>
        (\<forall>c \<in> set (children w). Some (Write_End 0 Stdout) \<notin> set (c_table c)))"
    by code_simp
  ultimately show ?thesis
    by (auto split: option.splits dest!: executor_runI)
qed

theorem hang_up_exact_witness:
  "\<exists>w w1. executor_run one_at_a_time (idle_world sample_table) background_trace w \<and> \<not> executor_enabled (Finish 0) w \<and>
     executor_run one_at_a_time (idle_world sample_table) (background_trace @ [Process 0 (Process_Close 1)]) w1 \<and>
     executor_enabled (Finish 0) w1 \<and> children w1 \<noteq> []"
proof -
  from background_runs obtain w w1 where
    w: "executor_run one_at_a_time (idle_world sample_table) background_trace w" "0 < length (threads w)"
      "t_phase (threads w ! 0) = Collecting" "\<not> t_signalled (threads w ! 0)"
      "\<exists>c \<in> set (children w). c_owner c = 0 \<and> Some (Write_End 0 Stdout) \<in> set (c_table c)"
    and w1: "executor_run one_at_a_time (idle_world sample_table) (background_trace @ [Process 0 (Process_Close 1)]) w1"
      "0 < length (threads w1)" "t_phase (threads w1 ! 0) = Collecting" "children w1 \<noteq> []"
      "\<forall>c \<in> set (children w1). Some (Write_End 0 Stdout) \<notin> set (c_table c)"
    by auto
  have "\<not> executor_enabled (Finish 0) w" using hang_up_exact [OF sample_table_base w(1-3)] w(4,5) by auto
  moreover have "executor_enabled (Finish 0) w1" using hang_up_exact [OF sample_table_base w1(1-3)] w1(5) by auto
  ultimately show ?thesis using w(1) w1(1,4) by blast
qed

theorem input_reaches_command_witness:
  "\<exists>w. executor_run one_at_a_time (idle_world sample_table) (one_command 0) w \<and>
     executor_input (t_fds (threads w ! 0)) ''ls'' (reporter_fds w) = Some (Write_End 0 Stdin, ''ls'' @ [CHR 0x00])"
proof -
  from one_command_runs obtain w where w: "executor_run one_at_a_time (idle_world sample_table) (one_command 0) w"
    "0 < length (threads w)" "t_phase (threads w ! 0) = Collecting" by auto
  with input_reaches_command [OF sample_table_base w(1,2), of "''ls''"] show ?thesis by auto
qed

definition piped_trace :: "executor_event list" where
  "piped_trace = [Launch, Make_Pipes 0]"

lemma piped_command_runs:
  "\<exists>w w1. executor_run one_at_a_time (idle_world sample_table) piped_trace w \<and> \<not> t_destroyed (threads w ! 0) \<and>
     executor_enabled (Fork 0 Exec_Failed) w \<and> executor_exec (Fork 0 Exec_Failed) w = Inr w1"
proof -
  have "(case executor_events one_at_a_time piped_trace (idle_world sample_table) of
      None \<Rightarrow> False
    | Some w \<Rightarrow> \<not> t_destroyed (threads w ! 0) \<and> executor_enabled (Fork 0 Exec_Failed) w \<and>
        (case executor_exec (Fork 0 Exec_Failed) w of Inl e \<Rightarrow> False | Inr w1 \<Rightarrow> True))"
    by code_simp
  then show ?thesis by (auto intro!: executor_runI split: option.splits sum.splits)
qed

theorem child_descriptors_witness:
  "\<exists>w w' c. executor_run one_at_a_time (idle_world sample_table) piped_trace w \<and>
     executor_exec (Fork 0 Exec_Failed) w = Inr w' \<and> children w' = children w @ [c] \<and>
     fd_view (c_table c) 1 = Some (Write_End 0 Stdout)"
proof -
  from piped_command_runs obtain w w1 where w: "executor_run one_at_a_time (idle_world sample_table) piped_trace w"
    "executor_enabled (Fork 0 Exec_Failed) w" "executor_exec (Fork 0 Exec_Failed) w = Inr w1" by blast
  from child_descriptors [OF sample_table_base w(1,2) _ w(3)]
  obtain c where "children w1 = children w @ [c]" "fd_view (c_table c) = (\<lambda>k. case fd_view (reporter_fds w) k of
        None \<Rightarrow> None | Some f \<Rightarrow> if owner f = Some 0 then None else Some f)
      (0 \<mapsto> Read_End 0 Stdin, 1 \<mapsto> Write_End 0 Stdout, 2 \<mapsto> Write_End 0 Stderr)" by auto
  then have "children w1 = children w @ [c] \<and> fd_view (c_table c) 1 = Some (Write_End 0 Stdout)" by simp
  with w(1,3) show ?thesis by blast
qed

theorem failed_exec_never_ends_witness:
  "\<exists>w w1. executor_run one_at_a_time (idle_world sample_table) piped_trace w \<and>
     executor_exec (Fork 0 Exec_Failed) w = Inr w1 \<and> \<not> hung_up 0 w1 \<and> t_phase (threads w1 ! 0) \<noteq> Closed"
proof -
  from piped_command_runs obtain w w1 where w: "executor_run one_at_a_time (idle_world sample_table) piped_trace w"
    "executor_enabled (Fork 0 Exec_Failed) w" "executor_exec (Fork 0 Exec_Failed) w = Inr w1" "\<not> t_destroyed (threads w ! 0)"
    by blast
  with failed_exec_never_ends [OF sample_table_base w(1-3) run_none [of one_at_a_time]] show ?thesis by auto
qed

theorem destructor_signal_witness:
  "\<exists>w w1. executor_run one_at_a_time (idle_world sample_table) (one_command 0) w \<and>
     executor_exec (Destroy 0) w = Inr w1 \<and> executor_enabled (Finish 0) w1"
proof -
  from one_command_runs obtain w where w: "executor_run one_at_a_time (idle_world sample_table) (one_command 0) w"
    "executor_enabled (Destroy 0) w" and p: "t_phase (threads w ! 0) = Collecting" "0 < length (threads w)"
    "fst (signal_fd (t_fds (threads w ! 0))) = 9" by auto
  obtain w1 where w1: "executor_exec (Destroy 0) w = Inr w1" "w1 = set_thread 0 (destroy_thread (threads w ! 0)) w"
    by (simp add: executor_exec_def)
  then have "t_phase (threads w1 ! 0) = Collecting" using p by (simp add: set_thread_def)
  with destructor_signal [OF sample_table_base w w1(1) run_none [of one_at_a_time]] p w(1) w1(1) show ?thesis by auto
qed

section \<open>The loop and the pipes\<close>

text \<open>What the kernel answers: the end of the output, and the signal, are those of the state.\<close>

definition answers :: "executor_world \<Rightarrow> nat \<Rightarrow> poll_event \<Rightarrow> bool" where
  "answers w i ev \<longleftrightarrow> out_closed ev = hung_up i w \<and> signal_in ev = t_signalled (threads w ! i) \<and>
     (out_in ev \<longrightarrow> out_read ev \<noteq> None)"

lemma executor_round_leaves:
  assumes "executor_round n ev = Inr (ds, r)" "out_in ev \<longrightarrow> out_read ev \<noteq> None" "0 \<le> poll_ret ev"
  shows "r = Leave \<longleftrightarrow> poll_ret ev \<noteq> 0 \<and> (out_closed ev \<or> signal_in ev)"
  using assms by (auto simp: executor_round_def Let_def split: if_splits)

text \<open>
  The loop leaves exactly when its thread can close the pipes: an answer of \<open>poll\<close> that
  reports something, in a state of the pipes, ends the loop if and only if the output of
  the command is at its end or the destructor wrote the signal.
\<close>

theorem loop_leaves_with_pipes:
  assumes "executor_round n ev = Inr (ds, r)" "answers w i ev" "0 < poll_ret ev" "phase_of i w = Some Collecting"
  shows "r = Leave \<longleftrightarrow> executor_enabled (Finish i) w"
proof -
  have "r = Leave \<longleftrightarrow> out_closed ev \<or> signal_in ev"
    using executor_round_leaves [OF assms(1)] assms(2,3) by (simp add: answers_def)
  with assms(2,4) show ?thesis by (simp add: answers_def executor_enabled_def)
qed

theorem loop_leaves_with_pipes_witness:
  "\<exists>w. executor_run one_at_a_time (idle_world sample_table) (one_command 0) w \<and>
     executor_round 4 (chunk True ''ok'') = Inr ([report_data 4 0 ''ok'' []], Go_On) \<and> \<not> executor_enabled (Finish 0) w"
proof -
  from one_command_runs obtain w where w: "executor_run one_at_a_time (idle_world sample_table) (one_command 0) w"
    "0 < length (threads w)" "t_phase (threads w ! 0) = Collecting"
    "\<exists>c \<in> set (children w). c_owner c = 0 \<and> Some (Write_End 0 Stdout) \<in> set (c_table c)"
    "\<not> t_signalled (threads w ! 0)" by auto
  from w(4) hang_up_exact_aux [OF sample_table_base w(1-3)] have "\<not> hung_up 0 w" by blast
  with w have a: "answers w 0 (chunk True ''ok'')" "phase_of 0 w = Some Collecting"
    by (simp_all add: answers_def chunk_def phase_of_def)
  have r: "executor_round 4 (chunk True ''ok'') = Inr ([report_data 4 0 ''ok'' []], Go_On)"
    by (simp add: executor_round_def chunk_def buffer_string_def)
  from loop_leaves_with_pipes [OF r a(1) _ a(2)] w(1) r show ?thesis by (auto simp: chunk_def)
qed

section \<open>Sending the output\<close>

text \<open>
  \<open>runCommand\<close> calls \<open>reportExecutorData\<close> itself, without catching anything: an exception, which
  the call throws when the connection is broken, leaves the thread and aborts the process.
  \<open>Executor::sendOutput\<close>, which catches it, is not used. \<open>sends\<close> says which calls return.
\<close>

definition sendOutput :: "(ExecutorData \<Rightarrow> bool) \<Rightarrow> int \<Rightarrow> int \<Rightarrow> string \<Rightarrow> string \<Rightarrow> bool" where
  "sendOutput sends i now out err = sends (report_data i now out err)"

fun send_all :: "(ExecutorData \<Rightarrow> bool) \<Rightarrow> ExecutorData list \<Rightarrow> unit res" where
  "send_all sends [] = Inr ()"
| "send_all sends (d # ds) = (if sends d then send_all sends ds else Inl (Exit 134))"

fun collect_output :: "(ExecutorData \<Rightarrow> bool) \<Rightarrow> int \<Rightarrow> poll_event list \<Rightarrow> (ExecutorData list \<times> bool) res" where
  "collect_output sends i [] = Inr ([], False)"
| "collect_output sends i (ev # evs) =
     rbind (executor_round i ev) (\<lambda>(ds, r).
     rbind (send_all sends ds) (\<lambda>_. case r of
       Leave \<Rightarrow> Inr (ds, True)
     | Go_On \<Rightarrow> rbind (collect_output sends i evs) (\<lambda>(ds', fin). Inr (ds @ ds', fin))))"

lemma send_all_outcome: "send_all sends ds = (if list_all sends ds then Inr () else Inl (Exit 134))"
  by (induction ds) simp_all

text \<open>
  The first output that cannot be sent ends the whole reporter: \<open>runCommand\<close> catches nothing, so a
  command that writes while the server is away aborts the process. While every call
  returns, the executor sends what the loop collects and ends with it.
\<close>

theorem output_without_connection:
  assumes "executor_loop i evs = Inr (ds, fin)"
  shows "collect_output sends i evs = (if list_all sends ds then Inr (ds, fin) else Inl (Exit 134))"
  using assms
proof (induction evs arbitrary: ds fin)
  case (Cons ev evs)
  then obtain ds1 r where e: "executor_round i ev = Inr (ds1, r)" by auto
  show ?case
  proof (cases r)
    case Leave
    with Cons.prems e show ?thesis by (auto simp: send_all_outcome)
  next
    case Go_On
    with Cons.prems e obtain ds2 where "executor_loop i evs = Inr (ds2, fin)" "ds = ds1 @ ds2" by auto
    with Cons.IH Go_On e show ?thesis by (simp add: send_all_outcome)
  qed
qed simp

theorem output_without_connection_witness:
  "collect_output (\<lambda>_. True) 4 [chunk True ''ok'', closing] = Inr ([report_data 4 0 ''ok'' []], True) \<and>
   collect_output (\<lambda>_. False) 4 [chunk True ''ok'', closing] = Inl (Exit 134)"
proof -
  have l: "executor_loop 4 [chunk True ''ok'', closing] = Inr ([report_data 4 0 ''ok'' []], True)"
    by (simp add: executor_round_def chunk_def closing_def buffer_string_def)
  show ?thesis
    using output_without_connection [OF l, of "\<lambda>_. True"] output_without_connection [OF l, of "\<lambda>_. False"] by simp
qed

end
