(* ===== verification/Delivery.thy ===== *)
theory Delivery
  imports Rms_Request_Client
begin

text \<open>
  What the server gets of the requests of a reporter. A call that fails may have been handled
  by the server before the connection broke: the request client cannot know, keeps the
  request at the front of its queue and sends it again (\<open>request_client.cpp\<close>, \<open>pollRequests\<close>).
\<close>

section \<open>The requests that arrive\<close>

text \<open>The requests the server handles in a step; \<open>arrived\<close> says so of a call that fails.\<close>

definition received :: "client_event \<Rightarrow> bool \<Rightarrow> RequestClient \<Rightarrow> queued_request list" where
  "received ev arrived s = (case ev of
     Worker out \<Rightarrow>
       (if pc s = Sending
        then (case request_queue s of
            [] \<Rightarrow> []
          | r # _ \<Rightarrow> if fst r = kTCP \<and> (out = Call_Ok \<or> out = Call_Failed \<and> arrived) then [r] else [])
        else [])
   | _ \<Rightarrow> [])"

text \<open>Runs of the client beside the list of what the server has handled.\<close>

inductive link_run :: "nat \<Rightarrow> RequestClient \<Rightarrow> queued_request list \<Rightarrow> (client_event \<times> bool) list \<Rightarrow> bool"
  for sem_max
where
  link_none: "link_run sem_max new_request_client [] []"
| link_more: "link_run sem_max s got evs \<Longrightarrow> client_enabled ev s \<Longrightarrow> client_exec sem_max ev s = Inr s' \<Longrightarrow>
    link_run sem_max s' (got @ received ev arrived s) (evs @ [(ev, arrived)])"

inductive_cases link_run_snocE: "link_run sem_max s got (evs @ [x])"

section \<open>At least once, in order\<close>

text \<open>Every element of the first list at least once in place, then the next one some times.\<close>

definition repeats :: "'a list \<Rightarrow> 'a list \<Rightarrow> 'a list \<Rightarrow> bool" where
  "repeats xs rest ys \<longleftrightarrow> (\<exists>ns k. length ns = length xs \<and> (\<forall>n \<in> set ns. 0 < n) \<and>
     ys = concat (map2 replicate ns xs) @ (case rest of [] \<Rightarrow> [] | r # _ \<Rightarrow> replicate k r))"

lemma repeats_Nil: "repeats [] rest []"
  unfolding repeats_def by (intro exI [of _ "[]"] exI [of _ 0]) (simp split: list.split)

lemma repeats_append: "repeats xs rest ys \<Longrightarrow> repeats xs (rest @ [r]) ys"
  unfolding repeats_def
  by (elim exE, rule_tac x = ns in exI, rule_tac x = "if rest = [] then 0 else k" in exI) (auto split: list.splits)

lemma repeats_again:
  assumes "repeats xs (r # rest) ys"
  shows "repeats xs (r # rest) (ys @ [r])"
proof -
  obtain ns k where "length ns = length xs" "\<forall>n \<in> set ns. 0 < n" "ys = concat (map2 replicate ns xs) @ replicate k r"
    using assms by (auto simp: repeats_def)
  then show ?thesis
    unfolding repeats_def by (intro exI [of _ ns] exI [of _ "Suc k"]) (simp add: replicate_append_same)
qed

lemma repeats_move:
  assumes "repeats xs (r # rest) ys"
  shows "repeats (xs @ [r]) rest (ys @ [r])"
proof -
  obtain ns k where "length ns = length xs" "\<forall>n \<in> set ns. 0 < n" "ys = concat (map2 replicate ns xs) @ replicate k r"
    using assms by (auto simp: repeats_def)
  then show ?thesis
    unfolding repeats_def
    by (intro exI [of _ "ns @ [Suc k]"] exI [of _ 0]) (auto simp: replicate_append_same split: list.split)
qed

lemma set_replicates:
  "length ns = length xs \<Longrightarrow> \<forall>n \<in> set ns. 0 < n \<Longrightarrow> set xs \<subseteq> set (concat (map2 replicate ns xs))"
  by (induction ns xs rule: list_induct2) auto

lemma repeats_contains: "repeats xs rest ys \<Longrightarrow> set xs \<subseteq> set ys"
  unfolding repeats_def using set_replicates by fastforce

definition tcp_queue :: "RequestClient \<Rightarrow> bool" where
  "tcp_queue s \<longleftrightarrow> list_all (\<lambda>r. fst r = kTCP) (request_queue s)"

lemma history_queue: "history_ok evs s \<Longrightarrow> set (request_queue s) \<subseteq> set (appended evs)"
  by (auto simp: history_ok_def dest!: arg_cong [where f = set])

lemma worker_step_queue:
  assumes "worker_step sem_max out s = Inr s'" "pc s \<noteq> Sending"
  shows "request_queue s' = request_queue s \<and> delivered s' = delivered s"
  using assms
  by (cases "pc s") (auto simp: worker_step_def connect_attempt_def split: if_splits outcome.splits)

lemma repeats_worker:
  assumes "worker_step sem_max out s = Inr s'" "repeats (delivered s) (request_queue s) got" "tcp_queue s"
  shows "repeats (delivered s') (request_queue s') (got @ received (Worker out) arrived s)"
proof (cases "pc s = Sending")
  case True
  with assms(1) obtain r rs where q: "request_queue s = r # rs"
    by (cases "request_queue s") (auto simp: worker_step_def send_defs)
  with assms(3) have tcp: "fst r = kTCP" by (simp add: tcp_queue_def)
  show ?thesis
  proof (cases out)
    case Call_Ok
    with True q tcp assms(1) have "delivered s' = delivered s @ [r]" "request_queue s' = rs"
      by (auto simp: worker_step_def send_defs send_front_def sendTcpRequest_def)
    with True q tcp Call_Ok assms(2) show ?thesis by (simp add: received_def repeats_move)
  next
    case Call_Failed
    with True q tcp assms(1) have "delivered s' = delivered s" "request_queue s' = r # rs"
      by (auto simp: worker_step_def send_defs send_front_def sendTcpRequest_def release_permit_def split: if_splits)
    with True q tcp Call_Failed assms(2) show ?thesis by (simp add: received_def repeats_again)
  next
    case Call_Throws
    with True q tcp assms(1) show ?thesis
      by (simp add: worker_step_def send_defs send_front_def sendTcpRequest_def)
  qed
next
  case False
  with worker_step_queue [OF assms(1) False] assms(2) show ?thesis by (simp add: received_def)
qed

lemma repeats_event:
  assumes "client_exec sem_max ev s = Inr s'" "repeats (delivered s) (request_queue s) got" "tcp_queue s"
  shows "repeats (delivered s') (request_queue s') (got @ received ev arrived s)"
proof (cases ev)
  case (Append r)
  with assms show ?thesis
    by (auto simp: client_exec_def send_append_def push_request_def received_def intro: repeats_append)
next
  case (Worker out)
  with assms repeats_worker show ?thesis by (simp add: client_exec_def)
qed (use assms in \<open>auto simp: client_exec_def send_release_def release_permit_def start_client_def stop_client_def
      received_def split: if_splits\<close>)

text \<open>Without a failure that arrived, what arrives is what was sent successfully.\<close>

lemma received_once:
  assumes "client_exec sem_max ev s = Inr s'" "tcp_queue s" "\<not> (arrived \<and> ev = Worker Call_Failed)"
  shows "delivered s' = delivered s @ received ev arrived s"
proof (cases ev)
  case (Worker out)
  show ?thesis
  proof (cases "pc s = Sending")
    case True
    with Worker assms(1) obtain r rs where q: "request_queue s = r # rs"
      by (cases "request_queue s") (auto simp: client_exec_def worker_step_def send_defs)
    with assms(2) have "fst r = kTCP" by (simp add: tcp_queue_def)
    with True q Worker assms(1,3) show ?thesis
      by (cases out) (auto simp: client_exec_def worker_step_def send_defs send_front_def sendTcpRequest_def
          release_permit_def received_def split: if_splits)
  next
    case False
    with Worker assms(1) worker_step_queue [of sem_max out s s'] show ?thesis by (simp add: client_exec_def received_def)
  qed
qed (use assms(1) in \<open>auto simp: client_exec_def send_append_def push_request_def send_release_def release_permit_def
      start_client_def stop_client_def received_def split: if_splits\<close>)

lemma link_run_client:
  "link_run sem_max s got evs \<Longrightarrow> client_run sem_max (\<lambda>_ _. True) new_request_client (map fst evs) (Inr s)"
proof (induction rule: link_run.induct)
  case (link_more s got evs ev s' arrived)
  then show ?case using client_more [of sem_max "\<lambda>_ _. True" new_request_client "map fst evs" s ev] by simp
qed (simp add: client_none)

lemma link_run_repeats:
  "link_run sem_max s got evs \<Longrightarrow> \<forall>r \<in> set (appended (map fst evs)). fst r = kTCP \<Longrightarrow>
     repeats (delivered s) (request_queue s) got \<and> ((Worker Call_Failed, True) \<notin> set evs \<longrightarrow> got = delivered s)"
proof (induction rule: link_run.induct)
  case link_none
  show ?case by (simp add: new_request_client_def repeats_Nil)
next
  case (link_more s got evs ev s' arrived)
  have "set (request_queue s) \<subseteq> set (appended (map fst evs))"
    by (rule history_queue, rule history_run [OF link_run_client [OF link_more.hyps(1)] refl])
  with link_more.prems have tcp: "tcp_queue s" by (auto simp: tcp_queue_def list_all_iff)
  from link_more have "repeats (delivered s') (request_queue s') (got @ received ev arrived s)"
    by (intro repeats_event tcp) simp_all
  moreover have "got @ received ev arrived s = delivered s'" if "(Worker Call_Failed, True) \<notin> set (evs @ [(ev, arrived)])"
    using that link_more.IH link_more.prems received_once [OF link_more.hyps(3) tcp, of arrived] by auto
  ultimately show ?case by blast
qed

text \<open>
  C3. The server handles every request that the client has sent successfully at least once, in the
  order of submission, a repetition directly after its first time; of the others only
  the one at the front of the queue can have been handled already. Without a call that
  fails after the server has handled it, every request is handled exactly once.
\<close>

theorem delivered_at_least_once:
  assumes "link_run sem_max s got evs" "\<forall>r \<in> set (appended (map fst evs)). fst r = kTCP"
  shows "repeats (delivered s) (request_queue s) got \<and> set (delivered s) \<subseteq> set got \<and>
    delivered s @ request_queue s = appended (map fst evs) \<and>
    ((Worker Call_Failed, True) \<notin> set evs \<longrightarrow> got = delivered s)"
proof -
  have "delivered s @ request_queue s = appended (map fst evs)"
    using history_run [OF link_run_client [OF assms(1)] refl] unfolding history_ok_def by metis
  with link_run_repeats [OF assms] repeats_contains show ?thesis by blast
qed

text \<open>Running a list of events, for concrete traces.\<close>

fun link_events :: "nat \<Rightarrow> (client_event \<times> bool) list \<Rightarrow> RequestClient \<times> queued_request list \<Rightarrow>
  (RequestClient \<times> queued_request list) option"
where
  "link_events sem_max [] sg = Some sg"
| "link_events sem_max ((ev, arrived) # evs) (s, got) =
     (if client_enabled ev s then (case client_exec sem_max ev s of
        Inl e \<Rightarrow> None
      | Inr s' \<Rightarrow> link_events sem_max evs (s', got @ received ev arrived s))
      else None)"

lemma link_events_run:
  "link_run sem_max s got evs0 \<Longrightarrow> link_events sem_max evs (s, got) = Some (s', got') \<Longrightarrow> link_run sem_max s' got' (evs0 @ evs)"
proof (induction evs arbitrary: s got evs0)
  case (Cons x evs)
  obtain ev arrived where x: "x = (ev, arrived)" by force
  with Cons.prems(2) obtain s1 where "client_enabled ev s" "client_exec sem_max ev s = Inr s1"
    "link_events sem_max evs (s1, got @ received ev arrived s) = Some (s', got')"
    by (auto split: if_splits sum.splits)
  with Cons.prems(1) Cons.IH [of s1 _ "evs0 @ [x]"] x show ?case by (fastforce intro: link_more)
qed simp

text \<open>A request whose reply is lost is handled twice.\<close>

definition lost_reply_trace :: "(client_event \<times> bool) list" where
  "lost_reply_trace = [(Append (sample_request 1), False), (Release, False), (Start, False)] @ replicate 5 (Worker Call_Ok, False) @
     [(Worker Call_Failed, True)] @ replicate 4 (Worker Call_Ok, False) @ [(Worker Call_Ok, False)]"

lemma lost_reply_evaluates:
  "\<exists>s. link_events 1 lost_reply_trace (new_request_client, []) = Some (s, [sample_request 1, sample_request 1]) \<and>
     delivered s = [sample_request 1] \<and> request_queue s = []"
  by (simp add: lost_reply_trace_def client_defs client_enabled_def new_request_client_def received_def sample_request_def
      send_front_def sendTcpRequest_def numeral_eq_Suc)

theorem delivered_at_least_once_witness:
  "\<exists>s. link_run 1 s [sample_request 1, sample_request 1] lost_reply_trace \<and> delivered s = [sample_request 1] \<and>
     repeats (delivered s) (request_queue s) [sample_request 1, sample_request 1]"
proof -
  obtain s where s: "link_events 1 lost_reply_trace (new_request_client, []) = Some (s, [sample_request 1, sample_request 1])"
    "delivered s = [sample_request 1]"
    using lost_reply_evaluates by blast
  have run: "link_run 1 s [sample_request 1, sample_request 1] lost_reply_trace"
    using link_events_run [OF link_none s(1)] by simp
  have "\<forall>r \<in> set (appended (map fst lost_reply_trace)). fst r = kTCP"
    by (simp add: lost_reply_trace_def sample_request_def numeral_eq_Suc)
  with delivered_at_least_once [OF run] run s(2) show ?thesis by blast
qed

end
