(* ===== verification/Usage_Pipeline.thy ===== *)
theory Usage_Pipeline
  imports Server_System Delivery
begin

text \<open>
  The usage a reporter measures, from its queue to the windows of the server: the calls that
  \<open>Delivery\<close> says arrive are handled by \<open>RmsClient::report\<close> one after the other, and every
  connection begins with a handshake, which gives it a new service object with a new
  computer and empty windows. What the windows hold is stated without the tables of the
  server: the newest points that were sent on the connection.
\<close>

section \<open>The points of a request\<close>

definition percent :: "int \<Rightarrow> int \<Rightarrow> dbl" where
  "percent t f = dbl_div (Num (100 * real_of_int (t - f))) (Num (real_of_int t))"

text \<open>The points that an item carries for a container.\<close>

definition item_points :: "UsageType \<times> int \<Rightarrow> RmsRequestData \<Rightarrow> dbl list" where
  "item_points k d = (case rq_data_type d of
     kCpuUsage \<Rightarrow>
       (let us = cpu_usage (rqv_cpu_usage_data (rq_data d))
        in if fst k = kCpu \<and> 0 \<le> snd k \<and> snd k < int (length us) then [us ! nat (snd k)] else [])
   | kRamUsage \<Rightarrow>
       (let r = rqv_ram_data (rq_data d)
        in if k = (kRam, 0) then [percent (main_total r) (main_free r)]
           else if k = (kRam, 1) \<and> swap_total r \<noteq> 0 then [percent (swap_total r) (swap_free r)]
           else [])
   | _ \<Rightarrow> [])"

definition request_points :: "UsageType \<times> int \<Rightarrow> RmsRequest \<Rightarrow> dbl list" where
  "request_points k req = concat (map (item_points k) (rq_items req))"

section \<open>Ingesting adds these points\<close>

lemma window_points:
  assumes "usage_ok c"
  shows "window (points_of k c) = points_of k c"
  using lookup_bounded [OF assms, of k]
  by (auto simp: points_of_def window_def take_last_def container_bounded_def split: option.splits)

lemma window_window: "window (window xs @ ys) = window (xs @ ys)"
  by (simp add: window_def take_last_append)

lemma used_percent_value: "0 \<le> f \<Longrightarrow> f \<le> t \<Longrightarrow> in_i64 t \<Longrightarrow> used_percent t f = Inr (percent t f)"
  by (simp add: used_percent_def sub_i64_nonneg percent_def)

lemma points_add_ram:
  assumes "usage_ok c" "ram_in_range r"
  shows "points_of k (snd (add_ram_usage r c)) = window (points_of k c @
    (if k = (kRam, 0) then [percent (main_total r) (main_free r)]
     else if k = (kRam, 1) \<and> swap_total r \<noteq> 0 then [percent (swap_total r) (swap_free r)] else []))"
proof -
  have p: "used_percent (main_total r) (main_free r) = Inr (percent (main_total r) (main_free r))"
    "used_percent (swap_total r) (swap_free r) = Inr (percent (swap_total r) (swap_free r))"
    using assms(2) by (simp_all add: ram_in_range_def used_percent_value)
  show ?thesis
    using points_addUsageInfo [OF assms(1)] points_addUsageInfo [OF usage_ok_addUsageInfo [OF assms(1)]] window_points [OF assms(1)]
    by (cases "swap_total r = 0") (simp_all add: add_ram_usage_def p Let_def)
qed

lemma points_add_cpu_item:
  assumes "usage_ok c"
  shows "points_of k (add_cpu_usage 0 us c) = window (points_of k c @
    (if fst k = kCpu \<and> 0 \<le> snd k \<and> snd k < int (length us) then [us ! nat (snd k)] else []))"
  using points_add_cpu [OF assms, of "snd k" 0 us "fst k"] window_points [OF assms] by (cases k) auto

lemma ingest_values_points:
  assumes "ingest_values env d (Some c) w = (Inr (), Some c', w')" "item_safe d" "usage_ok c"
  shows "points_of k c' = window (points_of k c @ item_points k d)"
proof (cases "rq_data_type d")
  case kCpuUsage
  with assms(1) have "c' = add_cpu_usage 0 (cpu_usage (rqv_cpu_usage_data (rq_data d))) c" by (simp add: ingest_values_def)
  with kCpuUsage points_add_cpu_item [OF assms(3)] show ?thesis by (simp add: item_points_def Let_def)
next
  case kRamUsage
  with assms(1) have "c' = snd (add_ram_usage (rqv_ram_data (rq_data d)) c)"
    by (simp add: ingest_values_def case_prod_beta)
  moreover have "ram_in_range (rqv_ram_data (rq_data d))" using assms(2) kRamUsage by (simp add: item_safe_def)
  ultimately show ?thesis
    using points_add_ram [OF assms(3), of "rqv_ram_data (rq_data d)" k] kRamUsage by (simp add: item_points_def Let_def)
next
  case kExecutorResult
  with assms(1) have "c' = c"
    by (auto simp: ingest_values_def run_query_def split: prod.splits sum.splits if_splits)
  with kExecutorResult window_points [OF assms(3)] show ?thesis by (simp add: item_points_def Let_def)
qed (use assms window_points in \<open>auto simp: ingest_values_def item_points_def\<close>)

lemma ingest_items_points:
  assumes "cursors_end api m" "\<forall>d \<in> set ds. item_safe d" "usage_ok c"
  shows "\<exists>db' c' w'. ingest_items (sqlite_env api env) ds db (Some c) w = (Inr (), db', Some c', w') \<and> usage_ok c' \<and>
    (\<forall>k. points_of k c' = window (points_of k c @ concat (map (item_points k) ds)))"
  using assms(2,3)
proof (induction ds arbitrary: db c w)
  case (Cons d ds)
  have d: "item_safe d" "\<forall>d \<in> set ds. item_safe d" using Cons.prems(1) by simp_all
  obtain c1 w1 where 1: "ingest_values (sqlite_env api env) d (Some c) w = (Inr (), Some c1, w1)" "usage_ok c1"
    using ingest_values_defined [OF assms(1) d(1)] Cons.prems(2) by blast
  obtain db1 w2 where 2: "usage_push (sqlite_env api env) db (Some c1) w1 = (Inr (), db1, w2)"
    using usage_push_defined [OF assms(1)] by blast
  obtain db' c' w' where 3: "ingest_items (sqlite_env api env) ds db1 (Some c1) w2 = (Inr (), db', Some c', w')" "usage_ok c'"
    "\<forall>k. points_of k c' = window (points_of k c1 @ concat (map (item_points k) ds))"
    using Cons.IH [OF d(2) 1(2)] by blast
  have "points_of k c' = window (points_of k c @ concat (map (item_points k) (d # ds)))" for k
    using 3(3) [rule_format, of k] ingest_values_points [OF 1(1) d(1) Cons.prems(2), of k] by (simp add: window_window)
  with 1(1) 2 3(1,2) show ?case by (simp add: ingestRequestData_def)
qed (simp add: window_points)

section \<open>Reports and handshakes\<close>

lemma report_points:
  assumes "cursors_end api m" "\<forall>d \<in> set (rq_items req). item_safe d" "computer cl = Some c" "usage_ok c"
  shows "\<exists>res db' cl' c' w'. report (sqlite_env api env) req (Db_Ingestor db) cl w = (Inr res, Db_Ingestor db', cl', w') \<and>
    computer cl' = Some c' \<and> usage_ok c' \<and> rs_items res = response_queue cl \<and> response_queue cl' = [] \<and>
    (\<forall>k. points_of k c' = window (points_of k c @ request_points k req))"
proof -
  let ?env = "sqlite_env api env"
  obtain now w1 where t: "time_now ?env w = (now, w1)" by fastforce
  obtain db' c' w' where "ingest_items ?env (rq_items req) db (Some c) w1 = (Inr (), db', Some c', w')" "usage_ok c'"
    "\<forall>k. points_of k c' = window (points_of k c @ request_points k req)"
    using ingest_items_points [OF assms(1,2,4), of env db w1] unfolding request_points_def by blast
  with t assms(3) show ?thesis by (simp add: report_def drain_all ingestRequest_def)
qed

lemma handshake_usage:
  assumes "handshake env i info new_client w = (Inr i', cl', w')"
  shows "\<exists>c. computer cl' = Some c \<and> usage_info c = []"
proof (cases "i = - 1")
  case True
  obtain r1 c1 w1 where a: "addToDB env (setSysInfo info (new_computer i)) w = (r1, c1, w1)" by (metis prod_cases3)
  with assms True usage_addToDB [OF a] show ?thesis by (cases r1) (auto simp: handshake_def new_computer_def)
next
  case False
  obtain r1 c1 w1 where g: "getFromDB env (new_computer i) w = (r1, c1, w1)" by (metis prod_cases3)
  obtain r2 c2 w2 where u: "updateDB env (setSysInfo info c1) w1 = (r2, c2, w2)" by (metis prod_cases3)
  from assms g u False usage_getFromDB [OF g] usage_updateDB [OF u] show ?thesis
    by (cases r1; cases r2) (auto simp: handshake_def new_computer_def)
qed

lemma no_points: "usage_info c = [] \<Longrightarrow> usage_ok c \<and> points_of k c = []"
  by (simp add: usage_ok_def points_of_def distinct_keys_def)

lemma runCommand_computer:
  assumes "runCommand env cmd cl w = (r, cl', w')"
  shows "computer cl' = computer cl"
proof (cases "getId cl")
  case (Inr i)
  obtain now w1 where t: "time_now env w = (now, w1)" by fastforce
  with assms Inr have "run_query env (insert_executor_query env i now cmd) True cl w1 (\<lambda>res w2.
          if success res then
            (case last_id res of
               None \<Rightarrow> (Inl Indeterminate_Value, cl, w2)
             | Some i \<Rightarrow> (Inr (), addResponse (command_response i cmd) cl, w2))
          else (Inr (), cl, w2)) = (r, cl', w')" by (simp add: runCommand_def)
  then show ?thesis
    by (rule run_query_object [where P = "\<lambda>cl'. computer cl' = computer cl"])
      (auto simp: addResponse_def split: if_splits option.splits)
qed (use assms in \<open>simp add: runCommand_def\<close>)

section \<open>The reporter and its connections\<close>

text \<open>The steps of the worker in which a connection is opened and its handshake is done.\<close>

definition connects :: "client_event \<Rightarrow> RequestClient \<Rightarrow> bool" where
  "connects ev s \<longleftrightarrow> ev = Worker Call_Ok \<and> (pc s = Connecting \<or> pc s = Reconnecting) \<and> poll_requests s"

text \<open>
  Joint runs of the request client and the service objects of its connections: the object
  of the last handshake, and the requests it has handled. A handshake is done by a new
  object; a call that arrives is a \<open>report\<close> of the current one; the terminal can queue
  commands. The database and the ingestor are shared with the other connections, so they
  can be anything at every call.
\<close>

inductive pipeline_run ::
  "nat \<Rightarrow> 'w env \<Rightarrow> RequestClient \<Rightarrow> RmsClient option \<Rightarrow> queued_request list \<Rightarrow> (client_event \<times> bool) list \<Rightarrow> bool"
  for sem_max env
where
  pipeline_start: "pipeline_run sem_max env new_request_client None [] []"
| pipeline_handshake: "pipeline_run sem_max env s clo conn evs \<Longrightarrow> connects ev s \<Longrightarrow>
    client_exec sem_max ev s = Inr s' \<Longrightarrow> handshake env i info new_client w = (Inr i', cl', w') \<Longrightarrow>
    pipeline_run sem_max env s' (Some cl') [] (evs @ [(ev, arrived)])"
| pipeline_report: "pipeline_run sem_max env s (Some cl) conn evs \<Longrightarrow> received ev arrived s = [r] \<Longrightarrow>
    client_exec sem_max ev s = Inr s' \<Longrightarrow> report env (snd r) (Db_Ingestor db) cl w = (res, ing', cl', w') \<Longrightarrow>
    pipeline_run sem_max env s' (Some cl') (conn @ [r]) (evs @ [(ev, arrived)])"
| pipeline_local: "pipeline_run sem_max env s clo conn evs \<Longrightarrow> \<not> connects ev s \<Longrightarrow> received ev arrived s = [] \<Longrightarrow>
    client_enabled ev s \<Longrightarrow> client_exec sem_max ev s = Inr s' \<Longrightarrow>
    pipeline_run sem_max env s' clo conn (evs @ [(ev, arrived)])"
| pipeline_command: "pipeline_run sem_max env s (Some cl) conn evs \<Longrightarrow> runCommand env cmd cl w = (res, cl', w') \<Longrightarrow>
    pipeline_run sem_max env s (Some cl') conn evs"

lemma connects_received: "connects ev s \<Longrightarrow> received ev arrived s = [] \<and> client_enabled ev s"
  by (auto simp: connects_def received_def client_enabled_def)

lemma received_enabled: "received ev arrived s = [r] \<Longrightarrow>
    client_enabled ev s \<and> pc s = Sending \<and> r \<in> set (request_queue s)"
  by (auto simp: received_def client_enabled_def split: client_event.splits if_splits list.splits)

lemma pipeline_link: "pipeline_run sem_max env s clo conn evs \<Longrightarrow> \<exists>got. link_run sem_max s got evs"
proof (induction rule: pipeline_run.induct)
  case (pipeline_handshake s clo conn evs ev s' i info w i' cl' w' arrived)
  then show ?case using connects_received by (blast intro: link_more)
next
  case (pipeline_report s cl conn evs ev arrived r s' db w res ing' cl' w')
  then show ?case using received_enabled by (blast intro: link_more)
qed (blast intro: link_none link_more)+

lemma pipeline_queue: "pipeline_run sem_max env s clo conn evs \<Longrightarrow> set (request_queue s) \<subseteq> set (appended (map fst evs))"
  using pipeline_link history_queue history_run [OF link_run_client] by blast

section \<open>Which requests a connection has handled\<close>

text \<open>
  They are the newest of those that were sent successfully, and after a call whose reply
  was lost also the one at the front of the queue, until the next handshake.
\<close>

definition connection_ok :: "RequestClient \<Rightarrow> queued_request list \<Rightarrow> bool" where
  "connection_ok s conn \<longleftrightarrow> (\<exists>earlier. delivered s = earlier @ conn \<or>
     (pc s = Reconnecting \<or> pc s = Finished) \<and> request_queue s \<noteq> [] \<and>
     delivered s @ [hd (request_queue s)] = earlier @ conn)"

lemma connection_report:
  assumes "received ev arrived s = [r]" "client_exec sem_max ev s = Inr s'" "connection_ok s conn"
  shows "connection_ok s' (conn @ [r])"
proof -
  obtain out rs where ev: "ev = Worker out" "pc s = Sending" "request_queue s = r # rs" "fst r = kTCP"
    "out = Call_Ok \<or> out = Call_Failed"
    using assms(1) by (auto simp: received_def split: client_event.splits if_splits list.splits)
  obtain earlier where d: "delivered s = earlier @ conn" using assms(3) ev(2) by (auto simp: connection_ok_def)
  from assms(2) ev d show ?thesis
    by (auto simp: connection_ok_def client_exec_def worker_step_def send_defs send_front_def sendTcpRequest_def
        release_permit_def split: if_splits)
qed

lemma connection_local:
  assumes "\<not> connects ev s" "received ev arrived s = []" "tcp_queue s" "client_exec sem_max ev s = Inr s'" "connection_ok s conn"
  shows "connection_ok s' conn"
proof (cases ev)
  case (Worker out)
  with assms(4) have step: "worker_step sem_max out s = Inr s'" by (simp add: client_exec_def)
  show ?thesis
  proof (cases "pc s = Sending")
    case True
    with step obtain r rs where q: "request_queue s = r # rs" by (cases "request_queue s") (auto simp: worker_step_def send_defs)
    with assms(3) have "fst r = kTCP" by (simp add: tcp_queue_def)
    with assms(2,5) step True q Worker show ?thesis
      by (cases out) (auto simp: connection_ok_def received_def worker_step_def send_defs send_front_def sendTcpRequest_def
          release_permit_def split: if_splits)
  next
    case False
    with assms(1,5) step Worker show ?thesis
      by (cases "pc s"; cases out)
        (auto simp: connection_ok_def connects_def worker_step_def connect_attempt_def split: if_splits)
  qed
next
  case (Append r)
  with assms(4,5) show ?thesis
    by (auto simp: connection_ok_def client_exec_def send_append_def push_request_def)
qed (use assms(4,5) in \<open>auto simp: connection_ok_def client_exec_def send_release_def release_permit_def start_client_def
      stop_client_def split: if_splits\<close>)

lemma connection_handshake: "connection_ok s []"
  unfolding connection_ok_def by (rule exI [of _ "delivered s"]) simp

text \<open>While the worker can send, there is a service object.\<close>

definition connected_ok :: "RequestClient \<Rightarrow> RmsClient option \<Rightarrow> bool" where
  "connected_ok s clo \<longleftrightarrow>
     (pc s = Acquiring \<or> pc s = Acquired \<or> pc s = Sending \<or> pc s = Loop_Head \<and> poll_requests s \<longrightarrow> clo \<noteq> None)"

lemma connected_local:
  assumes "\<not> connects ev s" "client_exec sem_max ev s = Inr s'" "connected_ok s clo"
  shows "connected_ok s' clo"
proof (cases clo)
  case None
  show ?thesis
  proof (cases ev)
    case (Worker out)
    with assms None show ?thesis
      by (cases "pc s"; cases out)
        (auto simp: connected_ok_def connects_def client_exec_def worker_step_def connect_attempt_def split: if_splits)
  qed (use assms None in \<open>auto simp: connected_ok_def client_exec_def send_append_def push_request_def send_release_def
        release_permit_def start_client_def stop_client_def split: if_splits\<close>)
qed (simp add: connected_ok_def)

definition service_ok :: "RmsClient option \<Rightarrow> queued_request list \<Rightarrow> bool" where
  "service_ok clo conn \<longleftrightarrow> (\<forall>cl. clo = Some cl \<longrightarrow> (\<exists>c. computer cl = Some c \<and> usage_ok c \<and>
     (\<forall>k. points_of k c = window (concat (map (request_points k \<circ> snd) conn)))))"

definition safe_request :: "queued_request \<Rightarrow> bool" where
  "safe_request r \<longleftrightarrow> fst r = kTCP \<and> (\<forall>d \<in> set (rq_items (snd r)). item_safe d)"

lemma service_report:
  assumes "cursors_end api m" "service_ok (Some cl) conn" "safe_request r"
    "report (sqlite_env api env) (snd r) (Db_Ingestor db) cl w = (res, ing', cl', w')"
  shows "service_ok (Some cl') (conn @ [r])"
proof -
  obtain c where c: "computer cl = Some c" "usage_ok c" "\<forall>k. points_of k c = window (concat (map (request_points k \<circ> snd) conn))"
    using assms(2) by (auto simp: service_ok_def)
  have safe: "\<forall>d \<in> set (rq_items (snd r)). item_safe d" using assms(3) by (simp add: safe_request_def)
  from report_points [OF assms(1) safe c(1,2), of env db w] assms(4) obtain c' where "computer cl' = Some c'" "usage_ok c'"
    "\<forall>k. points_of k c' = window (points_of k c @ request_points k (snd r))" by auto
  with c(3) show ?thesis by (simp add: service_ok_def window_window)
qed

lemma pipeline_invariant:
  "pipeline_run sem_max (sqlite_env api env) s clo conn evs \<Longrightarrow> cursors_end api m \<Longrightarrow>
     \<forall>r \<in> set (appended (map fst evs)). safe_request r \<Longrightarrow>
     connection_ok s conn \<and> connected_ok s clo \<and> service_ok clo conn"
proof (induction rule: pipeline_run.induct)
  case pipeline_start
  show ?case by (simp add: connection_handshake connected_ok_def service_ok_def new_request_client_def)
next
  case (pipeline_handshake s clo conn evs ev s' i info w i' cl' w' arrived)
  obtain c where "computer cl' = Some c" "usage_info c = []" using handshake_usage [OF pipeline_handshake.hyps(4)] by blast
  then have "service_ok (Some cl') []" using no_points by (simp add: service_ok_def window_def take_last_def)
  then show ?case by (simp add: connection_handshake connected_ok_def)
next
  case (pipeline_report s cl conn evs ev arrived r s' db w res ing' cl' w')
  have ih: "connection_ok s conn" "connected_ok s (Some cl)" "service_ok (Some cl) conn"
    using pipeline_report.IH pipeline_report.prems by simp_all
  have "safe_request r"
    using pipeline_queue [OF pipeline_report.hyps(1)] received_enabled [OF pipeline_report.hyps(2)] pipeline_report.prems(2) by auto
  with service_report [OF pipeline_report.prems(1) ih(3) _ pipeline_report.hyps(4)]
    connection_report [OF pipeline_report.hyps(2,3) ih(1)] show ?case by (simp add: connected_ok_def)
next
  case (pipeline_local s clo conn evs ev arrived s')
  have ih: "connection_ok s conn" "connected_ok s clo" "service_ok clo conn"
    using pipeline_local.IH pipeline_local.prems by simp_all
  have "tcp_queue s"
    using pipeline_queue [OF pipeline_local.hyps(1)] pipeline_local.prems(2)
    by (auto simp: tcp_queue_def list_all_iff safe_request_def)
  with ih connection_local [OF pipeline_local.hyps(2,3) _ pipeline_local.hyps(5)]
    connected_local [OF pipeline_local.hyps(2,5)] show ?case by blast
next
  case (pipeline_command s cl conn evs cmd w res cl' w')
  have "connection_ok s conn" "connected_ok s (Some cl)" "service_ok (Some cl) conn"
    using pipeline_command.IH pipeline_command.prems by simp_all
  with runCommand_computer [OF pipeline_command.hyps(2)] show ?case by (simp add: connected_ok_def service_ok_def)
qed

text \<open>Over SQLite the server can follow every run of the reporter; the handshake of a new one never fails.\<close>

lemma sqlite_handshake:
  assumes "cursors_end api m"
  shows "\<exists>i' cl' w'. handshake (sqlite_env api env) (- 1) info new_client w = (Inr i', cl', w')"
proof -
  let ?e = "sqlite_env api env" and ?c = "setSysInfo info (new_computer (- 1))"
  have ret: "fst (execute_query ?e q ret w) \<noteq> Inl e" for q ret w e using executeQuery_returns [OF assms] by simp
  obtain r c1 w1 where a: "addToDB ?e ?c w = (r, c1, w1)" by (metis prod_cases3)
  have "r \<noteq> Inl e" for e
    using no_error_addToDB [OF ret, of ?c w e] sqlite.addToDB_safe [of ?e api ?c w e] a by auto
  with a show ?thesis by (cases r) (auto simp: handshake_def)
qed

lemma received_cases: "received ev arrived s = [] \<or> (\<exists>r. received ev arrived s = [r])"
  by (auto simp: received_def split: client_event.splits list.splits)

lemma link_pipeline:
  "link_run sem_max s got evs \<Longrightarrow> cursors_end api m \<Longrightarrow> \<forall>r \<in> set (appended (map fst evs)). safe_request r \<Longrightarrow>
     \<exists>clo conn. pipeline_run sem_max (sqlite_env api env) s clo conn evs"
proof (induction rule: link_run.induct)
  case link_none
  show ?case using pipeline_start by blast
next
  case (link_more s got evs ev s' arrived)
  then obtain clo conn where run: "pipeline_run sem_max (sqlite_env api env) s clo conn evs" by auto
  have "connected_ok s clo" using pipeline_invariant [OF run link_more.prems(1)] link_more.prems(2) by simp
  show ?case
  proof (cases "connects ev s")
    case True
    with sqlite_handshake [OF link_more.prems(1)] link_more.hyps(3) pipeline_handshake [OF run] show ?thesis by metis
  next
    case False
    show ?thesis
    proof (cases "received ev arrived s")
      case Nil
      with False pipeline_local [OF run] link_more.hyps(2,3) show ?thesis by blast
    next
      case (Cons r rs)
      with received_cases [of ev arrived s] have r: "received ev arrived s = [r]" by auto
      with received_enabled \<open>connected_ok s clo\<close> obtain cl where "clo = Some cl" by (fastforce simp: connected_ok_def)
      with pipeline_report [OF _ r link_more.hyps(3)] run show ?thesis by (metis prod_cases4)
    qed
  qed
qed

text \<open>
  C4. The windows of the server are the newest points of the connection. For every run of the
  request client with any failures, lost replies and reconnects: a call is only made on a
  connection whose handshake is done; its computer began empty, and each of its windows
  holds the newest 61 of the points in the requests that the connection has handled, in
  order. These are the newest requests that the reporter sent successfully, each once,
  and after a lost reply also the one at the front of the queue, while the worker reconnects; that one
  is sent again to the next connection. The next request is handled without an error.
\<close>

theorem windows_hold_newest:
  assumes "pipeline_run sem_max (sqlite_env api env) s clo conn evs" "cursors_end api m"
    and "\<forall>r \<in> set (appended (map fst evs)). safe_request r"
  shows "(pc s = Sending \<longrightarrow> clo \<noteq> None) \<and>
    (\<exists>earlier. delivered s = earlier @ conn \<or>
       (pc s = Reconnecting \<or> pc s = Finished) \<and> request_queue s \<noteq> [] \<and>
       delivered s @ [hd (request_queue s)] = earlier @ conn) \<and>
    (\<forall>cl. clo = Some cl \<longrightarrow>
       (\<exists>c. computer cl = Some c \<and>
          (\<forall>k. points_of k c = take_last 61 (concat (map (request_points k \<circ> snd) conn)))) \<and>
       (\<forall>r db w. safe_request r \<longrightarrow>
          (\<exists>res. fst (report (sqlite_env api env) (snd r) (Db_Ingestor db) cl w) = Inr res \<and> rs_items res = response_queue cl)))"
proof -
  have inv: "connection_ok s conn" "connected_ok s clo" "service_ok clo conn"
    using pipeline_invariant [OF assms] by simp_all
  have "\<exists>res. fst (report (sqlite_env api env) (snd r) (Db_Ingestor db) cl w) = Inr res \<and> rs_items res = response_queue cl"
    if "clo = Some cl" "safe_request r" for cl r db w
  proof -
    obtain c where c: "computer cl = Some c" "usage_ok c" using inv(3) \<open>clo = Some cl\<close> by (auto simp: service_ok_def)
    have "\<forall>d \<in> set (rq_items (snd r)). item_safe d" using that(2) by (simp add: safe_request_def)
    from report_points [OF assms(2) this c, of env db w] show ?thesis by auto
  qed
  moreover have "\<exists>c. computer cl = Some c \<and> (\<forall>k. points_of k c = take_last 61 (concat (map (request_points k \<circ> snd) conn)))"
    if "clo = Some cl" for cl
    using inv(3) that by (auto simp: service_ok_def window_def RMS_MAX_CONTAINER_DATA_POINTS_def)
  moreover have "pc s = Sending \<longrightarrow> clo \<noteq> None" using inv(2) by (simp add: connected_ok_def)
  ultimately show ?thesis using inv(1) unfolding connection_ok_def by blast
qed

definition usage_request :: queued_request where
  "usage_request = (kTCP, \<lparr>rq_header = \<lparr>timestamp = 0, data_count = 2\<rparr>, rq_items = [ram_item 200 50, cpu_item [Num 1]]\<rparr>)"

text \<open>A request whose first call is handled although its reply is lost; the worker then reconnects.\<close>

definition lost_trace :: "(client_event \<times> bool) list" where
  "lost_trace = [(Append usage_request, False), (Release, False), (Start, False)] @ replicate 5 (Worker Call_Ok, False) @
     [(Worker Call_Failed, True)]"

definition lost_client :: RequestClient where
  "lost_client = new_request_client\<lparr>request_queue := [usage_request], request_counter := 1, poll_requests := True,
     mtx_locked := True, pc := Reconnecting, submitted := [usage_request]\<rparr>"

lemma lost_evaluates: "link_events 1 lost_trace (new_request_client, []) = Some (lost_client, [usage_request])"
  by (simp add: lost_trace_def lost_client_def client_defs client_enabled_def new_request_client_def received_def
      usage_request_def send_front_def sendTcpRequest_def numeral_eq_Suc)

lemma lost_steps:
  "client_exec 1 (Worker Call_Ok) lost_client = Inr (lost_client\<lparr>mtx_locked := False, pc := Loop_Head\<rparr>)"
  "client_exec 1 (Worker Call_Ok) (lost_client\<lparr>mtx_locked := False, pc := Loop_Head\<rparr>) =
    Inr (lost_client\<lparr>mtx_locked := False, pc := Acquiring\<rparr>)"
  "client_exec 1 (Worker Call_Ok) (lost_client\<lparr>mtx_locked := False, pc := Acquiring\<rparr>) =
    Inr (lost_client\<lparr>mtx_locked := False, pc := Acquired, request_counter := 0\<rparr>)"
  "client_exec 1 (Worker Call_Ok) (lost_client\<lparr>mtx_locked := False, pc := Acquired, request_counter := 0\<rparr>) =
    Inr (lost_client\<lparr>pc := Sending, request_counter := 0\<rparr>)"
  "client_exec 1 (Worker Call_Ok) (lost_client\<lparr>pc := Sending, request_counter := 0\<rparr>) =
    Inr (lost_client\<lparr>request_queue := [], mtx_locked := False, pc := Loop_Head, request_counter := 0, delivered := [usage_request]\<rparr>)"
  by (simp_all add: lost_client_def client_defs new_request_client_def usage_request_def send_front_def sendTcpRequest_def)

lemma lost_run:
  "\<exists>s cl. pipeline_run 1 (sqlite_env sample_api sample_env) s (Some cl) [usage_request]
     (lost_trace @ replicate 5 (Worker Call_Ok, False)) \<and> delivered s = [usage_request]"
proof -
  let ?env = "sqlite_env sample_api sample_env" and ?ok = "(Worker Call_Ok, False)"
  have safe: "\<forall>r \<in> set (appended (map fst lost_trace)). safe_request r"
    by (simp add: lost_trace_def usage_request_def safe_request_def numeral_eq_Suc item_safe_def ram_item_def cpu_item_def
        default_request_values_def ram_in_range_def in_i64_def)
  have "link_run 1 lost_client [usage_request] lost_trace" using link_events_run [OF link_none lost_evaluates] by simp
  from link_pipeline [OF this sample_api_ends safe] obtain clo conn where
    run: "pipeline_run 1 ?env lost_client clo conn lost_trace" by blast
  obtain i' cl w' where h: "handshake ?env (- 1) sample_info new_client 0 = (Inr i', cl, w')"
    using sqlite_handshake [OF sample_api_ends] by blast
  have "connects (Worker Call_Ok) lost_client" by (simp add: connects_def lost_client_def)
  from pipeline_handshake [OF run this lost_steps(1) h, of False]
  have 1: "pipeline_run 1 ?env (lost_client\<lparr>mtx_locked := False, pc := Loop_Head\<rparr>) (Some cl) [] (lost_trace @ [?ok])" .
  note quiet = connects_def received_def client_enabled_def
  have 2: "pipeline_run 1 ?env (lost_client\<lparr>mtx_locked := False, pc := Acquiring\<rparr>) (Some cl) [] ((lost_trace @ [?ok]) @ [?ok])"
    by (rule pipeline_local [OF 1 _ _ _ lost_steps(2)]) (simp_all add: quiet)
  have 3: "pipeline_run 1 ?env (lost_client\<lparr>mtx_locked := False, pc := Acquired, request_counter := 0\<rparr>) (Some cl) []
      (((lost_trace @ [?ok]) @ [?ok]) @ [?ok])"
    by (rule pipeline_local [OF 2 _ _ _ lost_steps(3)]) (simp_all add: quiet)
  have 4: "pipeline_run 1 ?env (lost_client\<lparr>pc := Sending, request_counter := 0\<rparr>) (Some cl) []
      ((((lost_trace @ [?ok]) @ [?ok]) @ [?ok]) @ [?ok])"
    by (rule pipeline_local [OF 3 _ _ _ lost_steps(4)]) (simp_all add: quiet)
  obtain res ing' cl' w2 where r: "report ?env (snd usage_request) (Db_Ingestor \<lparr>tick = - 1, next_usage_push = 0\<rparr>) cl 0 = (res, ing', cl', w2)"
    by (metis prod_cases4)
  have "received (Worker Call_Ok) False (lost_client\<lparr>pc := Sending, request_counter := 0\<rparr>) = [usage_request]"
    by (simp add: received_def lost_client_def usage_request_def)
  from pipeline_report [OF 4 this lost_steps(5) r] show ?thesis
    by (intro exI [of _ "lost_client\<lparr>request_queue := [], mtx_locked := False, pc := Loop_Head, request_counter := 0,
        delivered := [usage_request]\<rparr>"] exI [of _ cl']) (simp add: numeral_eq_Suc)
qed

theorem windows_hold_newest_witness:
  "\<exists>s cl c. pipeline_run 1 (sqlite_env sample_api sample_env) s (Some cl) [usage_request]
       (lost_trace @ replicate 5 (Worker Call_Ok, False)) \<and>
     computer cl = Some c \<and> points_of (kRam, 0) c = [Num 75] \<and> points_of (kCpu, 0) c = [Num 1]"
proof -
  obtain s cl where run: "pipeline_run 1 (sqlite_env sample_api sample_env) s (Some cl) [usage_request]
      (lost_trace @ replicate 5 (Worker Call_Ok, False))" using lost_run by blast
  have safe: "\<forall>r \<in> set (appended (map fst (lost_trace @ replicate 5 (Worker Call_Ok, False)))). safe_request r"
    by (simp add: lost_trace_def usage_request_def safe_request_def numeral_eq_Suc item_safe_def ram_item_def cpu_item_def
        default_request_values_def ram_in_range_def in_i64_def)
  obtain c where c: "computer cl = Some c"
    "\<forall>k. points_of k c = take_last 61 (concat (map (request_points k \<circ> snd) [usage_request]))"
    using windows_hold_newest [OF run sample_api_ends safe] by blast
  have "points_of (kRam, 0) c = [Num 75]" "points_of (kCpu, 0) c = [Num 1]"
    using c(2) [rule_format, of "(kRam, 0)"] c(2) [rule_format, of "(kCpu, 0)"]
    by (simp_all add: request_points_def usage_request_def item_points_def ram_item_def cpu_item_def percent_def
        default_request_values_def take_last_def)
  with run c(1) show ?thesis by blast
qed

end
