(* ===== verification/Request_Progress.thy ===== *)
theory Request_Progress
  imports Rms_Request_Client
begin

text \<open>
  Progress of the request client (\<open>request_client.cpp\<close>, \<open>pollRequests\<close>): what is queued is
  delivered, while producers go on and calls fail, as long as enough calls succeed. Each call
  that succeeds brings the worker one of its at most four steps closer to the next delivery;
  each that fails sets it back by at most these four.
\<close>

section \<open>Steps that can happen\<close>

text \<open>A worker that waits for a permit makes no step; nobody stops it; its calls end.\<close>

definition can_step :: "client_event \<Rightarrow> RequestClient \<Rightarrow> bool" where
  "can_step ev s \<longleftrightarrow> ev \<noteq> Stop \<and> ev \<noteq> Worker Call_Throws \<and>
     (\<forall>out. ev = Worker out \<longrightarrow> \<not> (pc s = Acquiring \<and> request_counter s = 0))"

definition running :: "RequestClient \<Rightarrow> bool" where
  "running s \<longleftrightarrow> poll_requests s \<and> pc s \<noteq> Not_Started \<and> pc s \<noteq> Starting \<and> pc s \<noteq> Finished"

fun steps_left :: "worker_pc \<Rightarrow> nat" where
  "steps_left Loop_Head = 3"
| "steps_left Acquiring = 2"
| "steps_left Acquired = 1"
| "steps_left Sending = 0"
| "steps_left _ = 4"

lemma steps_left_le: "steps_left p \<le> 4"
  by (cases p) simp_all

text \<open>What is left to do until \<open>n\<close> requests are delivered.\<close>

definition work_left :: "nat \<Rightarrow> RequestClient \<Rightarrow> nat" where
  "work_left n s = 4 * (n - length (delivered s)) + steps_left (pc s)"

fun successes :: "client_event list \<Rightarrow> nat" where
  "successes [] = 0"
| "successes (Worker Call_Ok # evs) = Suc (successes evs)"
| "successes (_ # evs) = successes evs"

fun failures :: "client_event list \<Rightarrow> nat" where
  "failures [] = 0"
| "failures (Worker Call_Failed # evs) = Suc (failures evs)"
| "failures (_ # evs) = failures evs"

lemma counts_append [simp]:
  "successes (xs @ ys) = successes xs + successes ys" "failures (xs @ ys) = failures xs + failures ys"
proof -
  show "successes (xs @ ys) = successes xs + successes ys" by (induction xs rule: successes.induct) simp_all
  show "failures (xs @ ys) = failures xs + failures ys" by (induction xs rule: failures.induct) simp_all
qed

section \<open>One step\<close>

lemma send_progress:
  assumes "send_step sem_max out s = Inr s'" "pc s = Sending" "running s" "length (delivered s) < n" "out \<noteq> Call_Throws"
  shows "running s' \<and> work_left n s' + successes [Worker out] \<le> work_left n s + 4 * failures [Worker out]"
proof -
  obtain r rs where q: "request_queue s = r # rs" using assms(1) by (cases "request_queue s") (auto simp: send_defs)
  then obtain failed where f: "send_front out r = Inr failed" using assms(1) by (auto simp: send_defs rbind_Inl_iff)
  show ?thesis
  proof (cases failed)
    case True
    then have "out = Call_Failed"
      using f assms(5) by (cases out; cases "fst r") (auto simp: send_front_def sendTcpRequest_def sendHttpRequest_def
          sendLogRequest_def split: if_splits)
    with True q f assms(1-3) show ?thesis
      by (auto simp: send_defs release_permit_def running_def work_left_def split: if_splits)
  next
    case False
    with q f assms(1) have s': "s' = s\<lparr>delivered := delivered s @ [r], request_queue := rs, pc := Loop_Head, mtx_locked := False\<rparr>"
      by (auto simp: send_defs)
    with assms(2-5) show ?thesis by (cases out) (auto simp: running_def work_left_def)
  qed
qed

lemma worker_progress:
  assumes "worker_step sem_max out s = Inr s'" "running s" "length (delivered s) < n" "can_step (Worker out) s"
  shows "running s' \<and> work_left n s' + successes [Worker out] \<le> work_left n s + 4 * failures [Worker out]"
proof (cases "pc s = Sending")
  case True
  with assms send_progress show ?thesis by (simp add: worker_step_def can_step_def)
next
  case False
  with assms show ?thesis
    by (cases "pc s"; cases out)
      (auto simp: worker_step_def connect_attempt_def running_def can_step_def work_left_def split: if_splits)
qed

lemma event_progress:
  assumes "client_exec sem_max ev s = Inr s'" "running s" "length (delivered s) < n" "can_step ev s"
  shows "running s' \<and> work_left n s' + successes [ev] \<le> work_left n s + 4 * failures [ev]"
proof (cases ev)
  case (Worker out)
  with assms worker_progress show ?thesis by (simp add: client_exec_def)
qed (use assms in \<open>auto simp: client_exec_def send_append_def push_request_def send_release_def release_permit_def
      start_client_def running_def can_step_def work_left_def split: if_splits\<close>)

section \<open>A run\<close>

lemma run_history:
  "client_run sem_max allowed s evs r \<Longrightarrow> r = Inr s' \<Longrightarrow>
     delivered s' @ request_queue s' = delivered s @ request_queue s @ appended evs"
proof (induction arbitrary: s' rule: client_run.induct)
  case (client_more evs s1 ev)
  from client_more.IH [OF refl] history_event [OF client_more.prems] show ?case by simp
qed simp

lemma worker_delivered: "worker_step sem_max out s = Inr s' \<Longrightarrow> length (delivered s) \<le> length (delivered s')"
  by (auto simp: worker_step_def connect_attempt_def send_defs release_permit_def rbind_Inl_iff
      split: worker_pc.splits if_splits outcome.splits list.splits)

lemma event_delivered: "client_exec sem_max ev s = Inr s' \<Longrightarrow> length (delivered s) \<le> length (delivered s')"
  by (cases ev) (auto simp: client_exec_def send_append_def push_request_def send_release_def release_permit_def
      start_client_def stop_client_def worker_delivered split: if_splits)

lemma account: "a + b \<le> c + 4 * d \<Longrightarrow> e + f \<le> a + 4 * g \<Longrightarrow> e + (b + f) \<le> c + 4 * (d + (g :: nat))"
  by (simp add: algebra_simps)

lemma run_progress:
  "client_run sem_max can_step s evs r \<Longrightarrow> r = Inr s' \<Longrightarrow> running s \<Longrightarrow>
     n \<le> length (delivered s') \<or> running s' \<and> work_left n s' + successes evs \<le> work_left n s + 4 * failures evs"
proof (induction arbitrary: s' rule: client_run.induct)
  case (client_more evs s1 ev)
  show ?case
  proof (cases "n \<le> length (delivered s1)")
    case True
    with event_delivered [OF client_more.prems(1)] show ?thesis by simp
  next
    case False
    with client_more.IH [OF refl client_more.prems(2)] have 1: "running s1"
      "work_left n s1 + successes evs \<le> work_left n s + 4 * failures evs" by simp_all
    have "length (delivered s1) < n" using False by simp
    note step = event_progress [OF client_more.prems(1) 1(1) this client_more.hyps(3)]
    have "work_left n s' + (successes evs + successes [ev]) \<le> work_left n s + 4 * (failures evs + failures [ev])"
      using 1(2) step [THEN conjunct2] by (rule account)
    with step show ?thesis unfolding counts_append by blast
  qed
qed simp

lemma can_step_well_timed: "client_run sem_max can_step s evs r \<Longrightarrow> r = Inr s' \<Longrightarrow> permits_ok s \<Longrightarrow> permits_ok s'"
proof (induction arbitrary: s' rule: client_run.induct)
  case (client_more evs s1 ev)
  have "well_timed ev s1" using client_more.hyps(3) by (simp add: can_step_def well_timed_def)
  from permits_exec [OF client_more.IH [OF refl client_more.prems(2)] client_more.hyps(2) this client_more.prems(1)]
  show ?case .
qed simp

text \<open>
  C27. What is queued gets delivered. Whatever producers do meanwhile, and however calls and
  connection attempts fail, once more calls and steps of the worker have succeeded than four
  for each queued request and four for each failure, all requests that were queued are
  delivered, in order. And the worker is never left waiting: while it runs, with something
  queued and no producer between its append and its release, it can make a step.
\<close>

theorem queued_is_delivered:
  assumes "permits_ok s" "running s" "client_run sem_max can_step s evs (Inr s')"
  shows "(4 * length (request_queue s) + 4 * failures evs < successes evs \<longrightarrow>
      (\<exists>rest. delivered s' = delivered s @ request_queue s @ rest)) \<and>
    (running s' \<and> request_queue s' \<noteq> [] \<and> unreleased s' = 0 \<longrightarrow> can_step (Worker Call_Ok) s')"
proof (intro conjI impI)
  assume enough: "4 * length (request_queue s) + 4 * failures evs < successes evs"
  let ?n = "length (delivered s @ request_queue s)"
  have "?n \<le> length (delivered s')"
  proof (rule ccontr)
    assume less: "\<not> ?n \<le> length (delivered s')"
    with run_progress [OF assms(3) refl assms(2), of ?n]
    have "work_left ?n s' + successes evs \<le> work_left ?n s + 4 * failures evs" by simp
    moreover have "4 \<le> work_left ?n s'" using less by (simp add: work_left_def)
    moreover have "work_left ?n s \<le> 4 * length (request_queue s) + 4"
      using steps_left_le [of "pc s"] by (simp add: work_left_def)
    ultimately show False using enough by linarith
  qed
  moreover from run_history [OF assms(3) refl]
  have "delivered s' @ request_queue s' = (delivered s @ request_queue s) @ appended evs" by simp
  ultimately show "\<exists>rest. delivered s' = delivered s @ request_queue s @ rest"
    by (metis append.assoc append_eq_append_conv_if append_take_drop_id)
next
  assume a: "running s' \<and> request_queue s' \<noteq> [] \<and> unreleased s' = 0"
  have "permits_ok s'" by (rule can_step_well_timed [OF assms(3) refl assms(1)])
  with a show "can_step (Worker Call_Ok) s'" by (auto simp: can_step_def permits_ok_def running_def)
qed

definition busy_client :: RequestClient where
  "busy_client = new_request_client\<lparr>poll_requests := True, pc := Loop_Head, request_counter := 1,
     request_queue := [sample_request 1], submitted := [sample_request 1]\<rparr>"

text \<open>The first call fails, the server comes back, and a producer adds another request.\<close>

definition busy_trace :: "client_event list" where
  "busy_trace = [Worker Call_Ok, Worker Call_Ok, Worker Call_Ok, Worker Call_Failed, Worker Call_Ok, Worker Call_Ok,
     Append (sample_request 2), Release, Worker Call_Ok, Worker Call_Ok, Worker Call_Ok, Worker Call_Ok]"

theorem queued_is_delivered_witness:
  "\<exists>s' rest. client_run 2 can_step busy_client busy_trace (Inr s') \<and> delivered s' = sample_request 1 # rest"
proof -
  have run: "client_run 2 can_step busy_client busy_trace (run_events 2 busy_trace busy_client)"
    using run_events_run [OF client_none, of 2 can_step busy_trace busy_client]
    by (simp add: busy_trace_def busy_client_def client_defs client_enabled_def new_request_client_def send_front_def
        sendTcpRequest_def sample_request_def can_step_def)
  have "\<exists>s'. run_events 2 busy_trace busy_client = Inr s'"
    by (simp add: busy_trace_def busy_client_def client_defs client_enabled_def new_request_client_def send_front_def
        sendTcpRequest_def sample_request_def)
  then obtain s' where s': "run_events 2 busy_trace busy_client = Inr s'" by blast
  have "permits_ok busy_client" "running busy_client"
    by (simp_all add: permits_ok_def running_def busy_client_def new_request_client_def)
  from queued_is_delivered [OF this run [unfolded s'], THEN conjunct1] run s' show ?thesis
    by (auto simp: busy_trace_def busy_client_def new_request_client_def)
qed

end
