(* ===== verification/Log_Ingestor.thy ===== *)
theory Log_Ingestor
  imports Rms_Ingestor
begin

text \<open>
  What the log ingestor (\<open>server/src/ingestor/request_log_ingestor.cpp\<close>) writes to the standard
  output. The text of an item is made by code that the RPC compiler generates: the
  parameter \<open>show_data\<close>.
\<close>

definition log_request_header :: "RmsHeader \<Rightarrow> string" where
  "log_request_header header =
     ''Get Header: '' @ to_string (data_count header) @ '' at: '' @ to_string (timestamp header) @ endl"

definition log_request_data :: "(RmsRequestData \<Rightarrow> string) \<Rightarrow> RmsRequestData \<Rightarrow> string" where
  "log_request_data show_data data = show_data data @ endl"

definition log_request :: "(RmsRequestData \<Rightarrow> string) \<Rightarrow> RmsRequest \<Rightarrow> string" where
  "log_request show_data req =
     log_request_header (rq_header req) @ concat (map (log_request_data show_data) (rq_items req))"

text \<open>
  The log of a request is the line of its header and one line for each item, in order, when
  the items are shown on one line; the count in the header is not looked at. Nothing else of
  the server changes.
\<close>

theorem log_request_lines:
  assumes "\<And>d. newline \<notin> set (show_data d)"
  shows "lines_of (log_request show_data req) =
      (''Get Header: '' @ to_string (data_count (rq_header req)) @ '' at: '' @ to_string (timestamp (rq_header req))) #
      map show_data (rq_items req) \<and>
    ingestRequest env req LogRequestIngestor computer w = (Inr (), LogRequestIngestor, computer, w)"
proof -
  have nl: "newline \<notin> set (to_string n)" for n
    using to_string_no_space [of newline n] by (auto simp: is_space_def newline_def)
  have header: "newline \<notin> set (''Get Header: '' @ to_string m @ '' at: '' @ to_string n)" for m n
    using nl [of m] nl [of n] by (auto simp: newline_def)
  have items: "lines_of (concat (map (log_request_data show_data) ds)) = map show_data ds" for ds
    by (induction ds) (simp_all add: log_request_data_def endl_def assms)
  show ?thesis
    using lines_of_line [OF header, of "data_count (rq_header req)" "timestamp (rq_header req)"
        "concat (map (log_request_data show_data) (rq_items req))"] items
    by (simp add: log_request_def log_request_header_def endl_def ingestRequest_def)
qed

theorem log_request_lines_witness:
  "lines_of (log_request (\<lambda>d. ''item'') \<lparr>rq_header = \<lparr>timestamp = 3, data_count = 9\<rparr>, rq_items = [cpu_item []]\<rparr>) =
     [''Get Header: '' @ to_string 9 @ '' at: '' @ to_string 3, ''item'']"
proof -
  have "newline \<notin> set ''item''" by (simp add: newline_def)
  from log_request_lines [OF this, THEN conjunct1, of "\<lparr>rq_header = \<lparr>timestamp = 3, data_count = 9\<rparr>, rq_items = [cpu_item []]\<rparr>"]
  show ?thesis by simp
qed

end
