(* ===== verification/Spec2Isabelle.thy ===== *)
theory Spec2Isabelle
  imports Server_System Server_Threads Query_Threads Push_Threads Storage_Reload Sql_Text Client_Handler Reporter_Main Command_Executor Usage_Pipeline Request_Progress Log_Ingestor
begin

text \<open>
  A model of RMS 2.0, a remote management system in C++: a server that keeps a database of
  computers, and a reporter that runs on each of them.

  \<^bold>\<open>The program.\<close> A reporter (\<open>reporter/\<close>) connects to the server (\<open>server/\<close>) and shakes hands
  with its id, which it keeps in a configuration file (\<open>common/src/rms_config.cpp\<close>). Its
  consumers read the machine periodically and queue requests; one worker thread sends
  them and handles the responses, which may ask for the system information or for a
  command to be run by an executor. The server has one \<open>RmsClient\<close> for each connection, with
  an \<open>RmsComputer\<close> that mirrors what the database knows; an ingestor puts the values of
  the requests into usage windows and pushes these to the database each hour; an operator
  types commands at a terminal. The protocol is \<open>common/thrift/RMS.thrift\<close>.

  \<^bold>\<open>Shared theories.\<close> \<open>Rms_Prelude\<close>: outcomes (\<open>res\<close>, with one error constructor for each way a C++
  call can go wrong), machine integers, \<open>double\<close> values without rounding, list lemmas.
  \<open>Cpp_Text\<close>: number conversions, input streams, \<open>scanf\<close>. \<open>Keyed_Table\<close> and \<open>Fifo\<close>: the interfaces
  of a table searched by key and of a queue, as locales, with the lemmas their clients
  use. \<open>Rms_Thrift\<close>: the data of the protocol. \<open>Rms_Database\<close>: the statements
  (\<open>rms_database.h\<close>), the results, the interface \<open>query_source\<close> of a database, and an environment
  that records the statements issued.

  \<^bold>\<open>Server.\<close>
  \<^item> \<open>Rms_Config\<close>: the configuration map, its parsing and writing; a session of operations
    survives saving and loading in any order of the map.
  \<^item> \<open>Usage_Container\<close> (\<open>rms_computer.h\<close>): the window of usage points and its average.
  \<^item> \<open>Rms_Computer\<close> (\<open>rms_computer.cpp\<close>): merging reported devices, dirty flags, the statements
    of provisioning, updating, loading and pushing; the device tables are interpretations
    of \<open>keyed_table\<close>.
  \<^item> \<open>Rms_Sqlite\<close> (\<open>rms_sqlite_database.cpp\<close>): the row loop over the C interface of SQLite, against
    the table of cells that a cursor holds (\<open>cursor_data\<close>, stated without the loop), and the
    interpretation of \<open>query_source\<close>.
  \<^item> \<open>Rms_Ingestor\<close> (\<open>request_db_ingestor.cpp\<close>, \<open>request_ingestor.cpp\<close>): values to windows, the
    hourly push. \<open>Log_Ingestor\<close> (\<open>request_log_ingestor.cpp\<close>): the lines it prints.
  \<^item> \<open>Rms_Client\<close> (\<open>rms_client.cpp\<close>): handshake, report, commands, the response queue, which
    is an interpretation of \<open>fifo\<close>.
  \<^item> \<open>Rms_Server\<close> (\<open>rms_server.cpp\<close>): the registry of raw pointers over a heap of client objects,
    and start-up. \<open>Rms_Terminal\<close> (\<open>rms_terminal.cpp\<close>): every command line and the reading loop.
    \<open>Client_Handler\<close> (\<open>client_handler.cpp\<close>, \<open>main.cpp\<close>): the listener and the life of the process,
    where the RPC server may fail to listen and may not return after a stop.
  \<^item> \<open>Server_System\<close>: all of it as a step relation on calls of connections and lines of the
    terminal, each taken as one step, with the invariant that no reachable registry has a
    dangling pointer. \<open>Storage_Reload\<close>: what a client finds that reconnects. \<open>Sql_Text\<close>: the texts
    of the statements, under the documented behaviour of the formatting library.
  \<^item> The threads of the connections within a call, in three places where the code has no lock:
    \<open>Query_Threads\<close>, the calls of the library in \<open>executeQuery\<close>; \<open>Push_Threads\<close>, the hourly push of the
    ingestor; \<open>Server_Threads\<close>, the raw pointer of a line of the terminal and the list of the
    clients. Each has a lemma that a thread which runs alone does what the model above says,
    what would hold if calls were serial (the code takes no lock), and what goes wrong when they
    are not.

  \<^bold>\<open>Reporter.\<close>
  \<^item> \<open>Rms_Request_Client\<close> (\<open>request_client.cpp\<close>): the queue with its semaphore and mutex, the worker
    as a program counter, and every interleaving with producers, \<open>start\<close> and \<open>stop\<close>; the queue
    is an interpretation of \<open>fifo\<close>. The history field \<open>delivered\<close> has the requests whose call
    succeeded, whatever the queue does with them. \<open>Request_Progress\<close>: what is queued is delivered once enough calls
    succeed, by a measure that every success lowers by one and every failure raises by four.
  \<^item> \<open>Rms_Reporter_Client\<close> (\<open>request_client.cpp\<close>, \<open>rms_reporter_client.cpp\<close>, \<open>executor.cpp\<close>,
    \<open>command_executor.cpp\<close>): the handshake and the identity it keeps, responses, executors, and the
    loop that collects the output of a command.
  \<^item> \<open>Proc_Reporters\<close> (\<open>ram_reporter.cpp\<close>, \<open>cpu_reporter.cpp\<close>) and \<open>Sys_Reporter\<close> (\<open>sys_reporter.cpp\<close>): what is
    read from the files of \<open>/proc\<close> and from system calls, against the layout of these files.
  \<^item> \<open>Reporter_System\<close> (\<open>consumer.h\<close>, \<open>consumer/*.cpp\<close>, \<open>rms_reporter_client.cpp\<close>): consumers, executors,
    worker and main thread interleaved; each of its runs is a run of the request client. Two
    ways to hang are derived from its steps: an outage with the mutex held, and a rejected
    executor that the worker waits for.
  \<^item> \<open>Command_Executor\<close> (\<open>command_executor.cpp\<close>): the pipes and processes of several commands at a
    time, as steps on tables of descriptors, which are an interpretation of \<open>descriptor_table\<close>:
    none is lost, what a child inherits, when its end is seen, the signal of the destructor. The
    processes of a command can close and replace descriptors, leave copies and end.
  \<^item> \<open>Delivery\<close>: the request client beside what the server has received when calls can fail on
    either side of the server; \<open>Usage_Pipeline\<close>: the same runs with the service objects of the
    server, one for each handshake: the windows of a connection are the newest points that were
    sent on it. \<open>Reporter_Main\<close> (\<open>main.cpp\<close>): the start of the process and its end, where the members
    of the reporter are destroyed while threads of executors may go on.

  This theory holds the properties that span both programs: the round trip of a command and
  of a request for system information, the identity of a new computer, the path of the
  memory usage and that of the output of a command.

  \<^bold>\<open>Conventions.\<close> An operation takes and returns its object explicitly, and the world \<open>'w\<close>
  of the environment (\<open>env\<close>: database, clocks, formatting) in the same way. A result is \<open>Inl\<close>
  with an error or \<open>Inr\<close> with the value; undefined behaviour (null or dangling pointers, reads
  out of range or of variables without a value, signed overflow, releasing a semaphore
  above its maximum) is an error like an exception. Names are those of the source where
  the logic allows it. Libraries the code calls are parameters: the RPC library by the
  outcome of a call, SQLite by the record \<open>sqlite_api\<close>, the formatting library by \<open>fmt_format\<close>;
  theorems that rely on their behaviour say so in their assumptions.

  \<^bold>\<open>Loops.\<close> Loops that need not end are partial functions into \<open>option\<close>, where \<open>None\<close> is not
  returning: the terminal, the row loop of SQLite, skipping lines of a file. The loop over
  mounted file systems ends because each round consumes text. No fuel is used.

  \<^bold>\<open>Not modelled.\<close> Rounding of \<open>float\<close> and \<open>double\<close>; the scheduling of the kernel beyond the order
  of steps, so the pause of a second in the loop of an executor is only the order of its
  answers; the races of the server's threads beyond the three above; signal masks beyond
  what \<open>Client_Handler\<close> states; the data race on the flag of a consumer; output for debugging;
  the accessors that only return a field; \<open>getExecutorTimestamp\<close>, which nothing calls. Not
  built by the project and left out: \<open>sys_info_data.cpp\<close>, which converts types that no longer
  exist, \<open>sys_consumer.cpp\<close>, the script executor, and the older copies of the ingestor headers.
\<close>

section \<open>A command from the server to the reporter and back\<close>

text \<open>The executor that a reporter starts for a command, with the shell it is configured with.\<close>

definition command_executor :: "RmsConfig \<Rightarrow> int \<Rightarrow> string \<Rightarrow> CommandExecutor" where
  "command_executor cfg i cmd =
     (let found = fst (RmsConfig_find RMS_REPORTER_CONFIG_EXECUTOR_SHELL cfg)
      in new_executor i cmd (if found = [] then ''bash'' else found))"

lemma run_jobs_command:
  assumes "executors rc (word_of_int i) = None"
  shows "\<exists>cfg'. run_jobs (response_jobs \<lparr>rs_header = h, rs_items = [command_response i cmd]\<rparr>) cfg rc =
    (cfg', rc\<lparr>launched := launched rc @ [command_executor cfg i cmd],
              executors := (executors rc)(word_of_int i \<mapsto> command_executor cfg i cmd)\<rparr>, None)"
proof -
  obtain found cfg1 where f: "RmsConfig_find RMS_REPORTER_CONFIG_EXECUTOR_SHELL cfg = (found, cfg1)" by fastforce
  with assms show ?thesis
    by (simp add: response_jobs_def command_response_def handleResponseData_def run_command_def emplace_executor_def
        command_executor_def Let_def)
qed

lemma report_queue:
  assumes "report env req ing cl w = (r, ing', cl', w')"
  shows "response_queue cl' = [] \<and> (\<forall>res. r = Inr res \<longrightarrow> rs_items res = response_queue cl)"
proof -
  obtain now w0 where t: "time_now env w = (now, w0)" by fastforce
  obtain x ing1 c1 w1 where "ingestRequest env req ing (computer cl) w0 = (x, ing1, c1, w1)"
    by (metis prod_cases4)
  with assms t show ?thesis by (cases x) (auto simp: report_def drain_all)
qed

lemmas report_idle_queue = report_queue [THEN conjunct2, rule_format, OF _ refl]
lemmas report_empties_queue = report_queue [THEN conjunct1]

lemma ingest_executor_result:
  "snd (snd (snd (ingest_values (traced env) (hd (rq_items (snd (notifyEnd now e)))) who (w, l)))) =
     l @ [update_executor_query env (executor_result now e)]"
  by (cases "execute_query env (update_executor_query env (executor_result now e)) False w"; cases who)
    (auto simp: ingest_values_def notifyEnd_def run_query_def update_executor_query_def split: sum.splits)

text \<open>
  C2. The round trip of a command. When no other response waits for the client and an
  operator's command was recorded in the database under the id \<open>i\<close>, the next successful report of the client carries it, and the reporter starts
  exactly one executor, for that id and that command, unless it already has one with that
  id. What this executor sends when the command ends makes the server issue one statement,
  which updates the record of \<open>i\<close>, with an unknown result and code 0 whatever the command did.
\<close>

theorem command_round_trip:
  assumes "computer cl = Some c" "response_queue cl = []" "time_now env w = (now, w1)"
    and "execute_query env (insert_executor_query env (computer_id c) now cmd) True w1 = (Inr r, w2)"
    and "success r" "last_id r = Some i" "in_i32 i"
    and "runCommand env cmd cl w = (Inr (), cl1, w2)"
    and "report env req ing cl1 w3 = (Inr res, ing', cl2, w4)"
    and "executors rc (word_of_int i) = None"
  shows "\<exists>cfg' rc' e. run_jobs (response_jobs res) cfg rc = (cfg', rc', None) \<and>
    launched rc' = launched rc @ [e] \<and> executors rc' = (executors rc)(word_of_int i \<mapsto> e) \<and>
    ex_id e = i \<and> ex_command e = cmd \<and>
    (\<forall>t w5 l. snd (snd (snd (ingest_values (traced env) (hd (rq_items (snd (notifyEnd t e)))) (computer cl2) (w5, l)))) =
       l @ [update_executor_query env \<lparr>er_id = i, er_return_type = kUnknownReturn, er_code = 0, er_time_finished = t\<rparr>])"
proof -
  let ?e = "command_executor cfg i cmd"
  have "cl1 = addResponse (command_response i cmd) cl"
    using assms(1,3-6,8) by (simp add: runCommand_def getId_def run_query_def)
  then have "rs_items res = [command_response i cmd]"
    using report_idle_queue [OF assms(9)] assms(2) by (simp add: addResponse_def)
  then obtain cfg' where jobs: "run_jobs (response_jobs res) cfg rc =
      (cfg', rc\<lparr>launched := launched rc @ [?e], executors := (executors rc)(word_of_int i \<mapsto> ?e)\<rparr>, None)"
    using run_jobs_command [OF assms(10), of "rs_header res" cmd cfg] by (cases res) auto
  have e: "ex_id ?e = i" "ex_command ?e = cmd"
    "executor_result t ?e = \<lparr>er_id = i, er_return_type = kUnknownReturn, er_code = 0, er_time_finished = t\<rparr>" for t
    using assms(7) by (simp_all add: command_executor_def new_executor_def executor_result_def Let_def)
  have "snd (snd (snd (ingest_values (traced env) (hd (rq_items (snd (notifyEnd t ?e)))) (computer cl2) (w5, l)))) =
       l @ [update_executor_query env \<lparr>er_id = i, er_return_type = kUnknownReturn, er_code = 0, er_time_finished = t\<rparr>]" for t w5 l
    using ingest_executor_result [of env t ?e "computer cl2" w5 l] e(3) by simp
  with jobs e(1,2) show ?thesis by (intro exI [of _ cfg'] exI [of _ ?e] exI) (auto intro!: exI)
qed

theorem command_round_trip_witness:
  "\<exists>res cfg' rc' e. run_jobs (response_jobs res) initial_config new_reporter_client = (cfg', rc', None) \<and>
     launched rc' = [e] \<and> ex_id e = 7 \<and> ex_command e = ''ls''"
proof -
  let ?cl = "\<lparr>computer = Some (new_computer 5), response_queue = []\<rparr>"
  let ?req = "\<lparr>rq_header = \<lparr>timestamp = 0, data_count = 0\<rparr>, rq_items = []\<rparr>"
  have run: "runCommand sample_env ''ls'' ?cl 0 = (Inr (), addResponse (command_response 7 ''ls'') ?cl, 1)"
    by (simp add: runCommand_def getId_def run_query_def sample_env_def sample_result_def new_computer_def)
  obtain r ing' cl2 w4 where e: "report sample_env ?req LogRequestIngestor (addResponse (command_response 7 ''ls'') ?cl) 1 = (r, ing', cl2, w4)"
    by (metis prod_cases4)
  have "\<exists>res. r = Inr res" using e by (auto simp: report_def ingestRequest_def case_prod_beta sample_env_def)
  then obtain res where res: "r = Inr res" ..
  have q: "execute_query sample_env (insert_executor_query sample_env (computer_id (new_computer 5)) 0 ''ls'') True 0 = (Inr sample_result, 1)"
    by (simp add: sample_env_def sample_result_def)
  have "\<exists>cfg' rc' e. run_jobs (response_jobs res) initial_config new_reporter_client = (cfg', rc', None) \<and>
      launched rc' = launched new_reporter_client @ [e] \<and> ex_id e = 7 \<and> ex_command e = ''ls''"
    using command_round_trip [OF _ _ _ q _ _ _ run e [unfolded res], where rc = new_reporter_client and
        cfg = initial_config and i = 7]
    by (fastforce simp: sample_env_def sample_result_def in_i32_def new_reporter_client_def)
  then show ?thesis by (auto simp: new_reporter_client_def)
qed

section \<open>System information on demand\<close>

lemma sys_report_version: "sys_report version m = Some (Inr info) \<Longrightarrow> client_version info = version"
  by (cases "mounts_report m"; cases "network_report (m_ifaddrs m)") (auto simp: sys_report_def)

text \<open>
  C15. What the operator's \<open>get sys-info\<close> sets off: the line queues one request for the client, its
  next successful report carries just that request, the reporter answers with a report of its
  system, and the server then holds the general part of it, which every later comparison
  starts from, marks nothing dirty, and has issued exactly the updates of what was dirty.
\<close>

theorem sys_info_round_trip:
  assumes "in_i32 i" "all_shaken s" "find (\<lambda>p. id_of (client_heap s) p = i) (clients s) = Some p"
    and "client_heap s p = Some cl" "response_queue cl = []"
    and "run_line env show_version (''get sys-info '' @ to_string i) s w = (Inr out, s1, w1)"
    and "report env req ing (the (client_heap s1 p)) w2 = (Inr res, ing', cl2, w3)"
    and "computer cl2 = Some c" "computer_id c \<noteq> - 1" "all_succeed env"
    and "sys_report version m = Some (Inr info)"
  shows "response_jobs res = [Send_System_Info] \<and> response_queue cl2 = [] \<and>
    (\<exists>c' w4. sendSysInfo (traced env) info cl2 (w3, l) =
        (Inr (), cl2\<lparr>computer := Some c'\<rparr>, (w4, l @ updateDB_statements env (setSysInfo info c))) \<and>
      sys_info c' = info\<lparr>sys_network_info := [], sys_storage_info := []\<rparr> \<and> client_version (sys_info c') = version \<and>
      \<not> sys_info_dirty c' \<and> (\<forall>d \<in> set (storage_info c'). \<not> dirty d))"
proof -
  have "s1 = s\<lparr>client_heap := (client_heap s)(p \<mapsto> addResponse sys_info_request cl)\<rparr>"
    using get_sys_info_line [OF assms(1,2), of env show_version w] assms(3,4,6) by simp
  then have "client_heap s1 p = Some (addResponse sys_info_request cl)" by simp
  then have rep: "report env req ing (addResponse sys_info_request cl) w2 = (Inr res, ing', cl2, w3)"
    using assms(7) by simp
  from report_idle_queue [OF rep] have "rs_items res = [sys_info_request]"
    using assms(5) by (simp add: addResponse_def)
  then have jobs: "response_jobs res = [Send_System_Info]"
    by (simp add: response_jobs_def handleResponseData_def sys_info_request_def)
  have queue: "response_queue cl2 = []" by (rule report_empties_queue [OF rep])
  have id: "computer_id (setSysInfo info c) \<noteq> - 1" using assms(9) by simp
  let ?c = "(setSysInfo info c)\<lparr>sys_info_dirty := False,
     storage_info := map (\<lambda>d. d\<lparr>dirty := False\<rparr>) (storage_info (setSysInfo info c))\<rparr>"
  obtain w4 where "updateDB (traced env) (setSysInfo info c) (w3, l) =
      (Inr True, ?c, (w4, l @ updateDB_statements env (setSysInfo info c)))"
    using updateDB_trace [OF assms(10) id, of w3 l] by blast
  then have "sendSysInfo (traced env) info cl2 (w3, l) =
      (Inr (), cl2\<lparr>computer := Some ?c\<rparr>, (w4, l @ updateDB_statements env (setSysInfo info c)))"
    using assms(8) by (simp add: sendSysInfo_def)
  moreover have "sys_info ?c = info\<lparr>sys_network_info := [], sys_storage_info := []\<rparr>" "client_version (sys_info ?c) = version"
    "\<not> sys_info_dirty ?c" "\<forall>d \<in> set (storage_info ?c). \<not> dirty d"
    using sys_report_version [OF assms(11)] by simp_all
  ultimately show ?thesis using jobs queue by blast
qed

theorem sys_info_round_trip_witness:
  "\<exists>out s1 res ing' cl2 w3 info cl3 c' wl. run_line sample_env (\<lambda>_. []) (''get sys-info '' @ to_string 6) sample_server 0 = (Inr out, s1, 0) \<and>
     report sample_env \<lparr>rq_header = \<lparr>timestamp = 0, data_count = 0\<rparr>, rq_items = []\<rparr> LogRequestIngestor
       (the (client_heap s1 (Suc 0))) 0 = (Inr res, ing', cl2, w3) \<and> response_jobs res = [Send_System_Info] \<and>
     sys_report default_version full_machine = Some (Inr info) \<and>
     sendSysInfo (traced sample_env) info cl2 (w3, []) = (Inr (), cl3, wl) \<and> computer cl3 = Some c' \<and> \<not> sys_info_dirty c'"
proof -
  let ?req = "\<lparr>rq_header = \<lparr>timestamp = 0, data_count = 0\<rparr>, rq_items = []\<rparr>"
  have six: "in_i32 6" by (simp add: in_i32_def)
  have f: "find (\<lambda>p. id_of (client_heap sample_server) p = 6) (clients sample_server) = Some (Suc 0)"
    "client_heap sample_server (Suc 0) = Some (sample_client 6)" "response_queue (sample_client 6) = []"
    by (simp_all add: sample_server_def id_of_def sample_client_def new_computer_def in_i32_def)
  obtain out s1 where l: "run_line sample_env (\<lambda>_. []) (''get sys-info '' @ to_string 6) sample_server 0 = (Inr out, s1, 0)"
    "client_heap s1 (Suc 0) = Some (addResponse sys_info_request (sample_client 6))"
    using get_sys_info_line [OF six sample_server_shaken, of sample_env "\<lambda>_. []" 0] f by auto
  obtain r ing' cl2 w3 where e: "report sample_env ?req LogRequestIngestor (the (client_heap s1 (Suc 0))) 0 = (r, ing', cl2, w3)"
    by (metis prod_cases4)
  then have "(\<exists>res. r = Inr res) \<and> computer cl2 = Some (new_computer 6)"
    using l(2) by (auto simp: report_def ingestRequest_def case_prod_beta sample_env_def drain_all sample_client_def addResponse_def)
  then obtain res where res: "r = Inr res" "computer cl2 = Some (new_computer 6)" by blast
  obtain info where info: "sys_report default_version full_machine = Some (Inr info)" using full_machine_reports by blast
  have "computer_id (new_computer 6) \<noteq> - 1" by (simp add: new_computer_def in_i32_def)
  from sys_info_round_trip [OF six sample_server_shaken f l(1) e [unfolded res(1)] res(2) this sample_env_succeeds info, of "[]"]
  obtain c' w4 where "response_jobs res = [Send_System_Info]" "\<not> sys_info_dirty c'"
    "sendSysInfo (traced sample_env) info cl2 (w3, []) =
      (Inr (), cl2\<lparr>computer := Some c'\<rparr>, (w4, [] @ updateDB_statements sample_env (setSysInfo info (new_computer 6))))" by blast
  moreover have "computer (cl2\<lparr>computer := Some c'\<rparr>) = Some c'" by simp
  ultimately show ?thesis using l(1) e res(1) info by blast
qed

section \<open>The identity of a new computer\<close>

text \<open>
  The remote call of the handshake, as the server answers it on a new connection; the world
  of the call is that of the server with the log of its statements.
\<close>

definition handshake_call ::
  "'w env \<Rightarrow> SystemInfo \<Rightarrow> int \<Rightarrow> 'w \<times> string list \<Rightarrow> int res \<times> 'w \<times> string list"
where
  "handshake_call env info i wl =
     (let (r, _, wl') = handshake (traced env) i info new_client wl in (r, wl'))"

text \<open>
  C14. A reporter without an identity gets one that lasts. When the inserts of the server
  succeed, its first handshake makes the server store the computer first and then each
  distinct device under the new id; the reporter keeps that id, and its configuration file
  then holds it: whatever the order in which the file was written, the next start reads the
  very configuration with that id.
\<close>

theorem first_handshake_identity:
  assumes "inserts_succeed env" "connectable cfg" "config_ok (config cfg)"
    and "config cfg RMS_REPORTER_CONFIG_COMPUTER_ID = Some (to_string (- 1))"
    and "writable fs (config_path cfg)"
    and "\<And>n. set (order (config (with_id n cfg))) = dom (config (with_id n cfg))"
  shows "\<exists>i fs' w'. handshakeTCP order (handshake_call env info) True cfg fs (w, []) =
      (Inr 0, with_id i cfg, fs', (w', insert_computer_query env (info\<lparr>sys_network_info := [], sys_storage_info := []\<rparr>) #
         map (insert_storage_query env i) (fold add_storage (sys_storage_info info) []))) \<and>
    (i \<noteq> - 1 \<longrightarrow> RmsConfig_load (config_path cfg) initial_config fs' = (Inr (), with_id i cfg))"
proof -
  let ?c = "setSysInfo info (new_computer (- 1))"
  obtain i ids w' where add: "addToDB (traced env) ?c (w, []) =
      (Inr True, ?c\<lparr>computer_id := i, storage_info := map2 stored_with (storage_info ?c) ids\<rparr>,
       (w', insert_computer_query env (sys_info ?c) # map (insert_storage_query env i) (storage_info ?c)))"
    using addToDB_trace [OF assms(1), of ?c w "[]"] by auto
  have c: "sys_info ?c = info\<lparr>sys_network_info := [], sys_storage_info := []\<rparr>"
    "storage_info ?c = fold add_storage (sys_storage_info info) []"
    by (simp_all add: new_computer_def)
  let ?l = "insert_computer_query env (info\<lparr>sys_network_info := [], sys_storage_info := []\<rparr>) #
      map (insert_storage_query env i) (fold add_storage (sys_storage_info info) [])"
  have call: "handshake_call env info (- 1) (w, []) = (Inr i, w', ?l)"
    using add c by (simp add: handshake_call_def handshake_def)
  have one: "in_i64 (- 1)" by (simp add: in_i64_def)
  note hs = handshakeTCP_connected [OF assms(2,4), of order "handshake_call env info" fs "(w, [])"]
  show ?thesis
  proof (cases "i = - 1")
    case True
    have "with_id (- 1) cfg = cfg" using assms(4) by (simp add: with_id_def fun_upd_idem)
    with hs call one True show ?thesis by (intro exI [of _ i]) auto
  next
    case False
    have "RmsConfig_replace RMS_REPORTER_CONFIG_COMPUTER_ID (to_string i) cfg = with_id i cfg"
      using assms(2) by (simp add: RmsConfig_replace_def with_id_def connectable_def)
    with hs call one False have "handshakeTCP order (handshake_call env info) True cfg fs (w, []) =
        (Inr 0, with_id i cfg, RmsConfig_save order (with_id i cfg) fs, (w', ?l))" by (simp add: Let_def)
    moreover have "RmsConfig_load (config_path cfg) initial_config (RmsConfig_save order (with_id i cfg) fs) = (Inr (), with_id i cfg)"
      using with_id_facts [OF assms(2,3), of i] assms(5,6) by (intro saved_config_loads) simp_all
    ultimately show ?thesis by blast
  qed
qed

theorem first_handshake_identity_witness:
  "\<exists>i fs' w' l. handshakeTCP (\<lambda>_. [''computer_id'', ''server_port'', ''server_ip'']) (handshake_call sample_env sample_info)
     True sample_reporter_config sample_fs (0, []) = (Inr 0, with_id i sample_reporter_config, fs', (w', l)) \<and> l \<noteq> []"
proof -
  have w: "writable sample_fs (config_path sample_reporter_config)"
    by (simp add: sample_fs_def sample_reporter_config_facts)
  have o: "set [''computer_id'', ''server_port'', ''server_ip''] = dom (config (with_id n sample_reporter_config))" for n
    by (rule sample_reporter_config_facts(3))
  show ?thesis
    using first_handshake_identity [OF sample_env_inserts sample_reporter_config_ok sample_reporter_config_facts(1) w o,
        of sample_info 0] by blast
qed

section \<open>Memory, from the machine to the server\<close>

text \<open>
  C25. The memory of the machine arrives as a percentage: from a \<open>/proc/meminfo\<close> of the usual
  layout the reporter builds a request from whose item the server adds to the window of the
  computer's memory exactly the share of the total that is not available, and, when the
  machine has swap, to that of its swap the share that is not free.
\<close>

theorem memory_end_to_end:
  assumes "blanks pad" "\<forall>l \<in> set ls. newline \<notin> set l" "starts_word (unlines ls @ meminfo_swap pad swap unused @ t)"
    and "length ls = 11" "starts_word t"
    and "0 \<le> avail" "avail \<le> main" "in_i64 main" "0 < main" "0 \<le> unused" "unused \<le> swap" "in_i64 swap"
    and "tables_ok c"
  shows "\<exists>q c'. consumer_poll Ram_Consumer \<lparr>stat_before = None, stat_after = None,
      meminfo = Some (meminfo_head pad main n avail @ unlines ls @ meminfo_swap pad swap unused @ t), clock = now\<rparr> = Some (Inr q) \<and>
    ingest_values env (hd (rq_items (snd q))) (Some c) w = (Inr (), Some c', w) \<and>
    points_of (kRam, 0) c' = take_last 61 (points_of (kRam, 0) c @ [Num (100 * real_of_int (main - avail) / real_of_int main)]) \<and>
    points_of (kRam, 1) c' = (if swap = 0 then points_of (kRam, 1) c
      else take_last 61 (points_of (kRam, 1) c @ [Num (100 * real_of_int (swap - unused) / real_of_int swap)]))"
proof -
  let ?r = "\<lparr>main_total = main, main_free = avail, swap_total = swap, swap_free = unused\<rparr>"
  have i64: "in_i64 avail" "in_i64 unused" "in_i64 (main - avail)" "in_i64 (swap - unused)"
    using assms(6-12) by (auto simp: in_i64_def)
  have "ram_report (Some (meminfo_head pad main n avail @ unlines ls @ meminfo_swap pad swap unused @ t)) = Some (Inr ?r)"
    using assms(1,3,5,8,12) i64 skip_lines_unlines [OF assms(2), of "meminfo_swap pad swap unused @ t"] assms(4)
    by (simp add: ram_report_def ram_head_meminfo ram_tail_meminfo)
  then have poll: "consumer_poll Ram_Consumer \<lparr>stat_before = None, stat_after = None,
      meminfo = Some (meminfo_head pad main n avail @ unlines ls @ meminfo_swap pad swap unused @ t), clock = now\<rparr> =
      Some (Inr (ram_consume ?r now))" by (simp add: consumer_poll_def)
  let ?p = "Num (100 * real_of_int (main - avail) / real_of_int main)"
  let ?q = "Num (100 * real_of_int (swap - unused) / real_of_int swap)"
  have pct: "used_percent main avail = Inr ?p" "swap \<noteq> 0 \<Longrightarrow> used_percent swap unused = Inr ?q"
    using assms(9) i64 by (simp_all add: used_percent_def sub_i64_def)
  let ?c1 = "addUsageInfo kRam ?p 0 c"
  let ?c2 = "if swap = 0 then ?c1 else addUsageInfo kRam ?q 1 ?c1"
  have ok1: "tables_ok ?c1" by (rule tables_ok_addUsageInfo [OF assms(13)])
  have win: "window = take_last 61" by (simp add: window_def fun_eq_iff RMS_MAX_CONTAINER_DATA_POINTS_def)
  have "ingest_values env (hd (rq_items (snd (ram_consume ?r now)))) (Some c) w = (Inr (), Some ?c2, w)"
    using pct by (auto simp: ingest_values_def ram_consume_def consumer_request_def ram_data_def add_ram_usage_def)
  moreover have "points_of (kRam, 0) ?c2 = take_last 61 (points_of (kRam, 0) c @ [?p])"
    "points_of (kRam, 1) ?c2 = (if swap = 0 then points_of (kRam, 1) c else take_last 61 (points_of (kRam, 1) c @ [?q]))"
    using points_addUsageInfo [OF tables_usage_ok [OF assms(13)]] points_addUsageInfo [OF tables_usage_ok [OF ok1]] by (simp_all add: win)
  ultimately show ?thesis using poll by blast
qed

theorem memory_end_to_end_witness:
  "\<exists>(q :: queued_request) c'. ingest_values sample_env (hd (rq_items (snd q))) (Some (new_computer 5)) 0 = (Inr (), Some c', 0) \<and>
     points_of (kRam, 0) c' = [Num 25] \<and> points_of (kRam, 1) c' = [Num 50]"
proof -
  have b: "blanks '' ''" by (simp add: blanks_def)
  have l: "\<forall>l \<in> set (replicate 11 ''Buffers: 1 kB''). newline \<notin> set l" by (simp add: newline_def)
  have s: "starts_word (unlines (replicate 11 ''Buffers: 1 kB'') @ meminfo_swap '' '' 4 2 @ [])"
    by (simp add: is_space_def numeral_eq_Suc)
  have ints: "in_i64 16" "in_i64 4" by (simp_all add: in_i64_def)
  have "\<exists>(q :: queued_request) c'. ingest_values sample_env (hd (rq_items (snd q))) (Some (new_computer 5)) 0 = (Inr (), Some c', 0) \<and>
    points_of (kRam, 0) c' = take_last 61 (points_of (kRam, 0) (new_computer 5) @ [Num 25]) \<and>
    points_of (kRam, 1) c' = take_last 61 (points_of (kRam, 1) (new_computer 5) @ [Num 50])"
    using memory_end_to_end [OF b l s _ _ _ _ ints(1) _ _ _ ints(2) tables_ok_new [of 5],
        where avail = 12 and n = 9 and now = 1 and env = sample_env and w = 0]
    by (simp del: split_paired_Ex) blast
  then obtain q :: queued_request and c' where "ingest_values sample_env (hd (rq_items (snd q))) (Some (new_computer 5)) 0 = (Inr (), Some c', 0)"
    "points_of (kRam, 0) c' = take_last 61 (points_of (kRam, 0) (new_computer 5) @ [Num 25])"
    "points_of (kRam, 1) c' = take_last 61 (points_of (kRam, 1) (new_computer 5) @ [Num 50])" by blast
  moreover have "points_of k (new_computer 5) = []" for k
    by (simp add: points_of_def new_computer_def)
  ultimately show ?thesis by (intro exI [of _ q] exI [of _ c']) simp
qed

section \<open>The output of a command\<close>

text \<open>
  C38. The output of a command, from its pipe to the screen of the server. When every call
  returns, pieces that the command ends with a null byte are printed in order with a line end
  after each, and the executor leaves its loop at the end of the pipe; when no call returns
  the first piece aborts the reporter. Pieces without a null byte, which is what programs
  write, make the executor read memory that was never initialised, whatever the calls do.
\<close>

theorem output_at_server:
  assumes "\<forall>d \<in> set ds. CHR 0x00 \<notin> set d"
  shows "(\<exists>xs. collect_output (\<lambda>_. True) i (map (chunk True) ds @ [closing]) = Inr (xs, True) \<and>
      concat (map reportExecutorData xs) = concat (map (\<lambda>d. d @ [newline]) ds)) \<and>
    (ds \<noteq> [] \<longrightarrow>
      collect_output (\<lambda>_. False) i (map (chunk True) ds @ [closing]) = Inl (Exit 134) \<and>
      collect_output sends i (map (chunk False) ds @ evs) = Inl Indeterminate_Value)"
proof (intro conjI impI)
  show "\<exists>xs. collect_output (\<lambda>_. True) i (map (chunk True) ds @ [closing]) = Inr (xs, True) \<and>
      concat (map reportExecutorData xs) = concat (map (\<lambda>d. d @ [newline]) ds)"
    using assms
  proof (induction ds)
    case Nil
    show ?case by (simp add: executor_round_def closing_def)
  next
    case (Cons d ds)
    then obtain xs where "collect_output (\<lambda>_. True) i (map (chunk True) ds @ [closing]) = Inr (xs, True)"
      "concat (map reportExecutorData xs) = concat (map (\<lambda>d. d @ [newline]) ds)" by auto
    moreover have "executor_round i (chunk True d) = Inr ([report_data i 0 d []], Go_On)"
      using Cons.prems by (simp add: executor_round_def chunk_def)
    moreover have "reportExecutorData (report_data i 0 d []) = d @ [newline]"
      by (simp add: reportExecutorData_def report_data_def endl_def)
    ultimately show ?case by (intro exI [of _ "report_data i 0 d [] # xs"]) simp
  qed
  assume "ds \<noteq> []"
  with assms show "collect_output (\<lambda>_. False) i (map (chunk True) ds @ [closing]) = Inl (Exit 134)"
    "collect_output sends i (map (chunk False) ds @ evs) = Inl Indeterminate_Value"
    by (cases ds; simp add: executor_round_def chunk_def buffer_string_def)+
qed

theorem output_at_server_witness:
  "\<exists>xs. collect_output (\<lambda>_. True) 4 (map (chunk True) [''a'', ''b''] @ [closing]) = Inr (xs, True) \<and>
     concat (map reportExecutorData xs) = ''a'' @ [newline] @ ''b'' @ [newline]"
  using output_at_server [of "[''a'', ''b'']" 4] by simp

end
